(* ===== verification/Prelude.thy ===== *)
theory Prelude
  imports Main "HOL-Library.Word" "HOL-Library.Sublist"
begin

text \<open>
  What every component shares: the result type of fallible operations with the rewrite rules
  that collapse a chain of early returns, the byte strings of Go with the functions of package
  \<^verbatim>\<open>strings\<close> the program calls, character classes of the program's regular expressions,
  and 64-bit integers with their wrap-around written out.

  A Go string is a sequence of bytes, so it is an Isabelle \<^typ>\<open>string\<close> (a list of 8-bit
  characters).  Case mapping of text beyond ASCII depends on the Unicode tables of the Go
  runtime; those tables are a parameter (record \<open>unicode\<close>), consulted exactly where Go leaves its
  ASCII path.
\<close>

named_theorems wf_intros \<open>introduction rules for well-formedness predicates\<close>
named_theorems go_defs \<open>definitions of small library helpers, for unfolding\<close>

subsection \<open>Results\<close>

text \<open>A Go function returning \<open>(T, error)\<close> is a function into \<open>'e + 'a\<close>: \<open>Inl\<close> the error.\<close>

type_synonym ('a, 'e) result = "'e + 'a"

lemma if_Inl_eq_Inr [simp]:
  "((if c then Inl e else x) = Inr y) = (\<not> c \<and> x = Inr y)"
  by simp

lemma if_Inl_eq_Inr' [simp]:
  "((if c then x else Inl e) = Inr y) = (c \<and> x = Inr y)"
  by simp

lemma case_Inl_eq_Inr [simp]:
  "((case m of Inl e \<Rightarrow> Inl (g e) | Inr x \<Rightarrow> f x) = Inr y) = (\<exists>x. m = Inr x \<and> f x = Inr y)"
  by (cases m) auto

lemma case_err_eq_Inr [simp]:
  "((case m of Some e \<Rightarrow> Inl (g e) | None \<Rightarrow> x) = Inr y) = (m = None \<and> x = Inr y)"
  by (cases m) auto

lemma case_opt_eq_Inr [simp]:
  "((case m of None \<Rightarrow> Inl e | Some x \<Rightarrow> f x) = Inr y) = (\<exists>x. m = Some x \<and> f x = Inr y)"
  by (cases m) auto

lemma if_Some_eq_None [simp]:
  "((if c then Some e else x) = None) = (\<not> c \<and> x = None)"
  by simp

text \<open>The next operation, unless this one failed.\<close>

definition bindE :: "'e + 'a \<Rightarrow> ('a \<Rightarrow> 'e + 'b) \<Rightarrow> 'e + 'b" where
  "bindE r f = (case r of Inl e \<Rightarrow> Inl e | Inr x \<Rightarrow> f x)"

lemma bindE_simps [simp]: "bindE (Inl e) f = Inl e" "bindE (Inr x) f = f x"
  by (simp_all add: bindE_def)

lemma bindE_Inr: "bindE r f = Inr y \<longleftrightarrow> (\<exists>x. r = Inr x \<and> f x = Inr y)"
  by (cases r) simp_all

text \<open>A loop that converts every element and stops at the first error.\<close>

fun mapE :: "('a \<Rightarrow> 'e + 'b) \<Rightarrow> 'a list \<Rightarrow> 'e + 'b list" where
  "mapE f [] = Inr []"
| "mapE f (x # xs) =
     (case f x of Inl e \<Rightarrow> Inl e
      | Inr y \<Rightarrow> (case mapE f xs of Inl e \<Rightarrow> Inl e | Inr ys \<Rightarrow> Inr (y # ys)))"

lemma mapE_eq_Inr: "(mapE f xs = Inr ys) = list_all2 (\<lambda>x y. f x = Inr y) xs ys"
  by (induction xs arbitrary: ys) (auto simp: list_all2_Cons1)

lemma mapE_Inr_set: "mapE f xs = Inr ys \<Longrightarrow> y \<in> set ys \<Longrightarrow> \<exists>x \<in> set xs. f x = Inr y"
  by (induction xs arbitrary: ys) auto

lemma mapE_length: "mapE f xs = Inr ys \<Longrightarrow> length ys = length xs"
  by (induction xs arbitrary: ys) auto

subsection \<open>Panics\<close>

text \<open>Code that may panic: the value, or the panic.\<close>

datatype 'a may_panic = Done 'a | Panics

fun mapP :: "('a \<Rightarrow> 'b may_panic) \<Rightarrow> 'a list \<Rightarrow> 'b list may_panic" where
  "mapP f [] = Done []"
| "mapP f (x # xs) =
     (case f x of Panics \<Rightarrow> Panics
      | Done y \<Rightarrow> (case mapP f xs of Panics \<Rightarrow> Panics | Done ys \<Rightarrow> Done (y # ys)))"

lemma mapP_Done:
  "length ys = length xs \<Longrightarrow> \<forall>i < length xs. f (xs ! i) = Done (ys ! i) \<Longrightarrow> mapP f xs = Done ys"
proof (induction xs arbitrary: ys)
  case (Cons x xs)
  from Cons.prems(1) obtain y ys' where ys: "ys = y # ys'" by (cases ys) auto
  with Cons.prems have "f x = Done y" "length ys' = length xs" by auto
  moreover have "\<forall>i < length xs. f (xs ! i) = Done (ys' ! i)"
  proof (intro allI impI)
    fix i assume "i < length xs"
    then show "f (xs ! i) = Done (ys' ! i)"
      using Cons.prems(2) [rule_format, of "Suc i"] by (simp add: ys)
  qed
  ultimately show ?case using Cons.IH [of ys'] ys by simp
qed simp

lemma mapP_Panics: "x \<in> set xs \<Longrightarrow> f x = Panics \<Longrightarrow> mapP f xs = Panics"
  by (induction xs) (auto split: may_panic.splits)

subsection \<open>Go maps with string keys\<close>

type_synonym 'v gomap = "string \<rightharpoonup> 'v"

text \<open>Reading a missing key of a \<open>map[string]string\<close> gives the empty string.\<close>

definition sget :: "string gomap \<Rightarrow> string \<Rightarrow> string" where
  "sget m k = (case m k of None \<Rightarrow> [] | Some v \<Rightarrow> v)"

lemma sget_simps [simp]:
  "m k = None \<Longrightarrow> sget m k = []"
  "m k = Some v \<Longrightarrow> sget m k = v"
  by (simp_all add: sget_def)

lemma sget_empty [simp]: "sget Map.empty k = []"
  by (simp add: sget_def)

lemma sget_upd [simp]: "sget (m(k \<mapsto> v)) j = (if j = k then v else sget m j)"
  by (simp add: sget_def)

subsection \<open>64-bit signed integers\<close>

definition wrap64 :: "int \<Rightarrow> int" where
  "wrap64 x = (x + 2 ^ 63) mod 2 ^ 64 - 2 ^ 63"

definition in64 :: "int \<Rightarrow> bool" where
  "in64 x \<longleftrightarrow> - (2 ^ 63) \<le> x \<and> x < 2 ^ 63"

lemma in64_wrap64 [simp]: "in64 (wrap64 x)"
proof -
  have "0 \<le> (x + 2 ^ 63) mod 2 ^ 64" and "(x + 2 ^ 63) mod 2 ^ 64 < (2 ^ 64 :: int)"
    by simp_all
  then show ?thesis by (simp add: in64_def wrap64_def)
qed

lemma wrap64_id: "in64 x \<Longrightarrow> wrap64 x = x"
  by (simp add: in64_def wrap64_def)

text \<open>Go's integer division truncates towards zero.\<close>

definition quot :: "int \<Rightarrow> int \<Rightarrow> int" where
  "quot a b = sgn a * sgn b * (\<bar>a\<bar> div \<bar>b\<bar>)"

lemma quot_nonneg: "0 \<le> a \<Longrightarrow> 0 < b \<Longrightarrow> quot a b = a div b"
  by (cases "a = 0") (simp_all add: quot_def)

subsection \<open>Bytes and characters\<close>

abbreviation byte_of :: "char \<Rightarrow> nat" where
  "byte_of c \<equiv> of_char c"

abbreviation chr :: "nat \<Rightarrow> char" where
  "chr n \<equiv> char_of n"

definition isDigit :: "char \<Rightarrow> bool" where
  "isDigit c \<longleftrightarrow> byte_of c \<in> {48..57}"

definition isUpper :: "char \<Rightarrow> bool" where
  "isUpper c \<longleftrightarrow> byte_of c \<in> {65..90}"

definition isLower :: "char \<Rightarrow> bool" where
  "isLower c \<longleftrightarrow> byte_of c \<in> {97..122}"

definition isAlnum :: "char \<Rightarrow> bool" where
  "isAlnum c \<longleftrightarrow> isLower c \<or> isUpper c \<or> isDigit c"

lemmas char_class_defs [go_defs] = isDigit_def isUpper_def isLower_def isAlnum_def

text \<open>\<open>^[class]{lo,hi}$\<close>: a regular expression over one byte class.\<close>

definition matches_class :: "(char \<Rightarrow> bool) \<Rightarrow> nat \<Rightarrow> nat \<Rightarrow> string \<Rightarrow> bool" where
  "matches_class P lo hi s \<longleftrightarrow> lo \<le> length s \<and> length s \<le> hi \<and> list_all P s"

lemma matches_class_nonempty: "matches_class P (Suc n) hi s \<Longrightarrow> s \<noteq> []"
  by (auto simp: matches_class_def)

text \<open>\<open>^[first][rest]{0,hi}$\<close>.\<close>

definition matches_name :: "(char \<Rightarrow> bool) \<Rightarrow> (char \<Rightarrow> bool) \<Rightarrow> nat \<Rightarrow> string \<Rightarrow> bool" where
  "matches_name P Q hi s \<longleftrightarrow>
     (case s of [] \<Rightarrow> False | c # cs \<Rightarrow> P c \<and> matches_class Q 0 hi cs)"

lemma matches_name_Nil [simp]: "\<not> matches_name P Q hi []"
  by (simp add: matches_name_def)

end
