(* ===== verification/GoStrings.thy ===== *)
theory GoStrings
  imports Prelude
begin

text \<open>
  The functions of Go's packages \<^verbatim>\<open>strings\<close> and \<^verbatim>\<open>unicode\<close> that the program
  calls, on byte strings: search, cut, split, trimming of Unicode white space, and case mapping
  with the ASCII path written out.  Case mapping beyond ASCII goes through the parameter record
  \<open>unicode\<close>.
\<close>

subsection \<open>Prefixes, suffixes, search\<close>

definition HasPrefix :: "string \<Rightarrow> string \<Rightarrow> bool" where
  "HasPrefix s p \<longleftrightarrow> prefix p s"

definition HasSuffix :: "string \<Rightarrow> string \<Rightarrow> bool" where
  "HasSuffix s p \<longleftrightarrow> suffix p s"

definition TrimPrefix :: "string \<Rightarrow> string \<Rightarrow> string" where
  "TrimPrefix s p = (if HasPrefix s p then drop (length p) s else s)"

definition TrimSuffix :: "string \<Rightarrow> string \<Rightarrow> string" where
  "TrimSuffix s p = (if HasSuffix s p then take (length s - length p) s else s)"

text \<open>\<open>CutSuffix\<close> returns the string without the suffix and whether it was there.\<close>

definition CutSuffix :: "string \<Rightarrow> string \<Rightarrow> string \<times> bool" where
  "CutSuffix s p = (TrimSuffix s p, HasSuffix s p)"

lemma TrimSuffix_append [simp]: "TrimSuffix (s @ p) p = s"
  by (simp add: TrimSuffix_def HasSuffix_def suffix_def)

lemma HasSuffix_append [simp]: "HasSuffix (s @ p) p"
  by (simp add: HasSuffix_def suffix_def)

lemma HasPrefix_append [simp]: "HasPrefix (p @ s) p"
  by (simp add: HasPrefix_def)

definition IndexByte :: "string \<Rightarrow> char \<Rightarrow> nat option" where
  "IndexByte s c = (if c \<in> set s then Some (length (takeWhile (\<lambda>x. x \<noteq> c) s)) else None)"

definition LastIndexByte :: "string \<Rightarrow> char \<Rightarrow> nat option" where
  "LastIndexByte s c =
     (case IndexByte (rev s) c of None \<Rightarrow> None | Some i \<Rightarrow> Some (length s - Suc i))"

lemma IndexByte_None [simp]: "(IndexByte s c = None) = (c \<notin> set s)"
  by (simp add: IndexByte_def)

lemma takeWhile_until [simp]:
  "c \<notin> set xs \<Longrightarrow> takeWhile (\<lambda>x. x \<noteq> c) (xs @ c # ys) = xs"
  by (induction xs) auto

lemma IndexByte_split [simp]: "c \<notin> set a \<Longrightarrow> IndexByte (a @ c # b) c = Some (length a)"
  by (simp add: IndexByte_def)

lemma IndexByte_SomeE:
  assumes "IndexByte s c = Some i"
  obtains a b where "s = a @ c # b" and "c \<notin> set a" and "i = length a"
proof -
  from assms have "c \<in> set s" by (auto simp: IndexByte_def split: if_splits)
  then obtain a b where s: "s = a @ c # b" "c \<notin> set a"
    by (metis split_list_first)
  with assms have "i = length a" by simp
  with s that show thesis by blast
qed

lemma LastIndexByte_split [simp]:
  "c \<notin> set b \<Longrightarrow> LastIndexByte (a @ c # b) c = Some (length a)"
  by (simp add: LastIndexByte_def)

lemma LastIndexByte_None [simp]: "(LastIndexByte s c = None) = (c \<notin> set s)"
  by (simp add: LastIndexByte_def IndexByte_def)

lemma LastIndexByte_SomeE:
  assumes "LastIndexByte s c = Some i"
  obtains a b where "s = a @ c # b" and "c \<notin> set b" and "i = length a"
proof -
  from assms have "c \<in> set s" by (metis LastIndexByte_None option.distinct(1))
  then obtain a b where s: "s = a @ c # b" "c \<notin> set b"
    by (metis split_list_last)
  with assms have "i = length a" by simp
  with s that show thesis by blast
qed

text \<open>\<open>strings.Cut\<close> around the first separator byte.\<close>

definition Cut :: "string \<Rightarrow> char \<Rightarrow> string \<times> string \<times> bool" where
  "Cut s c = (case IndexByte s c of None \<Rightarrow> (s, [], False)
              | Some i \<Rightarrow> (take i s, drop (Suc i) s, True))"

lemma Cut_split [simp]: "c \<notin> set a \<Longrightarrow> Cut (a @ c # b) c = (a, b, True)"
  by (simp add: Cut_def)

lemma Cut_absent [simp]: "c \<notin> set s \<Longrightarrow> Cut s c = (s, [], False)"
  by (simp add: Cut_def IndexByte_def)

text \<open>\<open>strings.Split\<close> by one byte: always at least one piece.\<close>

fun Split :: "string \<Rightarrow> char \<Rightarrow> string list" where
  "Split [] c = [[]]"
| "Split (x # xs) c =
     (if x = c then [] # Split xs c
      else (case Split xs c of [] \<Rightarrow> [[x]] | p # ps \<Rightarrow> (x # p) # ps))"

lemma Split_not_Nil [simp]: "Split s c \<noteq> []"
  by (cases s) (auto split: list.splits)

lemma Split_absent: "c \<notin> set s \<Longrightarrow> Split s c = [s]"
  by (induction s) auto

lemma Split_append: "c \<notin> set a \<Longrightarrow> Split (a @ c # b) c = a # Split b c"
  by (induction a) auto

lemma Split_pieces: "p \<in> set (Split s c) \<Longrightarrow> c \<notin> set p"
  by (induction s c arbitrary: p rule: Split.induct) (auto split: if_splits list.splits)

definition ContainsAny :: "string \<Rightarrow> string \<Rightarrow> bool" where
  "ContainsAny s cs \<longleftrightarrow> list_ex (\<lambda>c. c \<in> set cs) s"

lemma ContainsAny_iff: "ContainsAny s cs \<longleftrightarrow> set s \<inter> set cs \<noteq> {}"
  by (auto simp: ContainsAny_def list_ex_iff)

subsection \<open>White space\<close>

text \<open>
  The UTF-8 encodings of the runes for which \<open>unicode.IsSpace\<close> holds: tab, LF, VT, FF, CR,
  space, U+0085, U+00A0, U+1680, U+2000..U+200A, U+2028, U+2029, U+202F, U+205F, U+3000.
  UTF-8 decoding of a valid leading (trailing) sequence is decided by those bytes alone, so
  trimming is the removal of leading (trailing) members of this list.
\<close>

definition space_runes :: "string list" where
  "space_runes =
     map (\<lambda>n. [chr n]) [9, 10, 11, 12, 13, 32] @
     map (map chr) ([[194, 133], [194, 160], [225, 154, 128]]
       @ map (\<lambda>n. [226, 128, n]) [128, 129, 130, 131, 132, 133, 134, 135, 136, 137, 138, 168, 169, 175]
       @ [[226, 129, 159], [227, 128, 128]])"

lemma space_runes_nonempty: "[] \<notin> set space_runes"
  by (simp add: space_runes_def)

function strip :: "string list \<Rightarrow> string \<Rightarrow> string" where
  "strip ps s =
     (case find (\<lambda>p. p \<noteq> [] \<and> prefix p s) ps of
        None \<Rightarrow> s
      | Some p \<Rightarrow> strip ps (drop (length p) s))"
  by pat_completeness auto
termination
proof (relation "measure (\<lambda>(ps, s). length s)")
  fix ps s p
  assume "find (\<lambda>p. p \<noteq> [] \<and> prefix p s) ps = Some p"
  then have "p \<noteq> []" and "prefix p s" by (auto simp: find_Some_iff)
  then have "0 < length p" and "length p \<le> length s" by (auto simp: prefix_length_le)
  then show "((ps, drop (length p) s), ps, s) \<in> measure (\<lambda>(ps, s). length s)"
    by (simp del: length_greater_0_conv)
qed simp

declare strip.simps [simp del]

definition TrimSpace :: "string \<Rightarrow> string" where
  "TrimSpace s = rev (strip (map rev space_runes) (rev (strip space_runes s)))"

text \<open>A string is trimmed when no white-space rune begins or ends it.\<close>

definition unspaced :: "string list \<Rightarrow> string \<Rightarrow> bool" where
  "unspaced ps s \<longleftrightarrow> (\<forall>p \<in> set ps. p \<noteq> [] \<longrightarrow> \<not> prefix p s)"

lemma strip_unspaced: "unspaced ps (strip ps s)"
proof (induction ps s rule: strip.induct)
  case (1 ps s)
  show ?case
  proof (cases "find (\<lambda>p. p \<noteq> [] \<and> prefix p s) ps")
    case None
    then show ?thesis by (simp add: strip.simps [of ps s]) (auto simp: unspaced_def find_None_iff)
  next
    case (Some p)
    with 1 show ?thesis by (simp add: strip.simps [of ps s])
  qed
qed

lemma strip_id: "unspaced ps s \<Longrightarrow> strip ps s = s"
  by (auto simp: strip.simps [of ps s] unspaced_def find_Some_iff split: option.splits)

lemma strip_suffix: "suffix (strip ps s) s"
proof (induction ps s rule: strip.induct)
  case (1 ps s)
  then show ?case
    by (auto simp: strip.simps [of ps s] split: option.splits
             intro: suffix_order.trans suffix_drop)
qed

lemma unspaced_prefix: "unspaced ps s \<Longrightarrow> prefix t s \<Longrightarrow> unspaced ps t"
  by (auto simp: unspaced_def intro: prefix_order.trans)

lemma TrimSpace_idem [simp]: "TrimSpace (TrimSpace s) = TrimSpace s"
proof -
  define a where "a = strip space_runes s"
  define b where "b = strip (map rev space_runes) (rev a)"
  have "unspaced space_runes a" by (simp add: a_def strip_unspaced)
  moreover have "prefix (rev b) a"
    using strip_suffix [of "map rev space_runes" "rev a"] by (simp add: b_def suffix_to_prefix)
  ultimately have "unspaced space_runes (rev b)" by (rule unspaced_prefix)
  moreover have "unspaced (map rev space_runes) b" by (simp add: b_def strip_unspaced)
  ultimately have "TrimSpace (rev b) = rev b" by (simp add: TrimSpace_def strip_id)
  then show ?thesis by (simp add: TrimSpace_def a_def b_def)
qed

lemma length_strip_le: "length (strip ps s) \<le> length s"
  by (rule suffix_length_le [OF strip_suffix])

lemma length_TrimSpace_le: "length (TrimSpace s) \<le> length s"
  using length_strip_le [of "map rev space_runes" "rev (strip space_runes s)"]
        length_strip_le [of space_runes s]
  by (simp add: TrimSpace_def)

lemma strip_Nil [simp]: "strip ps [] = []"
  using length_strip_le [of ps "[]"] by simp

lemma TrimSpace_Nil [simp]: "TrimSpace [] = []"
  by (simp add: TrimSpace_def)

text \<open>Bytes that begin no white-space rune stop the trimming on either side.\<close>

definition solid :: "char \<Rightarrow> bool" where
  "solid c \<longleftrightarrow> byte_of c \<in> {33..127}"

lemma space_runes_ends:
  assumes "p \<in> set space_runes"
  shows "\<not> solid (hd p)" and "\<not> solid (last p)"
  using assms by (auto simp: space_runes_def solid_def)

lemma unspaced_solid:
  assumes "s = [] \<or> solid (hd s)"
  shows "unspaced space_runes s"
proof -
  have "\<not> prefix p s" if "p \<in> set space_runes" "p \<noteq> []" for p
    using assms that space_runes_ends(1) [OF that(1)]
    by (metis hd_append2 prefix_def prefix_Nil)
  then show ?thesis by (simp add: unspaced_def)
qed

lemma unspaced_solid_rev:
  assumes "s = [] \<or> solid (last s)"
  shows "unspaced (map rev space_runes) (rev s)"
proof -
  have "\<not> prefix (rev p) (rev s)" if "p \<in> set space_runes" "p \<noteq> []" for p
    using assms that space_runes_ends(2) [OF that(1)]
    by (metis last_appendR suffix_to_prefix suffix_def suffix_bot.extremum_uniqueI)
  then show ?thesis by (auto simp: unspaced_def)
qed

lemma TrimSpace_solid:
  "s = [] \<or> solid (hd s) \<and> solid (last s) \<Longrightarrow> TrimSpace s = s"
  by (auto simp: TrimSpace_def strip_id unspaced_solid unspaced_solid_rev)

lemma TrimSpace_all_solid: "list_all solid s \<Longrightarrow> TrimSpace s = s"
  by (rule TrimSpace_solid) (auto simp: list_all_iff)

subsection \<open>Letter case\<close>

record unicode =
  uni_lower :: "string \<Rightarrow> string"
  uni_upper :: "string \<Rightarrow> string"
  uni_fold :: "string \<Rightarrow> string \<Rightarrow> bool"

definition ascii :: "char \<Rightarrow> bool" where
  "ascii c \<longleftrightarrow> byte_of c < (128::nat)"

definition lower1 :: "char \<Rightarrow> char" where
  "lower1 c = (if isUpper c then chr (byte_of c + 32) else c)"

definition upper1 :: "char \<Rightarrow> char" where
  "upper1 c = (if isLower c then chr (byte_of c - 32) else c)"

definition ToLower :: "unicode \<Rightarrow> string \<Rightarrow> string" where
  "ToLower u s = (if list_all ascii s then map lower1 s else uni_lower u s)"

definition ToUpper :: "unicode \<Rightarrow> string \<Rightarrow> string" where
  "ToUpper u s = (if list_all ascii s then map upper1 s else uni_upper u s)"

text \<open>
  \<open>strings.EqualFold\<close>: bytes are compared as long as both are ASCII; at the first byte that is
  not, the remaining strings go to the Unicode comparison.
\<close>

fun EqualFold :: "unicode \<Rightarrow> string \<Rightarrow> string \<Rightarrow> bool" where
  "EqualFold u (a # s) (b # t) =
     (if \<not> ascii a \<or> \<not> ascii b then uni_fold u (a # s) (b # t)
      else lower1 a = lower1 b \<and> EqualFold u s t)"
| "EqualFold u s t = (s = [] \<and> t = [])"

lemma EqualFold_ascii:
  "list_all ascii s \<Longrightarrow> list_all ascii t \<Longrightarrow> EqualFold u s t \<longleftrightarrow> map lower1 s = map lower1 t"
  by (induction u s t rule: EqualFold.induct) auto

end
