(* ===== verification/GoCrypto.thy ===== *)
theory GoCrypto
  imports GoStrings
begin

text \<open>
  The hash functions and encodings of Go's library the program relies on, defined from their
  standards so that every property below is about the real functions: SHA-256 (FIPS 180-4),
  HMAC (RFC 2104), MD5 (RFC 1321), lower-case hexadecimal, unpadded base64url and standard base64
  (RFC 4648).
\<close>

unbundle bit_operations_syntax

type_synonym u32 = "32 word"
type_synonym u64 = "64 word"

subsection \<open>Words and bytes\<close>

definition be_word :: "string \<Rightarrow> u32" where
  "be_word bs = foldl (\<lambda>w c. push_bit 8 w OR of_nat (byte_of c)) 0 bs"

definition le_word :: "string \<Rightarrow> u32" where
  "le_word bs = be_word (rev bs)"

definition le_bytes :: "nat \<Rightarrow> nat \<Rightarrow> string" where
  "le_bytes k n = map (\<lambda>i. chr ((n div 256 ^ i) mod 256)) [0..<k]"

definition be_bytes :: "nat \<Rightarrow> nat \<Rightarrow> string" where
  "be_bytes k n = rev (le_bytes k n)"

lemma length_le_bytes [simp]: "length (le_bytes k n) = k"
  by (simp add: le_bytes_def)

lemma length_be_bytes [simp]: "length (be_bytes k n) = k"
  by (simp add: be_bytes_def)

fun chunks :: "nat \<Rightarrow> nat \<Rightarrow> string \<Rightarrow> string list" where
  "chunks w 0 bs = []"
| "chunks w (Suc n) bs = take w bs # chunks w n (drop w bs)"

text \<open>The message, a one bit, zeros, and the length in bits, up to a multiple of 64 bytes.\<close>

definition md_pad :: "(nat \<Rightarrow> string) \<Rightarrow> string \<Rightarrow> string" where
  "md_pad len8 m =
     m @ [chr 128] @ replicate ((119 - length m mod 64) mod 64) (chr 0) @ len8 (8 * length m)"

definition blocks64 :: "string \<Rightarrow> string list" where
  "blocks64 bs = chunks 64 (length bs div 64) bs"

subsection \<open>SHA-256\<close>

definition sha_K :: "u32 list" where
  "sha_K = [
     1116352408, 1899447441, 3049323471, 3921009573, 961987163, 1508970993, 2453635748, 2870763221,
     3624381080, 310598401, 607225278, 1426881987, 1925078388, 2162078206, 2614888103, 3248222580,
     3835390401, 4022224774, 264347078, 604807628, 770255983, 1249150122, 1555081692, 1996064986,
     2554220882, 2821834349, 2952996808, 3210313671, 3336571891, 3584528711, 113926993, 338241895,
     666307205, 773529912, 1294757372, 1396182291, 1695183700, 1986661051, 2177026350, 2456956037,
     2730485921, 2820302411, 3259730800, 3345764771, 3516065817, 3600352804, 4094571909, 275423344,
     430227734, 506948616, 659060556, 883997877, 958139571, 1322822218, 1537002063, 1747873779,
     1955562222, 2024104815, 2227730452, 2361852424, 2428436474, 2756734187, 3204031479, 3329325298]"

definition sha_H0 :: "u32 list" where
  "sha_H0 = [
     1779033703, 3144134277, 1013904242, 2773480762, 1359893119, 2600822924, 528734635, 1541459225]"

definition rotr :: "nat \<Rightarrow> u32 \<Rightarrow> u32" where
  "rotr n x = drop_bit n x OR push_bit (32 - n) x"

definition sha_ch :: "u32 \<Rightarrow> u32 \<Rightarrow> u32 \<Rightarrow> u32" where
  "sha_ch x y z = (x AND y) XOR (NOT x AND z)"

definition sha_maj :: "u32 \<Rightarrow> u32 \<Rightarrow> u32 \<Rightarrow> u32" where
  "sha_maj x y z = (x AND y) XOR (x AND z) XOR (y AND z)"

text \<open>The message schedule, most recent word first.\<close>

fun sha_sched :: "nat \<Rightarrow> u32 list \<Rightarrow> u32 list" where
  "sha_sched 0 ws = ws"
| "sha_sched (Suc n) ws =
     (let a = ws ! 14; b = ws ! 1;
          s0 = rotr 7 a XOR rotr 18 a XOR drop_bit 3 a;
          s1 = rotr 17 b XOR rotr 19 b XOR drop_bit 10 b
      in sha_sched n ((s1 + ws ! 6 + s0 + ws ! 15) # ws))"

fun sha_round :: "u32 list \<Rightarrow> u32 \<times> u32 \<Rightarrow> u32 list" where
  "sha_round [a, b, c, d, e, f, g, h] (k, w) =
     (let t1 = h + (rotr 6 e XOR rotr 11 e XOR rotr 25 e) + sha_ch e f g + k + w;
          t2 = (rotr 2 a XOR rotr 13 a XOR rotr 22 a) + sha_maj a b c
      in [t1 + t2, a, b, c, d + t1, e, f, g])"
| "sha_round vs kw = vs"

definition sha_block :: "u32 list \<Rightarrow> string \<Rightarrow> u32 list" where
  "sha_block hs blk =
     (let w16 = map be_word (chunks 4 16 blk);
          ws = rev (sha_sched 48 (rev w16))
      in map2 (+) hs (foldl sha_round hs (zip sha_K ws)))"

definition sha256 :: "string \<Rightarrow> string" where
  "sha256 m = concat (map (\<lambda>w. be_bytes 4 (unat w))
     (foldl sha_block sha_H0 (blocks64 (md_pad (be_bytes 8) m))))"

subsection \<open>HMAC-SHA256\<close>

definition xor_byte :: "nat \<Rightarrow> char \<Rightarrow> char" where
  "xor_byte k c = chr (k XOR byte_of c)"

definition hmac_key :: "string \<Rightarrow> string" where
  "hmac_key key =
     (let k = (if length key > 64 then sha256 key else key)
      in k @ replicate (64 - length k) (chr 0))"

definition hmac_sha256 :: "string \<Rightarrow> string \<Rightarrow> string" where
  "hmac_sha256 key m =
     sha256 (map (xor_byte 0x5c) (hmac_key key) @
             sha256 (map (xor_byte 0x36) (hmac_key key) @ m))"

subsection \<open>MD5\<close>

definition md5_T :: "u32 list" where
  "md5_T = [
     0xd76aa478, 0xe8c7b756, 0x242070db, 0xc1bdceee, 0xf57c0faf, 0x4787c62a, 0xa8304613, 0xfd469501,
     0x698098d8, 0x8b44f7af, 0xffff5bb1, 0x895cd7be, 0x6b901122, 0xfd987193, 0xa679438e, 0x49b40821,
     0xf61e2562, 0xc040b340, 0x265e5a51, 0xe9b6c7aa, 0xd62f105d, 0x02441453, 0xd8a1e681, 0xe7d3fbc8,
     0x21e1cde6, 0xc33707d6, 0xf4d50d87, 0x455a14ed, 0xa9e3e905, 0xfcefa3f8, 0x676f02d9, 0x8d2a4c8a,
     0xfffa3942, 0x8771f681, 0x6d9d6122, 0xfde5380c, 0xa4beea44, 0x4bdecfa9, 0xf6bb4b60, 0xbebfbc70,
     0x289b7ec6, 0xeaa127fa, 0xd4ef3085, 0x04881d05, 0xd9d4d039, 0xe6db99e5, 0x1fa27cf8, 0xc4ac5665,
     0xf4292244, 0x432aff97, 0xab9423a7, 0xfc93a039, 0x655b59c3, 0x8f0ccc92, 0xffeff47d, 0x85845dd1,
     0x6fa87e4f, 0xfe2ce6e0, 0xa3014314, 0x4e0811a1, 0xf7537e82, 0xbd3af235, 0x2ad7d2bb, 0xeb86d391]"

definition md5_shift :: "nat \<Rightarrow> nat" where
  "md5_shift i =
     (if i < 16 then [7, 12, 17, 22] else if i < 32 then [5, 9, 14, 20]
      else if i < 48 then [4, 11, 16, 23] else [6, 10, 15, 21]) ! (i mod 4)"

definition rotl32 :: "nat \<Rightarrow> u32 \<Rightarrow> u32" where
  "rotl32 n x = push_bit n x OR drop_bit (32 - n) x"

fun md5_step :: "u32 list \<Rightarrow> u32 \<times> u32 \<times> u32 \<times> u32 \<Rightarrow> nat \<Rightarrow> u32 \<times> u32 \<times> u32 \<times> u32" where
  "md5_step ws (a, b, c, d) i =
     (let (f, g) =
        (if i < 16 then ((b AND c) OR (NOT b AND d), i)
         else if i < 32 then ((d AND b) OR (NOT d AND c), (5 * i + 1) mod 16)
         else if i < 48 then (b XOR c XOR d, (3 * i + 5) mod 16)
         else (c XOR (b OR NOT d), (7 * i) mod 16))
      in (d, b + rotl32 (md5_shift i) (a + f + md5_T ! i + ws ! g), b, c))"

fun md5_block :: "u32 \<times> u32 \<times> u32 \<times> u32 \<Rightarrow> string \<Rightarrow> u32 \<times> u32 \<times> u32 \<times> u32" where
  "md5_block (a, b, c, d) blk =
     (let (a', b', c', d') = foldl (md5_step (map le_word (chunks 4 16 blk))) (a, b, c, d) [0..<64]
      in (a + a', b + b', c + c', d + d'))"

definition md5 :: "string \<Rightarrow> string" where
  "md5 m =
     (let (a, b, c, d) = foldl md5_block (0x67452301, 0xefcdab89, 0x98badcfe, 0x10325476)
            (blocks64 (md_pad (le_bytes 8) m))
      in concat (map (\<lambda>w. le_bytes 4 (unat w)) [a, b, c, d]))"

subsection \<open>Hexadecimal and base64\<close>

definition hex_char :: "nat \<Rightarrow> char" where
  "hex_char d = chr (if d < 10 then 48 + d else 87 + d)"

definition hex_encode :: "string \<Rightarrow> string" where
  "hex_encode bs = concat (map (\<lambda>c. [hex_char (byte_of c div 16), hex_char (byte_of c mod 16)]) bs)"

definition b64_char :: "nat \<Rightarrow> char" where
  "b64_char d =
     (if d < 26 then chr (65 + d) else if d < 52 then chr (71 + d)
      else if d < 62 then chr (d - 4) else if d = 62 then CHR ''-'' else CHR ''_'')"

text \<open>\<open>base64.RawURLEncoding\<close>: three bytes to four characters, no padding.\<close>

fun b64url :: "string \<Rightarrow> string" where
  "b64url (a # b # c # r) =
     (let n = byte_of a * 65536 + byte_of b * 256 + byte_of c
      in [b64_char (n div 262144), b64_char (n div 4096 mod 64), b64_char (n div 64 mod 64),
          b64_char (n mod 64)] @ b64url r)"
| "b64url [a, b] =
     (let n = byte_of a * 65536 + byte_of b * 256
      in [b64_char (n div 262144), b64_char (n div 4096 mod 64), b64_char (n div 64 mod 64)])"
| "b64url [a] =
     (let n = byte_of a * 65536
      in [b64_char (n div 262144), b64_char (n div 4096 mod 64)])"
| "b64url [] = []"

subsection \<open>Lengths and alphabets\<close>

lemma length_sha_round: "length (sha_round vs kw) = length vs"
  by (cases "(vs, kw)" rule: sha_round.cases) (auto simp: Let_def)

lemma length_foldl_sha_round: "length (foldl sha_round vs kws) = length vs"
  by (induction kws arbitrary: vs) (simp_all add: length_sha_round)

lemma length_sha_block: "length hs = 8 \<Longrightarrow> length (sha_block hs blk) = 8"
  by (simp add: sha_block_def Let_def length_foldl_sha_round)

lemma length_foldl_sha_block: "length hs = 8 \<Longrightarrow> length (foldl sha_block hs bs) = 8"
  by (induction bs arbitrary: hs) (simp_all add: length_sha_block)

lemma length_concat_const: "(\<And>x. length (f x) = k) \<Longrightarrow> length (concat (map f xs)) = length xs * k"
  by (induction xs) auto

lemma length_sha256 [simp]: "length (sha256 m) = 32"
proof -
  have "length (foldl sha_block sha_H0 (blocks64 (md_pad (be_bytes 8) m))) = 8"
    by (rule length_foldl_sha_block) (simp add: sha_H0_def)
  then show ?thesis by (simp add: sha256_def length_concat_const)
qed

lemma length_hmac_sha256 [simp]: "length (hmac_sha256 k m) = 32"
  by (simp add: hmac_sha256_def)

lemma length_md5 [simp]: "length (md5 m) = 16"
  by (simp add: md5_def split: prod.splits)

lemma length_hex_encode [simp]: "length (hex_encode bs) = 2 * length bs"
  by (simp add: hex_encode_def length_concat_const)

definition hex_lower :: "char \<Rightarrow> bool" where
  "hex_lower c \<longleftrightarrow> byte_of c \<in> {48..57} \<union> {97..102}"

lemma hex_char_lower: "d < 16 \<Longrightarrow> hex_lower (hex_char d)"
  by (auto simp: hex_char_def hex_lower_def)

lemma byte_bound: "byte_of c < (256::nat)"
  by (cases c) (simp add: of_char_def)

lemma hex_encode_chars: "c \<in> set (hex_encode bs) \<Longrightarrow> hex_lower c"
  using byte_bound by (auto simp: hex_encode_def intro!: hex_char_lower less_mult_imp_div_less)

lemma hex_encode_Nil_iff [simp]: "hex_encode bs = [] \<longleftrightarrow> bs = []"
  by (simp add: hex_encode_def)

definition b64url_class :: "char \<Rightarrow> bool" where
  "b64url_class c \<longleftrightarrow> isAlnum c \<or> c = CHR ''-'' \<or> c = CHR ''_''"

lemma b64_char_class: "b64url_class (b64_char d)"
proof -
  have "isAlnum (chr (65 + d))" if "d < 26" using that by (auto simp: char_class_defs)
  moreover have "isAlnum (chr (71 + d))" if "26 \<le> d" "d < 52"
    using that by (auto simp: char_class_defs)
  moreover have "isAlnum (chr (d - 4))" if "52 \<le> d" "d < 62"
    using that by (auto simp: char_class_defs)
  ultimately show ?thesis by (auto simp: b64_char_def b64url_class_def)
qed

lemma b64url_chars: "c \<in> set (b64url bs) \<Longrightarrow> b64url_class c"
  by (induction bs rule: b64url.induct) (auto simp: b64_char_class Let_def)

lemma length_b64url: "length bs = 3 * k \<Longrightarrow> length (b64url bs) = 4 * k"
proof (induction bs arbitrary: k rule: b64url.induct)
  case (1 a b c r)
  then obtain j where "k = Suc j" by (cases k) auto
  with 1 show ?case by (simp add: Let_def)
qed (auto, presburger+)

subsection \<open>Standard base64\<close>

definition b64_val :: "char \<Rightarrow> nat option" where
  "b64_val c =
     (if isUpper c then Some (byte_of c - 65) else if isLower c then Some (byte_of c - 71)
      else if isDigit c then Some (byte_of c + 4)
      else if c = CHR ''+'' then Some 62 else if c = CHR ''/'' then Some 63 else None)"

definition b64_quantum :: "char list \<Rightarrow> nat option" where
  "b64_quantum cs =
     (if list_all (\<lambda>c. b64_val c \<noteq> None) cs
      then Some (foldl (\<lambda>n c. n * 64 + the (b64_val c)) 0 cs) else None)"

text \<open>Line ends are skipped; padding closes the text.\<close>

fun b64_groups :: "string \<Rightarrow> string option" where
  "b64_groups [] = Some []"
| "b64_groups (a # b # c # d # r) =
     (if r = [] \<and> d = CHR ''='' \<and> c = CHR ''='' then
        map_option (\<lambda>n. [chr (n div 16)]) (b64_quantum [a, b])
      else if r = [] \<and> d = CHR ''='' then
        map_option (\<lambda>n. [chr (n div 1024), chr (n div 4)]) (b64_quantum [a, b, c])
      else (case b64_quantum [a, b, c, d] of
              None \<Rightarrow> None
            | Some n \<Rightarrow>
                map_option ((@) [chr (n div 65536), chr (n div 256), chr n]) (b64_groups r)))"
| "b64_groups _ = None"

definition b64_DecodeString :: "string \<Rightarrow> string option" where
  "b64_DecodeString s = b64_groups (filter (\<lambda>c. byte_of c \<notin> {10, 13::nat}) s)"

end
