(* ===== verification/GoTime.thy ===== *)
theory GoTime
  imports GoStrings
begin

text \<open>
  Numbers and times of the Go library as the program uses them: \<^verbatim>\<open>strconv\<close> (parsing and
  formatting integers in a base), \<^verbatim>\<open>time.ParseDuration\<close> with its overflow checks and its
  \<open>float64\<close> rounding of fractions, and the points of time the cookies are stamped with.
  A \<open>time.Duration\<close> is an \<open>int64\<close> of nanoseconds; a \<open>time.Time\<close> is its distance in
  nanoseconds from the Unix epoch.
\<close>

subsection \<open>Digits\<close>

definition digit_val :: "char \<Rightarrow> nat option" where
  "digit_val c =
     (if isDigit c then Some (byte_of c - 48)
      else if isLower c then Some (byte_of c - 87)
      else if isUpper c then Some (byte_of c - 55)
      else None)"

definition digit_char :: "nat \<Rightarrow> char" where
  "digit_char d = chr (if d < 10 then 48 + d else 87 + d)"

fun digits_val :: "nat \<Rightarrow> nat \<Rightarrow> string \<Rightarrow> nat option" where
  "digits_val b acc [] = Some acc"
| "digits_val b acc (c # cs) =
     (case digit_val c of None \<Rightarrow> None
      | Some d \<Rightarrow> if d < b then digits_val b (acc * b + d) cs else None)"

text \<open>\<open>strconv.ParseUint(s, b, 64)\<close>.\<close>

definition ParseUint :: "string \<Rightarrow> nat \<Rightarrow> nat option" where
  "ParseUint s b =
     (if s = [] then None
      else (case digits_val b 0 s of None \<Rightarrow> None
            | Some n \<Rightarrow> if n < 2 ^ 64 then Some n else None))"

text \<open>\<open>strconv.ParseInt(s, b, 64)\<close>: an optional sign, digits, the range of \<open>int64\<close>.\<close>

definition ParseInt :: "string \<Rightarrow> nat \<Rightarrow> int option" where
  "ParseInt s b =
     (let neg = (case s of c # _ \<Rightarrow> c = CHR ''-'' | [] \<Rightarrow> False);
          ds = (case s of c # cs \<Rightarrow> if c = CHR ''-'' \<or> c = CHR ''+'' then cs else s | [] \<Rightarrow> s)
      in case ParseUint ds b of
           None \<Rightarrow> None
         | Some n \<Rightarrow>
             if neg then (if n \<le> 2 ^ 63 then Some (- int n) else None)
             else (if n < 2 ^ 63 then Some (int n) else None))"

definition Atoi :: "string \<Rightarrow> int option" where
  "Atoi s = ParseInt s 10"

lemma ParseInt_in64: "ParseInt s b = Some i \<Longrightarrow> in64 i"
  by (auto simp: ParseInt_def in64_def Let_def split: option.splits if_splits)

text \<open>\<open>strconv.FormatInt(i, b)\<close>, for a base of at least 2.\<close>

function nat_digits :: "nat \<Rightarrow> nat \<Rightarrow> string" where
  "nat_digits b n =
     (if n < b \<or> b < 2 then [digit_char n]
      else nat_digits b (n div b) @ [digit_char (n mod b)])"
  by pat_completeness auto
termination
  by (relation "measure snd") auto

declare nat_digits.simps [simp del]

definition FormatInt :: "int \<Rightarrow> nat \<Rightarrow> string" where
  "FormatInt i b =
     (if i < 0 then CHR ''-'' # nat_digits b (nat (- i)) else nat_digits b (nat i))"

lemma digit_char_val: "d < 36 \<Longrightarrow> digit_val (digit_char d) = Some d"
  by (auto simp: digit_val_def digit_char_def char_class_defs)

lemma digits_val_append:
  "digits_val b acc (xs @ ys) =
     (case digits_val b acc xs of None \<Rightarrow> None | Some n \<Rightarrow> digits_val b n ys)"
  by (induction b acc xs rule: digits_val.induct) (auto split: option.splits)

lemma digits_val_nat_digits:
  assumes "2 \<le> b" "b \<le> 36"
  shows "digits_val b 0 (nat_digits b n) = Some n"
proof (induction n rule: less_induct)
  case (less n)
  show ?case
  proof (cases "n < b")
    case True
    with assms show ?thesis
      by (simp add: nat_digits.simps [of b n] digit_char_val)
  next
    case False
    with assms have "n div b < n" by (simp add: div_less_dividend)
    then have "digits_val b 0 (nat_digits b (n div b)) = Some (n div b)" by (rule less)
    moreover have "n mod b < b" using assms by simp
    moreover have "n mod b < 36" using assms \<open>n mod b < b\<close> by linarith
    ultimately show ?thesis using False assms
      by (simp add: nat_digits.simps [of b n] digits_val_append digit_char_val)
  qed
qed

lemma nat_digits_nonempty [simp]: "nat_digits b n \<noteq> []"
  by (simp add: nat_digits.simps [of b n])

definition base36 :: "char \<Rightarrow> bool" where
  "base36 c \<longleftrightarrow> isDigit c \<or> isLower c"

lemma digit_char_base36: "d < 36 \<Longrightarrow> base36 (digit_char d)"
  by (auto simp: base36_def digit_char_def char_class_defs)

lemma nat_digits_base36:
  assumes "2 \<le> b" "b \<le> 36"
  shows "list_all base36 (nat_digits b n)"
proof (induction n rule: less_induct)
  case (less n)
  have "n mod b < 36"
    using assms mod_less_divisor [of b n] by linarith
  then show ?case
    using less [of "n div b"] assms
    by (cases "n < b") (simp_all add: nat_digits.simps [of b n] digit_char_base36 div_less_dividend)
qed

lemma nat_digits_length: "2 \<le> b \<Longrightarrow> n < b ^ k \<Longrightarrow> 0 < k \<Longrightarrow> length (nat_digits b n) \<le> k"
proof (induction k arbitrary: n)
  case 0
  then show ?case by simp
next
  case (Suc k)
  show ?case
  proof (cases "n < b")
    case True
    then show ?thesis by (simp add: nat_digits.simps [of b n])
  next
    case False
    with Suc.prems have "0 < k" by (cases k) auto
    have "n div b < b ^ k"
      using Suc.prems by (simp add: less_mult_imp_div_less mult.commute)
    with Suc \<open>0 < k\<close> have "length (nat_digits b (n div b)) \<le> k" by simp
    with False Suc.prems show ?thesis by (simp add: nat_digits.simps [of b n])
  qed
qed

lemma base36_not_sign: "base36 c \<Longrightarrow> c \<noteq> CHR ''-'' \<and> c \<noteq> CHR ''+''"
  by (auto simp: base36_def char_class_defs)

theorem ParseInt_FormatInt:
  assumes "in64 i" "2 \<le> b" "b \<le> 36"
  shows "ParseInt (FormatInt i b) b = Some i"
proof (cases "i < 0")
  case True
  then have "nat (- i) < 2 ^ 64" "nat (- i) \<le> 2 ^ 63"
    using assms(1) by (simp_all add: in64_def nat_le_iff nat_less_iff)
  with True show ?thesis
    by (simp add: ParseInt_def FormatInt_def ParseUint_def digits_val_nat_digits [OF assms(2,3)])
next
  case False
  obtain c cs where c: "nat_digits b (nat i) = c # cs"
    by (meson nat_digits_nonempty neq_Nil_conv)
  with nat_digits_base36 [OF assms(2,3), of "nat i"] have "base36 c" by simp
  moreover have "digits_val b 0 (c # cs) = Some (nat i)"
    using digits_val_nat_digits [OF assms(2,3), of "nat i"] c by simp
  moreover have "nat i < 2 ^ 64" "nat i < 2 ^ 63"
    using assms(1) False by (simp_all add: in64_def nat_less_iff)
  ultimately show ?thesis using False base36_not_sign [of c]
    by (simp add: ParseInt_def FormatInt_def ParseUint_def c del: digits_val.simps)
qed

lemma FormatInt_length36:
  assumes "in64 i"
  shows "length (FormatInt i 36) \<le> 14"
proof -
  have "length (nat_digits 36 (nat (- i))) \<le> 13" "length (nat_digits 36 (nat i)) \<le> 13"
    using assms by (auto intro!: nat_digits_length simp: in64_def nat_less_iff)
  then show ?thesis by (simp add: FormatInt_def)
qed

lemma FormatInt_chars:
  "2 \<le> b \<Longrightarrow> b \<le> 36 \<Longrightarrow> c \<in> set (FormatInt i b) \<Longrightarrow> base36 c \<or> c = CHR ''-''"
  using nat_digits_base36 [of b] by (auto simp: FormatInt_def list_all_iff split: if_splits)

subsection \<open>Rounding to \<open>float64\<close>\<close>

text \<open>
  A positive rational \<open>n / d\<close> rounded to 53 significant bits, ties to even, as another
  fraction; the values the program meets are far from the limits of the exponent.
\<close>

function scale_up :: "nat \<Rightarrow> nat \<Rightarrow> nat" where
  "scale_up n d = (if n = 0 \<or> d \<le> n then 0 else Suc (scale_up (2 * n) d))"
  by pat_completeness auto
termination
  by (relation "measure (\<lambda>(n, d). d - n)") auto

function log2 :: "nat \<Rightarrow> nat" where
  "log2 n = (if n < 2 then 0 else Suc (log2 (n div 2)))"
  by pat_completeness auto
termination
  by (relation "measure id") auto

declare scale_up.simps [simp del] log2.simps [simp del]

definition round_even :: "nat \<Rightarrow> nat \<Rightarrow> nat" where
  "round_even n d =
     (let q = n div d; r = n mod d
      in if 2 * r < d then q else if d < 2 * r then Suc q else if even q then q else Suc q)"

definition round53 :: "nat \<times> nat \<Rightarrow> nat \<times> nat" where
  "round53 = (\<lambda>(n, d).
     if n = 0 then (0, 1)
     else if d \<le> n then
       (let e = log2 (n div d)
        in if e \<le> 52 then (round_even (n * 2 ^ (52 - e)) d, 2 ^ (52 - e))
           else (round_even n (d * 2 ^ (e - 52)) * 2 ^ (e - 52), 1))
     else (let k = scale_up n d in (round_even (n * 2 ^ (52 + k)) d, 2 ^ (52 + k))))"

text \<open>\<open>uint64(float64(f) * (float64(unit) / scale))\<close> with \<open>scale = 10^k\<close>.\<close>

definition float_frac :: "nat \<Rightarrow> nat \<Rightarrow> nat \<Rightarrow> nat" where
  "float_frac f unit k =
     (let (fn, fd) = round53 (f, 1); (sn, sd) = round53 (10 ^ k, 1);
          (qn, qd) = round53 (unit * sd, sn); (pn, pd) = round53 (fn * qn, fd * qd)
      in pn div pd)"

subsection \<open>Durations\<close>

type_synonym duration = int

definition Second :: duration where "Second = 1000000000"
definition Millisecond :: duration where "Millisecond = 1000000"
definition Minute :: duration where "Minute = 60 * 1000000000"
definition Hour :: duration where "Hour = 3600 * 1000000000"

lemmas duration_defs = Second_def Millisecond_def Minute_def Hour_def

text \<open>
  \<open>leadingInt\<close>: the digits at the front as a number, or an error when it passes \<open>2^63\<close>.
\<close>

fun leadingInt :: "nat \<Rightarrow> string \<Rightarrow> (nat \<times> string) option" where
  "leadingInt x [] = Some (x, [])"
| "leadingInt x (c # cs) =
     (if \<not> isDigit c then Some (x, c # cs)
      else if x > 2 ^ 63 div 10 then None
      else (let y = x * 10 + (byte_of c - 48)
            in if y > 2 ^ 63 then None else leadingInt y cs))"

text \<open>\<open>leadingFraction\<close>: digits of the fraction, their number, and the rest.\<close>

fun leadingFraction :: "nat \<Rightarrow> nat \<Rightarrow> bool \<Rightarrow> string \<Rightarrow> nat \<times> nat \<times> string" where
  "leadingFraction x k over [] = (x, k, [])"
| "leadingFraction x k over (c # cs) =
     (if \<not> isDigit c then (x, k, c # cs)
      else if over \<or> x > (2 ^ 63 - 1) div 10 then leadingFraction x k True cs
      else (let y = x * 10 + (byte_of c - 48)
            in if y > 2 ^ 63 then leadingFraction x k True cs
               else leadingFraction y (Suc k) False cs))"

definition unitMap :: "nat gomap" where
  "unitMap = map_of
     [(''ns'', 1), (''us'', 1000), ([chr 194, chr 181, CHR ''s''], 1000),
      ([chr 206, chr 188, CHR ''s''], 1000), (''ms'', 1000000), (''s'', 1000000000),
      (''m'', 60000000000), (''h'', 3600000000000)]"

definition numeric :: "char \<Rightarrow> bool" where
  "numeric c \<longleftrightarrow> c = CHR ''.'' \<or> isDigit c"

text \<open>One \<open>number unit\<close> group: its nanoseconds and the rest of the text.\<close>

definition duration_group :: "string \<Rightarrow> (nat \<times> string) option" where
  "duration_group s =
     (if s = [] \<or> \<not> numeric (hd s) then None
      else case leadingInt 0 s of
        None \<Rightarrow> None
      | Some (v, s1) \<Rightarrow>
          (let pre = length s \<noteq> length s1;
               dot = s1 \<noteq> [] \<and> hd s1 = CHR ''.'';
               (f, k, s2) = (if dot then leadingFraction 0 0 False (tl s1) else (0, 0, s1));
               post = dot \<and> length (tl s1) \<noteq> length s2;
               u = takeWhile (\<lambda>c. \<not> numeric c) s2;
               s3 = dropWhile (\<lambda>c. \<not> numeric c) s2
           in if \<not> pre \<and> \<not> post then None
              else if u = [] then None
              else case unitMap u of
                None \<Rightarrow> None
              | Some unit \<Rightarrow>
                  if v > 2 ^ 63 div unit then None
                  else (let w = (if f > 0 then v * unit + float_frac f unit k else v * unit)
                        in if w > 2 ^ 63 then None else Some (w, s3))))"

lemma leadingInt_length: "leadingInt x s = Some (v, r) \<Longrightarrow> length r \<le> length s"
  by (induction x s rule: leadingInt.induct) (auto split: if_splits simp: Let_def)

lemma leadingFraction_length: "leadingFraction x k ov s = (f, k', r) \<Longrightarrow> length r \<le> length s"
  by (induction s arbitrary: x k ov) (auto simp: Let_def intro: le_SucI split: if_splits)

lemma dropWhile_shorter: "takeWhile P s \<noteq> [] \<Longrightarrow> length (dropWhile P s) < length s"
  by (cases s) (auto simp: length_dropWhile_le le_imp_less_Suc split: if_splits)

lemma duration_group_shorter:
  assumes "duration_group s = Some (w, r)"
  shows "length r < length s"
proof -
  from assms obtain v s1 f k s2 where 1: "leadingInt 0 s = Some (v, s1)"
    and 2: "(if s1 \<noteq> [] \<and> hd s1 = CHR ''.'' then leadingFraction 0 0 False (tl s1)
             else (0, 0, s1)) = (f, k, s2)"
    and u: "takeWhile (\<lambda>c. \<not> numeric c) s2 \<noteq> []"
    and r: "r = dropWhile (\<lambda>c. \<not> numeric c) s2"
    by (auto simp: duration_group_def Let_def split: if_splits option.splits prod.splits)
  have "length s2 \<le> length s1"
    using 2 leadingFraction_length [of 0 0 False "tl s1" f k s2]
    by (cases s1) (auto split: if_splits)
  moreover have "length s1 \<le> length s" using 1 by (rule leadingInt_length)
  moreover have "length r < length s2" using dropWhile_shorter [OF u] r by simp
  ultimately show ?thesis by linarith
qed

function duration_groups :: "nat \<Rightarrow> string \<Rightarrow> nat option" where
  "duration_groups d s =
     (if s = [] then Some d
      else case duration_group s of
        None \<Rightarrow> None
      | Some (w, r) \<Rightarrow> if d + w > 2 ^ 63 then None else duration_groups (d + w) r)"
  by pat_completeness auto
termination
  by (relation "measure (\<lambda>(d, s). length s)") (auto simp: duration_group_shorter)

declare duration_groups.simps [simp del]

definition ParseDuration :: "string \<Rightarrow> duration option" where
  "ParseDuration s0 =
     (let neg = (s0 \<noteq> [] \<and> hd s0 = CHR ''-'');
          s = (if s0 \<noteq> [] \<and> (hd s0 = CHR ''-'' \<or> hd s0 = CHR ''+'') then tl s0 else s0)
      in if s = ''0'' then Some 0
         else if s = [] then None
         else case duration_groups 0 s of
           None \<Rightarrow> None
         | Some d \<Rightarrow>
             if neg then Some (- int d)
             else if d > 2 ^ 63 - 1 then None
             else Some (int d))"

lemma duration_groups_bound: "d \<le> 2 ^ 63 \<Longrightarrow> duration_groups d s = Some n \<Longrightarrow> n \<le> 2 ^ 63"
proof (induction d s rule: duration_groups.induct)
  case (1 d s)
  then show ?case
    by (auto simp: duration_groups.simps [of d s] split: if_splits option.splits)
qed

lemma ParseDuration_in64: "ParseDuration s = Some d \<Longrightarrow> in64 d"
  using duration_groups_bound [of 0]
  by (fastforce simp: ParseDuration_def Let_def in64_def split: if_splits option.splits)

subsection \<open>Points of time\<close>

type_synonym gotime = int

text \<open>
  \<open>time.Unix(secs, 0)\<close> counts seconds from the year 1 in an \<open>int64\<close>, so the sum wraps.
\<close>

definition unixToInternal :: int where "unixToInternal = 62135596800"

definition time_Unix :: "int \<Rightarrow> gotime" where
  "time_Unix secs = (wrap64 (secs + unixToInternal) - unixToInternal) * Second"

definition unix_of :: "gotime \<Rightarrow> int" where
  "unix_of t = t div Second"

text \<open>\<open>t.Sub(u)\<close> saturates at the range of a duration.\<close>

definition time_Sub :: "gotime \<Rightarrow> gotime \<Rightarrow> duration" where
  "time_Sub t u = max (- (2 ^ 63)) (min (2 ^ 63 - 1) (t - u))"

text \<open>The times a running process reads: their Unix second plus the offset fits an \<open>int64\<close>.\<close>

definition sane_time :: "gotime \<Rightarrow> bool" where
  "sane_time t \<longleftrightarrow> in64 (unix_of t) \<and> in64 (unix_of t + unixToInternal)"

lemma time_Unix_unix_of: "sane_time t \<Longrightarrow> time_Unix (unix_of t) = unix_of t * Second"
  by (simp add: time_Unix_def sane_time_def wrap64_id)

lemma unix_of_le: "unix_of t * Second \<le> t" and unix_of_gt: "t < unix_of t * Second + Second"
  unfolding unix_of_def Second_def by linarith+

end
