(* ===== verification/Netip.thy ===== *)
theory Netip
  imports GoCrypto GoTime
begin

text \<open>
  Addresses and prefixes of Go's package \<^verbatim>\<open>net/netip\<close>, as far as the mirror of lists uses them:
  parsing, masking, the unmapping of IPv4 addresses inside IPv6, and prefixes as keys of a map.
  A prefix whose length does not fit its address has the length \<open>-1\<close>, as in the library.
\<close>

unbundle bit_operations_syntax

type_synonym u128 = "128 word"

subsection \<open>Addresses\<close>

text \<open>The zero address is no address; an IPv6 address carries its zone.\<close>

datatype addr = Addr0 | V4 u32 | V6 u128 string

definition be_nat :: "string \<Rightarrow> nat" where
  "be_nat bs = foldl (\<lambda>n c. n * 256 + byte_of c) 0 bs"

definition AddrFrom4 :: "string \<Rightarrow> addr" where
  "AddrFrom4 bs = V4 (of_nat (be_nat bs))"

definition AddrFrom16 :: "string \<Rightarrow> addr" where
  "AddrFrom16 bs = V6 (of_nat (be_nat bs)) []"

fun Is4 :: "addr \<Rightarrow> bool" where
  "Is4 (V4 a) = True"
| "Is4 _ = False"

fun BitLen :: "addr \<Rightarrow> nat" where
  "BitLen Addr0 = 0"
| "BitLen (V4 a) = 32"
| "BitLen (V6 a z) = 128"

fun Unmap :: "addr \<Rightarrow> addr" where
  "Unmap (V6 a z) = (if drop_bit 32 a = 65535 then V4 (ucast a) else V6 a z)"
| "Unmap ip = ip"

fun withoutZone :: "addr \<Rightarrow> addr" where
  "withoutZone (V6 a z) = V6 a []"
| "withoutZone ip = ip"

fun zone_of :: "addr \<Rightarrow> string" where
  "zone_of (V6 a z) = z"
| "zone_of ip = []"

text \<open>The bytes of an address: \<open>As4\<close> of an IPv4 address, \<open>As16\<close> of the others.\<close>

fun addr_bytes :: "addr \<Rightarrow> string" where
  "addr_bytes Addr0 = replicate 16 (chr 0)"
| "addr_bytes (V4 a) = be_bytes 4 (unat a)"
| "addr_bytes (V6 a z) = be_bytes 16 (unat a)"

subsection \<open>Prefixes\<close>

datatype net = Net (net_ip: addr) (net_bits: int)

definition PrefixFrom :: "addr \<Rightarrow> int \<Rightarrow> net" where
  "PrefixFrom ip bits =
     Net (withoutZone ip) (if ip \<noteq> Addr0 \<and> 0 \<le> bits \<and> bits \<le> int (BitLen ip) then bits else - 1)"

text \<open>The address with all but its first \<open>bits\<close> bits cleared.\<close>

fun mask_addr :: "nat \<Rightarrow> addr \<Rightarrow> addr" where
  "mask_addr bits (V4 a) = V4 (a AND NOT (mask (32 - bits)))"
| "mask_addr bits (V6 a z) = V6 (a AND NOT (mask (128 - bits))) z"
| "mask_addr bits Addr0 = Addr0"

definition Masked :: "net \<Rightarrow> net" where
  "Masked p =
     (if net_bits p < 0 \<or> net_ip p = Addr0 \<or> net_bits p > int (BitLen (net_ip p)) then Net Addr0 (- 1)
      else PrefixFrom (mask_addr (nat (net_bits p)) (net_ip p)) (net_bits p))"

text \<open>What a prefix means: the addresses that share its first bits.\<close>

fun covers :: "net \<Rightarrow> addr \<Rightarrow> bool" where
  "covers (Net (V4 n) b) (V4 a) \<longleftrightarrow> 0 \<le> b \<and> b \<le> 32 \<and> drop_bit (32 - nat b) n = drop_bit (32 - nat b) a"
| "covers (Net (V6 n z) b) (V6 a z') \<longleftrightarrow>
     0 \<le> b \<and> b \<le> 128 \<and> drop_bit (128 - nat b) n = drop_bit (128 - nat b) a"
| "covers _ _ \<longleftrightarrow> False"

text \<open>Prefixes as a keeper of lists writes them: masked, without a zone, IPv4 as IPv4.\<close>

definition canonical :: "net \<Rightarrow> bool" where
  "canonical p \<longleftrightarrow> Masked p = p \<and> net_bits p \<ge> 0 \<and> Unmap (net_ip p) = net_ip p"

lemma net_bits_PrefixFrom [simp]:
  "net_bits (PrefixFrom ip b) = (if ip \<noteq> Addr0 \<and> 0 \<le> b \<and> b \<le> int (BitLen ip) then b else - 1)"
  and net_ip_PrefixFrom [simp]: "net_ip (PrefixFrom ip b) = withoutZone ip"
  by (simp_all add: PrefixFrom_def)

lemma withoutZone_simps [simp]:
  "BitLen (withoutZone ip) = BitLen ip" "Is4 (withoutZone ip) = Is4 ip"
  "(withoutZone ip = Addr0) = (ip = Addr0)" "withoutZone (withoutZone ip) = withoutZone ip"
  by (cases ip; simp)+

lemma mask_addr_simps [simp]:
  "BitLen (mask_addr b ip) = BitLen ip" "(mask_addr b ip = Addr0) = (ip = Addr0)"
  "mask_addr b (withoutZone ip) = withoutZone (mask_addr b ip)" "Is4 (mask_addr b ip) = Is4 ip"
  by (cases ip; simp)+

text \<open>Clearing the low bits keeps the high ones, and tells no more than they do.\<close>

lemma drop_bit_and_not_mask [simp]:
  fixes x :: "'a::len word"
  shows "drop_bit k (x AND NOT (mask k)) = drop_bit k x"
  by (rule bit_word_eqI) (auto simp: bit_simps dest: bit_imp_le_length)

lemma and_not_mask_eq_iff:
  fixes x y :: "'a::len word"
  shows "x AND NOT (mask k) = y AND NOT (mask k) \<longleftrightarrow> drop_bit k x = drop_bit k y"
proof
  assume "drop_bit k x = drop_bit k y"
  moreover have "z AND NOT (mask k) = push_bit k (drop_bit k z)" for z :: "'a word"
    by (rule bit_word_eqI) (auto simp: bit_simps)
  ultimately show "x AND NOT (mask k) = y AND NOT (mask k)" by simp
qed (metis drop_bit_and_not_mask)

lemma covers_masked:
  assumes "b \<le> BitLen ip" and "ip \<noteq> Addr0"
  shows "covers (Masked (PrefixFrom ip (int b))) ip"
proof -
  note [simp del] = drop_bit_and
  show ?thesis using assms by (cases ip) (auto simp: Masked_def PrefixFrom_def)
qed

lemma canonical_covers:
  assumes "canonical p" and "covers p ip"
  shows "p = Masked (PrefixFrom ip (net_bits p)) \<and> net_bits p \<le> int (BitLen ip)"
proof -
  obtain n b where p: "p = Net n b" by (cases p)
  from assms(1) p have m: "Masked (Net n b) = Net n b" by (simp add: canonical_def)
  show ?thesis
  proof (cases n)
    case (V4 w)
    with assms(2) p obtain a where ip: "ip = V4 a" by (cases ip) auto
    with assms(2) p V4 have "w AND NOT (mask (32 - nat b)) = a AND NOT (mask (32 - nat b))"
      by (simp add: and_not_mask_eq_iff)
    with m p V4 ip assms(2) show ?thesis by (simp add: Masked_def PrefixFrom_def)
  next
    case (V6 w z)
    with assms(2) p obtain a z' where ip: "ip = V6 a z'" by (cases ip) auto
    with assms(2) p V6 have "w AND NOT (mask (128 - nat b)) = a AND NOT (mask (128 - nat b))"
      by (simp add: and_not_mask_eq_iff)
    with m p V6 ip assms(2) show ?thesis by (simp add: Masked_def PrefixFrom_def)
  qed (use assms(2) p in simp)
qed

lemma Unmap_idem [simp]: "Unmap (Unmap ip) = Unmap ip"
  by (cases ip) auto

subsection \<open>Parsing\<close>

text \<open>
  The four fields of a dotted address: the previous character, the value and the number of digits
  of the current field, the fields so far.
\<close>

fun ipv4_fields :: "char option \<Rightarrow> nat \<Rightarrow> nat \<Rightarrow> string \<Rightarrow> string \<Rightarrow> string option" where
  "ipv4_fields prev v dig acc [] = (if length acc < 3 then None else Some (acc @ [chr v]))"
| "ipv4_fields prev v dig acc (c # cs) =
     (if isDigit c then
        if dig = 1 \<and> v = 0 then None
        else (let v' = v * 10 + (byte_of c - 48)
              in if v' > 255 then None else ipv4_fields (Some c) v' (Suc dig) acc cs)
      else if c = CHR ''.'' then
        if prev = None \<or> cs = [] \<or> prev = Some (CHR ''.'') then None
        else if length acc = 3 then None
        else ipv4_fields (Some c) 0 0 (acc @ [chr v]) cs
      else None)"

definition parseIPv4Fields :: "string \<Rightarrow> string option" where
  "parseIPv4Fields s = ipv4_fields None 0 0 [] s"

definition isHex :: "char \<Rightarrow> bool" where
  "isHex c \<longleftrightarrow> isDigit c \<or> byte_of c \<in> {65..70} \<or> byte_of c \<in> {97..102}"

definition hex_digit :: "char \<Rightarrow> nat" where
  "hex_digit c = (if isDigit c then byte_of c - 48
     else if byte_of c \<in> {97..102} then byte_of c - 87 else byte_of c - 55)"

text \<open>
  The loop over the groups of an IPv6 address, with the number of groups still to come, the bytes
  so far and the place of the \<open>::\<close>.
\<close>

fun ipv6_groups :: "nat \<Rightarrow> string \<Rightarrow> nat option \<Rightarrow> string \<Rightarrow> (string \<times> nat option) option" where
  "ipv6_groups 0 ip el s = (if s \<noteq> [] then None else Some (ip, el))"
| "ipv6_groups (Suc k) ip el s =
     (let h = takeWhile isHex s; r = dropWhile isHex s; n = foldl (\<lambda>a c. a * 16 + hex_digit c) 0 h
      in if length h > 4 \<or> h = [] then None
         else if r \<noteq> [] \<and> hd r = CHR ''.'' then
           if el = None \<and> length ip \<noteq> 12 then None
           else if length ip + 4 > 16 then None
           else map_option (\<lambda>f. (ip @ f, el)) (parseIPv4Fields s)
         else (let ip' = ip @ [chr (n div 256), chr (n mod 256)]
               in case r of
                    [] \<Rightarrow> Some (ip', el)
                  | [c] \<Rightarrow> None
                  | c # d # r' \<Rightarrow>
                      if c \<noteq> CHR '':'' then None
                      else if d \<noteq> CHR '':'' then ipv6_groups k ip' el (d # r')
                      else if el \<noteq> None then None
                      else if r' = [] then Some (ip', Some (length ip'))
                      else ipv6_groups k ip' (Some (length ip')) r'))"

definition expand_ellipsis :: "string \<times> nat option \<Rightarrow> string option" where
  "expand_ellipsis g =
     (case g of (ip, el) \<Rightarrow>
        if length ip < 16 then
          map_option (\<lambda>e. take e ip @ replicate (16 - length ip) (chr 0) @ drop e ip) el
        else if el \<noteq> None then None else Some ip)"

definition ipv6_bytes :: "string \<Rightarrow> string option" where
  "ipv6_bytes s =
     (if HasPrefix s ''::'' then
        if drop 2 s = [] then Some (replicate 16 (chr 0))
        else Option.bind (ipv6_groups 8 [] (Some 0) (drop 2 s)) expand_ellipsis
      else Option.bind (ipv6_groups 8 [] None s) expand_ellipsis)"

definition parseIPv6 :: "string \<Rightarrow> addr option" where
  "parseIPv6 s =
     (case Cut s (CHR ''%'') of (a, zone, found) \<Rightarrow>
        if found \<and> zone = [] then None
        else map_option (\<lambda>bs. V6 (of_nat (be_nat bs)) zone) (ipv6_bytes a))"

definition ParseAddr :: "string \<Rightarrow> addr option" where
  "ParseAddr s =
     (case dropWhile (\<lambda>c. c \<notin> {CHR ''.'', CHR '':'', CHR ''%''}) s of
        [] \<Rightarrow> None
      | c # r \<Rightarrow> if c = CHR ''.'' then map_option AddrFrom4 (parseIPv4Fields s)
                 else if c = CHR '':'' then parseIPv6 s else None)"

definition ParsePrefix :: "string \<Rightarrow> net option" where
  "ParsePrefix s =
     (case LastIndexByte s (CHR ''/'') of
        None \<Rightarrow> None
      | Some i \<Rightarrow>
          (case ParseAddr (take i s) of
             None \<Rightarrow> None
           | Some ip \<Rightarrow>
               if zone_of ip \<noteq> [] then None
               else (let bs = drop (Suc i) s
                     in if length bs > 1 \<and> \<not> (isDigit (hd bs) \<and> hd bs \<noteq> CHR ''0'') then None
                        else case Atoi bs of
                          None \<Rightarrow> None
                        | Some b \<Rightarrow> if b < 0 \<or> b > int (BitLen ip) then None
                                    else Some (PrefixFrom ip b))))"

lemma ParseAddr_valid: "ParseAddr s = Some ip \<Longrightarrow> ip \<noteq> Addr0"
  by (auto simp: ParseAddr_def AddrFrom4_def parseIPv6_def split: list.splits if_splits prod.splits)

end
