(* ===== verification/SipHash.thy ===== *)
theory SipHash
  imports GoCrypto
begin

text \<open>
  The keyed hash of list entries (\<^verbatim>\<open>internal/livelist/siphash.go\<close>): SipHash-2-4 on 64-bit
  words, the state of four words passed through every round, and little-endian reads of bytes.
\<close>

unbundle bit_operations_syntax

subsection \<open>Little-endian integers\<close>

fun le_nat :: "string \<Rightarrow> nat" where
  "le_nat [] = 0"
| "le_nat (c # cs) = byte_of c + 256 * le_nat cs"

lemma byte_less [simp]: "byte_of c < (256 :: nat)"
  using of_char_mod_256 [of c, where 'a = nat] by (metis mod_less_divisor zero_less_numeral)

lemma le_nat_less: "le_nat bs < 256 ^ length bs"
proof (induction bs)
  case (Cons c cs)
  have "x + 256 * y < 256 * p" if "x < 256" "y < p" for x y p :: nat using that by linarith
  from this [OF byte_less Cons.IH] show ?case by simp
qed simp

lemma le_bytes_Suc: "le_bytes (Suc k) n = chr (n mod 256) # le_bytes k (n div 256)"
proof (rule nth_equalityI)
  fix i assume "i < length (le_bytes (Suc k) n)"
  then show "le_bytes (Suc k) n ! i = (chr (n mod 256) # le_bytes k (n div 256)) ! i"
    by (cases i) (simp_all add: le_bytes_def div_mult2_eq del: upt_Suc)
qed simp

text \<open>Writing a number and reading it back.\<close>

lemma le_nat_le_bytes: "n < 256 ^ k \<Longrightarrow> le_nat (le_bytes k n) = n"
proof (induction k arbitrary: n)
  case (Suc k)
  then have "n div 256 < 256 ^ k" by (simp add: less_mult_imp_div_less mult.commute)
  with Suc.IH [of "n div 256"] show ?case by (simp add: le_bytes_Suc)
qed (simp add: le_bytes_def)

definition le_Uint64 :: "string \<Rightarrow> u64" where
  "le_Uint64 bs = of_nat (le_nat (take 8 bs))"

definition le_Uint32 :: "string \<Rightarrow> nat" where
  "le_Uint32 bs = le_nat (take 4 bs)"

definition le_Uint16 :: "string \<Rightarrow> nat" where
  "le_Uint16 bs = le_nat (take 2 bs)"

lemma le_Uint64_bytes [simp]: "le_Uint64 (le_bytes 8 (unat (w :: u64)) @ rest) = w"
proof -
  have "unat w < 256 ^ 8" using unsigned_less [of w, where 'a = nat] by simp
  then show ?thesis by (simp add: le_Uint64_def le_nat_le_bytes)
qed

lemma le_Uint32_bytes [simp]: "n < 2 ^ 32 \<Longrightarrow> le_Uint32 (le_bytes 4 n @ rest) = n"
  by (simp add: le_Uint32_def le_nat_le_bytes)

lemma le_Uint16_bytes [simp]: "n < 2 ^ 16 \<Longrightarrow> le_Uint16 (le_bytes 2 n @ rest) = n"
  by (simp add: le_Uint16_def le_nat_le_bytes)

subsection \<open>The hash\<close>

text \<open>A key is 16 bytes.\<close>

type_synonym key = string

definition rotl :: "u64 \<Rightarrow> nat \<Rightarrow> u64" where
  "rotl x b = push_bit b x OR drop_bit (64 - b) x"

type_synonym sip_state = "u64 \<times> u64 \<times> u64 \<times> u64"

definition sipRound :: "sip_state \<Rightarrow> sip_state" where
  "sipRound v =
     (case v of (a0, b0, c0, d0) \<Rightarrow>
        let a = a0 + b0; b = rotl b0 13 XOR a; a = rotl a 32;
            c = c0 + d0; d = rotl d0 16 XOR c;
            a = a + d; d = rotl d 21 XOR a;
            c = c + b; b = rotl b 17 XOR c; c = rotl c 32
        in (a, b, c, d))"

text \<open>One word of the message.\<close>

definition sip_word :: "sip_state \<Rightarrow> u64 \<Rightarrow> sip_state" where
  "sip_word v m =
     (case v of (a, b, c, d) \<Rightarrow>
        case sipRound (sipRound (a, b, c, d XOR m)) of (a', b', c', d') \<Rightarrow> (a' XOR m, b', c', d'))"

definition sip_last :: "string \<Rightarrow> u64" where
  "sip_last b = push_bit 56 (of_nat (length b)) OR
     of_nat (le_nat (drop (length b - length b mod 8) b))"

definition SipHashBytes :: "key \<Rightarrow> string \<Rightarrow> u64" where
  "SipHashBytes k b =
     (let k0 = le_Uint64 (take 8 k); k1 = le_Uint64 (drop 8 k);
          v = (k0 XOR 0x736f6d6570736575, k1 XOR 0x646f72616e646f6d,
               k0 XOR 0x6c7967656e657261, k1 XOR 0x7465646279746573);
          v = foldl sip_word v (map le_Uint64 (chunks 8 (length b div 8) b))
      in case sip_word v (sip_last b) of (a, b', c, d) \<Rightarrow>
           case (sipRound ^^ 4) (a, b', c XOR 0xff, d) of (a, b', c, d) \<Rightarrow> a XOR b' XOR c XOR d)"

text \<open>The hash of a string value is the hash of its bytes.\<close>

abbreviation SipHash :: "key \<Rightarrow> string \<Rightarrow> u64" where
  "SipHash \<equiv> SipHashBytes"

end
