(* ===== verification/Wafs.thy ===== *)
theory Wafs
  imports Netip SipHash
begin

text \<open>
  The binary objects a mirror of lists reads (\<^verbatim>\<open>internal/livelist/wafs.go\<close>): the header and the
  records of a snapshot or a package.  Reading is on the bytes that are left, so a position of the
  code is the number of bytes taken off.  The writer of these objects is another program; \<open>pack\<close>
  states the format it writes, and reading it back is the round trip.
\<close>

subsection \<open>Data\<close>

abbreviation (input) packVersion :: nat where "packVersion \<equiv> 1"
abbreviation (input) kindSnapshot :: nat where "kindSnapshot \<equiv> 1"
abbreviation (input) kindPackage :: nat where "kindPackage \<equiv> 2"
abbreviation (input) typeCIDR :: nat where "typeCIDR \<equiv> 1"
abbreviation (input) typeString :: nat where "typeString \<equiv> 2"
abbreviation (input) flagReasons :: nat where "flagReasons \<equiv> 1"
abbreviation (input) recAdd :: nat where "recAdd \<equiv> 1"
abbreviation (input) recRemove :: nat where "recRemove \<equiv> 2"
abbreviation (input) packHeader :: nat where "packHeader \<equiv> 52"
abbreviation (input) packMagic :: string where "packMagic \<equiv> ''WAFS''"

datatype pack_err = ErrPackMagic | ErrPackVersion | ErrPackShort | ErrFamily nat | ErrSetType nat

record pack_head =
  ph_kind :: nat
  ph_typ :: nat
  ph_flags :: nat
  ph_epoch :: u64
  ph_seq :: u64
  ph_hash :: u64
  ph_key :: key
  ph_count :: nat

record pack_record =
  pr_op :: nat
  pr_prefix :: net
  pr_value :: string
  pr_exp :: int
  pr_reason :: string

text \<open>The zero prefix of a record that has none.\<close>

definition no_net :: net where
  "no_net = Net Addr0 (- 1)"

definition prefixMaterial :: "net \<Rightarrow> string" where
  "prefixMaterial p =
     [chr (if Is4 (net_ip p) then 4 else 6), chr (nat (net_bits p mod 256))] @ addr_bytes (net_ip p)"

subsection \<open>Reading\<close>

definition unpack_prefix :: "string \<Rightarrow> pack_err + net \<times> string" where
  "unpack_prefix r =
     (if length r < 2 then Inl ErrPackShort
      else (let fam = byte_of (r ! 0); bits = int (byte_of (r ! 1)); r = drop 2 r
            in if fam = 4 then
                 if length r < 4 + 8 then Inl ErrPackShort
                 else Inr (PrefixFrom (AddrFrom4 (take 4 r)) bits, drop 4 r)
               else if fam = 6 then
                 if length r < 16 + 8 then Inl ErrPackShort
                 else Inr (PrefixFrom (AddrFrom16 (take 16 r)) bits, drop 16 r)
               else Inl (ErrFamily fam)))"

definition unpack_value :: "string \<Rightarrow> pack_err + string \<times> string" where
  "unpack_value r =
     (if length r < 2 then Inl ErrPackShort
      else (let n = le_Uint16 r; r = drop 2 r
            in if length r < n + 8 then Inl ErrPackShort else Inr (take n r, drop n r)))"

definition unpack_reason :: "nat \<Rightarrow> nat \<Rightarrow> string \<Rightarrow> pack_err + string \<times> string" where
  "unpack_reason typ flags r =
     (if typ = typeString \<and> odd flags then
        if length r < 2 then Inl ErrPackShort
        else (let n = le_Uint16 r; r = drop 2 r
              in if length r < n then Inl ErrPackShort else Inr (take n r, drop n r))
      else Inr ([], r))"

definition unpack_record :: "nat \<Rightarrow> nat \<Rightarrow> string \<Rightarrow> pack_err + pack_record \<times> string" where
  "unpack_record typ flags d =
     (case d of
        [] \<Rightarrow> Inl ErrPackShort
      | c # r \<Rightarrow>
          (case (if typ = typeCIDR then
                   (case unpack_prefix r of Inl e \<Rightarrow> Inl e | Inr (p, r) \<Rightarrow> Inr (p, [], r))
                 else if typ = typeString then
                   (case unpack_value r of Inl e \<Rightarrow> Inl e | Inr (v, r) \<Rightarrow> Inr (no_net, v, r))
                 else Inl (ErrSetType typ)) of
             Inl e \<Rightarrow> Inl e
           | Inr (p, v, r) \<Rightarrow>
               (case unpack_reason typ flags (drop 8 r) of
                  Inl e \<Rightarrow> Inl e
                | Inr (why, r') \<Rightarrow>
                    Inr (\<lparr>pr_op = byte_of c, pr_prefix = p, pr_value = v,
                          pr_exp = sint (le_Uint64 r), pr_reason = why\<rparr>, r'))))"

fun unpack_records :: "nat \<Rightarrow> nat \<Rightarrow> nat \<Rightarrow> string \<Rightarrow> pack_err + pack_record list" where
  "unpack_records typ flags 0 d = Inr []"
| "unpack_records typ flags (Suc n) d =
     (case unpack_record typ flags d of
        Inl e \<Rightarrow> Inl e
      | Inr (r, d') \<Rightarrow>
          (case unpack_records typ flags n d' of Inl e \<Rightarrow> Inl e | Inr rs \<Rightarrow> Inr (r # rs)))"

definition unpack_head :: "string \<Rightarrow> pack_head" where
  "unpack_head d =
     \<lparr>ph_kind = byte_of (d ! 5), ph_typ = byte_of (d ! 6), ph_flags = byte_of (d ! 7),
      ph_epoch = le_Uint64 (drop 8 d), ph_seq = le_Uint64 (drop 16 d), ph_hash = le_Uint64 (drop 24 d),
      ph_key = take 16 (drop 32 d), ph_count = le_Uint32 (drop 48 d)\<rparr>"

definition unpack :: "string \<Rightarrow> pack_err + pack_head \<times> pack_record list" where
  "unpack d =
     (if length d < packHeader then Inl ErrPackShort
      else if take 4 d \<noteq> packMagic then Inl ErrPackMagic
      else if byte_of (d ! 4) \<noteq> packVersion then Inl ErrPackVersion
      else (let h = unpack_head d
            in case unpack_records (ph_typ h) (ph_flags h) (ph_count h) (drop packHeader d) of
                 Inl e \<Rightarrow> Inl e
               | Inr rs \<Rightarrow> Inr (h, rs)))"

subsection \<open>The format\<close>

definition pack_int64 :: "int \<Rightarrow> string" where
  "pack_int64 x = le_bytes 8 (unat (of_int x :: u64))"

definition pack_text :: "string \<Rightarrow> string" where
  "pack_text s = le_bytes 2 (length s) @ s"

definition pack_record_bytes :: "nat \<Rightarrow> nat \<Rightarrow> pack_record \<Rightarrow> string" where
  "pack_record_bytes typ flags r =
     [chr (pr_op r)] @
     (if typ = typeCIDR then prefixMaterial (pr_prefix r) else pack_text (pr_value r)) @
     pack_int64 (pr_exp r) @
     (if typ = typeString \<and> odd flags then pack_text (pr_reason r) else [])"

definition pack :: "pack_head \<Rightarrow> pack_record list \<Rightarrow> string" where
  "pack h rs =
     packMagic @ [chr packVersion, chr (ph_kind h), chr (ph_typ h), chr (ph_flags h)] @
     le_bytes 8 (unat (ph_epoch h)) @ le_bytes 8 (unat (ph_seq h)) @ le_bytes 8 (unat (ph_hash h)) @
     ph_key h @ le_bytes 4 (ph_count h) @
     concat (map (pack_record_bytes (ph_typ h) (ph_flags h)) rs)"

text \<open>Records and headers the format can carry.\<close>

definition net_ok :: "net \<Rightarrow> bool" where
  "net_ok p \<longleftrightarrow> net_ip p \<noteq> Addr0 \<and> withoutZone (net_ip p) = net_ip p \<and>
     0 \<le> net_bits p \<and> net_bits p \<le> int (BitLen (net_ip p))"

definition record_ok :: "nat \<Rightarrow> nat \<Rightarrow> pack_record \<Rightarrow> bool" where
  "record_ok typ flags r \<longleftrightarrow> pr_op r < 256 \<and> in64 (pr_exp r) \<and>
     (if typ = typeCIDR then net_ok (pr_prefix r) \<and> pr_value r = [] \<and> pr_reason r = []
      else pr_prefix r = no_net \<and> length (pr_value r) < 2 ^ 16 \<and> length (pr_reason r) < 2 ^ 16 \<and>
           (even flags \<longrightarrow> pr_reason r = []))"

definition head_ok :: "pack_head \<Rightarrow> bool" where
  "head_ok h \<longleftrightarrow> ph_kind h < 256 \<and> ph_typ h \<in> {typeCIDR, typeString} \<and> ph_flags h < 256 \<and>
     length (ph_key h) = 16 \<and> ph_count h < 2 ^ 32"

subsection \<open>The round trip\<close>

lemma be_nat_eq: "be_nat bs = le_nat (rev bs)"
proof -
  have "foldl (\<lambda>n c. n * 256 + byte_of c) a bs = le_nat (rev bs) + a * 256 ^ length bs" for a
  proof (induction bs arbitrary: a rule: rev_induct)
    case (snoc c cs)
    then show ?case by (simp add: algebra_simps)
  qed simp
  from this [of 0] show ?thesis by (simp add: be_nat_def)
qed

lemma be_nat_be_bytes: "n < 256 ^ k \<Longrightarrow> be_nat (be_bytes k n) = n"
  by (simp add: be_nat_eq be_bytes_def le_nat_le_bytes)

lemma addr_bytes_length: "length (addr_bytes ip) = (if Is4 ip then 4 else 16)"
  by (cases ip) simp_all

lemma unat_256: "unat (a :: u32) < 256 ^ 4" "unat (b :: u128) < 256 ^ 16"
  using unsigned_less [of a, where 'a = nat] unsigned_less [of b, where 'a = nat] by simp_all

lemma AddrFrom_bytes:
  assumes "ip \<noteq> Addr0" and "withoutZone ip = ip"
  shows "(if Is4 ip then AddrFrom4 (addr_bytes ip) else AddrFrom16 (addr_bytes ip)) = ip"
  using assms by (cases ip) (simp_all add: AddrFrom4_def AddrFrom16_def be_nat_be_bytes [OF unat_256(1)]
      be_nat_be_bytes [OF unat_256(2)])

lemma PrefixFrom_id: "net_ok p \<Longrightarrow> PrefixFrom (net_ip p) (net_bits p) = p"
  by (cases p) (auto simp: net_ok_def PrefixFrom_def)

lemma unpack_prefix_material:
  assumes "net_ok p" and "8 \<le> length rest"
  shows "unpack_prefix (prefixMaterial p @ rest) = Inr (p, rest)"
proof -
  have b: "0 \<le> net_bits p" "net_bits p \<le> 128" "net_ip p \<noteq> Addr0" "withoutZone (net_ip p) = net_ip p"
    using assms(1) by (cases "net_ip p"; simp add: net_ok_def)+
  then have "int (byte_of (chr (nat (net_bits p mod 256)))) = net_bits p" by (simp add: of_char_of)
  with b AddrFrom_bytes [of "net_ip p"] PrefixFrom_id [OF assms(1)] assms(2) show ?thesis
    by (auto simp: unpack_prefix_def prefixMaterial_def addr_bytes_length of_char_of split: if_splits)
qed

lemma pack_int64_read [simp]: "in64 x \<Longrightarrow> sint (le_Uint64 (pack_int64 x @ rest)) = x"
  by (simp add: pack_int64_def in64_def int_word_sint)

lemma length_pack_int64 [simp]: "length (pack_int64 x) = 8"
  by (simp add: pack_int64_def)

lemma unpack_record_bytes:
  assumes "record_ok typ flags r" and "typ \<in> {typeCIDR, typeString}"
  shows "unpack_record typ flags (pack_record_bytes typ flags r @ rest) = Inr (r, rest)"
proof -
  let ?why = "if typ = typeString \<and> odd flags then pack_text (pr_reason r) else []"
  let ?tail = "pack_int64 (pr_exp r) @ ?why @ rest"
  have why: "unpack_reason typ flags (?why @ rest) = Inr (pr_reason r, rest)"
    using assms by (auto simp: unpack_reason_def record_ok_def Let_def pack_text_def)
  have d: "drop 8 ?tail = ?why @ rest" by simp
  show ?thesis
  proof (cases "typ = typeCIDR")
    case True
    with assms have "unpack_prefix (prefixMaterial (pr_prefix r) @ ?tail) = Inr (pr_prefix r, ?tail)"
      by (intro unpack_prefix_material) (simp_all add: record_ok_def)
    with True why d assms show ?thesis
      by (simp add: unpack_record_def pack_record_bytes_def record_ok_def of_char_of)
  next
    case False
    with assms have "unpack_value (pack_text (pr_value r) @ ?tail) = Inr (pr_value r, ?tail)"
      by (auto simp: unpack_value_def record_ok_def Let_def pack_text_def)
    with False why d assms show ?thesis
      by (auto simp: unpack_record_def pack_record_bytes_def record_ok_def of_char_of)
  qed
qed

lemma unpack_records_bytes:
  assumes "\<forall>r \<in> set rs. record_ok typ flags r" and "typ \<in> {typeCIDR, typeString}"
  shows "unpack_records typ flags (length rs) (concat (map (pack_record_bytes typ flags) rs) @ rest) =
    Inr rs"
  using assms(1)
  by (induction rs) (use unpack_record_bytes [OF _ assms(2)] in simp_all)

lemma unpack_pack_id:
  assumes "head_ok h" and "ph_count h = length rs"
    and "\<forall>r \<in> set rs. record_ok (ph_typ h) (ph_flags h) r"
  shows "unpack (pack h rs @ rest) = Inr (h, rs)"
proof -
  let ?e = "le_bytes 8 (unat (ph_epoch h))" and ?s = "le_bytes 8 (unat (ph_seq h))"
    and ?x = "le_bytes 8 (unat (ph_hash h))" and ?n = "le_bytes 4 (ph_count h)"
    and ?r = "concat (map (pack_record_bytes (ph_typ h) (ph_flags h)) rs) @ rest"
  let ?a = "packMagic @ [chr packVersion, chr (ph_kind h), chr (ph_typ h), chr (ph_flags h)]"
  have d: "pack h rs @ rest = ?a @ ?e @ ?s @ ?x @ ph_key h @ ?n @ ?r"
    by (simp add: pack_def)
  have k: "length (ph_key h) = 16" and n: "ph_count h < 2 ^ 32" using assms(1) by (simp_all add: head_ok_def)
  have t: "ph_typ h mod 256 = ph_typ h" using assms(1) by (auto simp: head_ok_def)
  have "drop 8 (?a @ t) = t" "drop 16 (?a @ ?e @ t) = t" "drop 24 (?a @ ?e @ ?s @ t) = t"
    "drop 32 (?a @ ?e @ ?s @ ?x @ t) = t" "drop 48 (?a @ ?e @ ?s @ ?x @ ph_key h @ t) = t"
    "drop 52 (?a @ ?e @ ?s @ ?x @ ph_key h @ ?n @ t) = t" for t
    using k by simp_all
  moreover from this have "unpack_head (pack h rs @ rest) = h"
    unfolding d unpack_head_def using assms(1) n k t by (simp add: head_ok_def of_char_of)
  moreover have "unpack_records (ph_typ h) (ph_flags h) (ph_count h) ?r = Inr rs"
    unfolding assms(2) using assms(1,3) by (intro unpack_records_bytes) (simp_all add: head_ok_def)
  ultimately show ?thesis
    using k unfolding d by (simp add: unpack_def of_char_of)
qed

text \<open>
  C34.  A snapshot or package in the documented format is read back to the same header and the same
  records, and bytes after the last record do not matter.
\<close>

theorem unpack_pack:
  assumes "head_ok h" and "ph_count h = length rs"
    and "\<forall>r \<in> set rs. record_ok (ph_typ h) (ph_flags h) r"
  shows "unpack (pack h rs @ rest) = Inr (h, rs)"
  using assms by (rule unpack_pack_id)

subsection \<open>Concrete objects\<close>

definition list_key :: key where
  "list_key = replicate 16 (CHR ''k'')"

definition demo_head :: pack_head where
  "demo_head = \<lparr>ph_kind = 1, ph_typ = 1, ph_flags = 0, ph_epoch = 7, ph_seq = 3, ph_hash = 5,
     ph_key = list_key, ph_count = 1\<rparr>"

definition demo_net :: pack_record where
  "demo_net = \<lparr>pr_op = 1, pr_prefix = Net (V4 167772160) 8, pr_value = [], pr_exp = 0, pr_reason = []\<rparr>"

theorem unpack_pack_witness: "unpack (pack demo_head [demo_net] @ ''junk'') = Inr (demo_head, [demo_net])"
  by (rule unpack_pack)
    (simp_all add: head_ok_def record_ok_def net_ok_def demo_head_def demo_net_def list_key_def in64_def)

end
