(* ===== verification/Composition.thy ===== *)
theory Composition
  imports Wafs
begin

text \<open>
  The content of a mirrored list (type \<^verbatim>\<open>composition\<close> of \<^verbatim>\<open>internal/livelist/livelist.go\<close>): string
  entries, prefixes with a count of prefixes per length, and an order-free hash of everything in it.
  The counts are a two-dimensional array of the code; an index outside it is a panic.
\<close>

unbundle bit_operations_syntax

subsection \<open>Data\<close>

record entry_record =
  rc_exp :: int
  rc_reason :: string

record composition =
  cm_entries :: "entry_record gomap"
  cm_nets :: "net \<rightharpoonup> int"
  cm_lens :: "nat \<Rightarrow> nat \<Rightarrow> int"
  cm_hash :: u64

definition newComposition :: composition where
  "newComposition = \<lparr>cm_entries = Map.empty, cm_nets = Map.empty, cm_lens = (\<lambda>f b. 0), cm_hash = 0\<rparr>"

definition family :: "net \<Rightarrow> nat" where
  "family p = (if Is4 (net_ip p) then 0 else 1)"

definition alive :: "int \<Rightarrow> int \<Rightarrow> bool" where
  "alive exp now \<longleftrightarrow> exp = 0 \<or> exp > now"

subsection \<open>Operations\<close>

text \<open>\<open>lens[family(p)][p.Bits()] += d\<close>, with the check of the index.\<close>

definition bump :: "net \<Rightarrow> int \<Rightarrow> composition \<Rightarrow> composition may_panic" where
  "bump p d c =
     (if 0 \<le> net_bits p \<and> net_bits p \<le> 128
      then Done (c\<lparr>cm_lens := (\<lambda>f b. cm_lens c f b + (if f = family p \<and> int b = net_bits p then d else 0))\<rparr>)
      else Panics)"

definition toggle_hash :: "u64 \<Rightarrow> composition \<Rightarrow> composition" where
  "toggle_hash h c = c\<lparr>cm_hash := cm_hash c XOR h\<rparr>"

definition apply_net :: "key \<Rightarrow> pack_record \<Rightarrow> composition \<Rightarrow> composition may_panic" where
  "apply_net k r c =
     (let p = pr_prefix r; had = cm_nets c p \<noteq> None; h = SipHashBytes k (prefixMaterial p)
      in if pr_op r = recAdd then
           (case (if had then Done c else bump p 1 (toggle_hash h c)) of
              Panics \<Rightarrow> Panics
            | Done c' \<Rightarrow> Done (c'\<lparr>cm_nets := (cm_nets c')(p \<mapsto> pr_exp r)\<rparr>))
         else if had then
           (case bump p (- 1) (toggle_hash h c) of
              Panics \<Rightarrow> Panics
            | Done c' \<Rightarrow> Done (c'\<lparr>cm_nets := (cm_nets c')(p := None)\<rparr>))
         else Done c)"

definition apply_entry :: "key \<Rightarrow> pack_record \<Rightarrow> composition \<Rightarrow> composition" where
  "apply_entry k r c =
     (let v = pr_value r; had = cm_entries c v \<noteq> None
      in if pr_op r = recAdd then
           (if had then c else toggle_hash (SipHash k v) c)
             \<lparr>cm_entries := (cm_entries c)(v \<mapsto> \<lparr>rc_exp = pr_exp r, rc_reason = pr_reason r\<rparr>)\<rparr>
         else if had then (toggle_hash (SipHash k v) c)\<lparr>cm_entries := (cm_entries c)(v := None)\<rparr>
         else c)"

definition comp_apply :: "key \<Rightarrow> nat \<Rightarrow> pack_record \<Rightarrow> composition \<Rightarrow> composition may_panic" where
  "comp_apply k typ r c = (if typ = typeCIDR then apply_net k r c else Done (apply_entry k r c))"

text \<open>The loop over the records of an object.\<close>

fun apply_all :: "key \<Rightarrow> nat \<Rightarrow> pack_record list \<Rightarrow> composition \<Rightarrow> composition may_panic" where
  "apply_all k typ [] c = Done c"
| "apply_all k typ (r # rs) c =
     (case comp_apply k typ r c of Panics \<Rightarrow> Panics | Done c' \<Rightarrow> apply_all k typ rs c')"

text \<open>The check of one prefix length, and the loop from the longest to the shortest.\<close>

definition hit :: "composition \<Rightarrow> addr \<Rightarrow> int \<Rightarrow> nat \<Rightarrow> bool" where
  "hit c ip now bits \<longleftrightarrow>
     cm_lens c (if Is4 ip then 0 else 1) bits \<noteq> 0 \<and>
     (case cm_nets c (Masked (PrefixFrom ip (int bits))) of None \<Rightarrow> False | Some exp \<Rightarrow> alive exp now)"

fun contains_from :: "composition \<Rightarrow> addr \<Rightarrow> int \<Rightarrow> nat \<Rightarrow> bool" where
  "contains_from c ip now 0 = hit c ip now 0"
| "contains_from c ip now (Suc bits) = (if hit c ip now (Suc bits) then True else contains_from c ip now bits)"

definition containsAddr :: "composition \<Rightarrow> addr \<Rightarrow> int \<Rightarrow> bool" where
  "containsAddr c ip now = contains_from c (Unmap ip) now (BitLen (Unmap ip))"

subsection \<open>The invariant\<close>

text \<open>The combined hash of a finite set of keys, in no order.\<close>

definition xor_all :: "('a \<Rightarrow> u64) \<Rightarrow> 'a set \<Rightarrow> u64" where
  "xor_all h A = Finite_Set.fold (\<lambda>x a. h x XOR a) 0 A"

interpretation xor_fold: comp_fun_commute "\<lambda>x a. h x XOR a" for h :: "'a \<Rightarrow> u64"
  by standard (simp add: fun_eq_iff xor.left_commute)

lemma xor_all_empty [simp]: "xor_all h {} = 0"
  by (simp add: xor_all_def)

lemma xor_all_insert [simp]: "finite A \<Longrightarrow> x \<notin> A \<Longrightarrow> xor_all h (insert x A) = xor_all h A XOR h x"
  unfolding xor_all_def by (subst xor_fold.fold_insert) (simp_all add: xor.commute)

lemma xor_all_remove:
  assumes "finite A" and "x \<in> A"
  shows "xor_all h (A - {x}) = xor_all h A XOR h x"
proof -
  have "xor_all h (insert x (A - {x})) = xor_all h (A - {x}) XOR h x"
    using assms(1) by (intro xor_all_insert) simp_all
  then show ?thesis using assms(2) by (simp add: insert_absorb xor.assoc)
qed

definition content_hash :: "key \<Rightarrow> net set \<Rightarrow> string set \<Rightarrow> u64" where
  "content_hash k nets vals =
     xor_all (\<lambda>p. SipHashBytes k (prefixMaterial p)) nets XOR xor_all (SipHash k) vals"

definition count_len :: "net set \<Rightarrow> nat \<Rightarrow> nat \<Rightarrow> int" where
  "count_len nets f b = int (card {p \<in> nets. family p = f \<and> net_bits p = int b})"

definition comp_inv :: "key \<Rightarrow> composition \<Rightarrow> bool" where
  "comp_inv k c \<longleftrightarrow>
     finite (dom (cm_nets c)) \<and> finite (dom (cm_entries c)) \<and>
     (\<forall>p \<in> dom (cm_nets c). 0 \<le> net_bits p \<and> net_bits p \<le> 128) \<and>
     cm_lens c = count_len (dom (cm_nets c)) \<and>
     cm_hash c = content_hash k (dom (cm_nets c)) (dom (cm_entries c))"

lemma comp_inv_new: "comp_inv k newComposition"
  by (simp add: comp_inv_def newComposition_def content_hash_def count_len_def fun_eq_iff)

lemma count_len_insert:
  assumes "finite A" and "p \<notin> A"
  shows "count_len (insert p A) = (\<lambda>f b. count_len A f b + (if f = family p \<and> int b = net_bits p then 1 else 0))"
proof (intro ext)
  fix f b
  have "{q \<in> insert p A. family q = f \<and> net_bits q = int b} =
      (if f = family p \<and> int b = net_bits p then insert p {q \<in> A. family q = f \<and> net_bits q = int b}
       else {q \<in> A. family q = f \<and> net_bits q = int b})" by auto
  with assms show "count_len (insert p A) f b =
      count_len A f b + (if f = family p \<and> int b = net_bits p then 1 else 0)"
    by (simp add: count_len_def)
qed

lemma count_len_remove:
  assumes "finite A" and "p \<in> A"
  shows "count_len (A - {p}) = (\<lambda>f b. count_len A f b + (if f = family p \<and> int b = net_bits p then - 1 else 0))"
proof -
  have "count_len (insert p (A - {p})) =
      (\<lambda>f b. count_len (A - {p}) f b + (if f = family p \<and> int b = net_bits p then 1 else 0))"
    using assms(1) by (intro count_len_insert) simp_all
  then show ?thesis using assms(2) by (auto simp: insert_absorb fun_eq_iff)
qed

lemma content_hash_net:
  "finite N \<Longrightarrow> p \<notin> N \<Longrightarrow>
     content_hash k (insert p N) V = content_hash k N V XOR SipHashBytes k (prefixMaterial p)"
  "finite N \<Longrightarrow> p \<in> N \<Longrightarrow>
     content_hash k (N - {p}) V = content_hash k N V XOR SipHashBytes k (prefixMaterial p)"
  by (simp_all add: content_hash_def xor_all_remove ac_simps)

lemma content_hash_entry:
  "finite V \<Longrightarrow> v \<notin> V \<Longrightarrow> content_hash k N (insert v V) = content_hash k N V XOR SipHash k v"
  "finite V \<Longrightarrow> v \<in> V \<Longrightarrow> content_hash k N (V - {v}) = content_hash k N V XOR SipHash k v"
  by (simp_all add: content_hash_def xor_all_remove ac_simps)

lemma apply_net_inv:
  assumes "comp_inv k c" and "apply_net k r c = Done c'"
  shows "comp_inv k c'"
proof (cases "pr_op r = recAdd")
  case True
  then show ?thesis
  proof (cases "cm_nets c (pr_prefix r)")
    case None
    with True assms have "0 \<le> net_bits (pr_prefix r)" "net_bits (pr_prefix r) \<le> 128"
      by (auto simp: apply_net_def bump_def Let_def split: if_splits)
    moreover from None have "pr_prefix r \<notin> dom (cm_nets c)" by (simp add: domIff)
    moreover have "finite (dom (cm_nets c))" using assms(1) by (simp add: comp_inv_def)
    ultimately show ?thesis
      using assms True None count_len_insert [of "dom (cm_nets c)" "pr_prefix r"]
        content_hash_net(1) [of "dom (cm_nets c)" "pr_prefix r"]
      by (auto simp: apply_net_def bump_def toggle_hash_def comp_inv_def Let_def split: if_splits)
  next
    case (Some e)
    then have "insert (pr_prefix r) (dom (cm_nets c)) = dom (cm_nets c)" by auto
    with Some True assms show ?thesis
      by (auto simp: apply_net_def comp_inv_def Let_def split: if_splits)
  qed
next
  case False
  show ?thesis
  proof (cases "cm_nets c (pr_prefix r)")
    case (Some e)
    then have d: "pr_prefix r \<in> dom (cm_nets c)" by auto
    with assms(1) have "0 \<le> net_bits (pr_prefix r)" "net_bits (pr_prefix r) \<le> 128"
      by (auto simp: comp_inv_def)
    moreover have "finite (dom (cm_nets c))" using assms(1) by (simp add: comp_inv_def)
    ultimately show ?thesis
      using d assms False Some count_len_remove [of "dom (cm_nets c)" "pr_prefix r"]
        content_hash_net(2) [of "dom (cm_nets c)" "pr_prefix r"]
      by (auto simp: apply_net_def bump_def toggle_hash_def comp_inv_def Let_def split: if_splits)
  qed (use False assms in \<open>simp add: apply_net_def\<close>)
qed

lemma apply_entry_inv:
  assumes "comp_inv k c"
  shows "comp_inv k (apply_entry k r c)"
proof -
  have f: "finite (dom (cm_entries c))" using assms by (simp add: comp_inv_def)
  show ?thesis
  proof (cases "pr_value r \<in> dom (cm_entries c)")
    case True
    then have "insert (pr_value r) (dom (cm_entries c)) = dom (cm_entries c)" by blast
    with True assms content_hash_entry(2) [OF f True] show ?thesis
      by (auto simp: apply_entry_def toggle_hash_def comp_inv_def Let_def)
  next
    case False
    with assms content_hash_entry(1) [OF f False] show ?thesis
      by (auto simp: apply_entry_def toggle_hash_def comp_inv_def Let_def domIff)
  qed
qed

lemma comp_apply_inv: "comp_inv k c \<Longrightarrow> comp_apply k typ r c = Done c' \<Longrightarrow> comp_inv k c'"
  by (auto simp: comp_apply_def apply_net_inv apply_entry_inv split: if_splits)

lemma apply_all_inv: "comp_inv k c \<Longrightarrow> apply_all k typ rs c = Done c' \<Longrightarrow> comp_inv k c'"
  by (induction rs arbitrary: c) (auto split: may_panic.splits dest: comp_apply_inv)

text \<open>Removing by other means never brings a prefix in.\<close>

lemma apply_net_Panics:
  assumes "comp_inv k c"
  shows "apply_net k r c = Panics \<longleftrightarrow>
    pr_op r = recAdd \<and> \<not> (0 \<le> net_bits (pr_prefix r) \<and> net_bits (pr_prefix r) \<le> 128)"
proof -
  have "0 \<le> net_bits (pr_prefix r) \<and> net_bits (pr_prefix r) \<le> 128" if "cm_nets c (pr_prefix r) \<noteq> None"
    using that assms by (auto simp: comp_inv_def domIff)
  then show ?thesis by (auto simp: apply_net_def bump_def Let_def split: if_splits)
qed

lemma apply_all_Panics:
  assumes "comp_inv k c"
  shows "apply_all k typ rs c = Panics \<longleftrightarrow>
    typ = typeCIDR \<and>
    (\<exists>r \<in> set rs. pr_op r = recAdd \<and> \<not> (0 \<le> net_bits (pr_prefix r) \<and> net_bits (pr_prefix r) \<le> 128))"
  using assms
proof (induction rs arbitrary: c)
  case (Cons r rs)
  show ?case
  proof (cases "comp_apply k typ r c")
    case (Done c')
    then have "typ = typeCIDR \<Longrightarrow> apply_net k r c \<noteq> Panics" by (simp add: comp_apply_def)
    with Done Cons.IH [OF comp_apply_inv [OF Cons.prems Done]] apply_net_Panics [OF Cons.prems, of r]
    show ?thesis by auto
  next
    case Panics
    with apply_net_Panics [OF Cons.prems, of r] show ?thesis
      by (auto simp: comp_apply_def split: if_splits)
  qed
qed simp

subsection \<open>Looking up an address\<close>

lemma contains_from_iff: "contains_from c ip now n \<longleftrightarrow> (\<exists>b \<le> n. hit c ip now b)"
  by (induction n) (auto simp: le_Suc_eq)

lemma count_len_pos: "finite A \<Longrightarrow> p \<in> A \<Longrightarrow> net_bits p = int b \<Longrightarrow> count_len A (family p) b \<noteq> 0"
  by (auto simp: count_len_def card_eq_0_iff)

lemma covers_Is4: "covers p ip \<Longrightarrow> Is4 (net_ip p) = Is4 ip \<and> ip \<noteq> Addr0"
  by (cases "(p, ip)" rule: covers.cases) auto

text \<open>What is found covers the address, whatever the prefixes look like.\<close>

lemma hit_covers:
  assumes "hit c ip now b" and "b \<le> BitLen ip" and "ip \<noteq> Addr0"
  shows "\<exists>p exp. cm_nets c p = Some exp \<and> alive exp now \<and> covers p ip"
  using assms covers_masked [OF assms(2,3)] by (auto simp: hit_def split: option.splits)

lemma covers_hit:
  assumes "comp_inv k c" and "cm_nets c p = Some exp" and "alive exp now"
    and "canonical p" and "covers p ip"
  shows "nat (net_bits p) \<le> BitLen ip \<and> hit c ip now (nat (net_bits p))"
proof -
  from canonical_covers [OF assms(4,5)] have p: "Masked (PrefixFrom ip (net_bits p)) = p"
    and b: "net_bits p \<le> int (BitLen ip)" by simp_all
  from assms(4) have b0: "0 \<le> net_bits p" by (simp add: canonical_def)
  have "family p = (if Is4 ip then 0 else 1)" using covers_Is4 [OF assms(5)] by (simp add: family_def)
  moreover have "count_len (dom (cm_nets c)) (family p) (nat (net_bits p)) \<noteq> 0"
    using assms(1,2) b0 by (intro count_len_pos) (auto simp: comp_inv_def)
  ultimately show ?thesis
    using assms(1-3) p b b0 by (simp add: hit_def comp_inv_def)
qed

lemma containsAddr_sound:
  assumes "containsAddr c ip now" and "ip \<noteq> Addr0"
  shows "\<exists>p exp. cm_nets c p = Some exp \<and> alive exp now \<and> covers p (Unmap ip)"
proof -
  from assms(2) have "Unmap ip \<noteq> Addr0" by (cases ip) auto
  with assms(1) show ?thesis by (auto simp: containsAddr_def contains_from_iff intro: hit_covers)
qed

lemma containsAddr_complete:
  assumes "comp_inv k c" and "cm_nets c p = Some exp" and "alive exp now"
    and "canonical p" and "covers p (Unmap ip)"
  shows "containsAddr c ip now"
  using covers_hit [OF assms] by (auto simp: containsAddr_def contains_from_iff)

subsection \<open>Properties\<close>

text \<open>
  C22.  However a list came to its content - any sequence of additions and removals that does not
  panic - its hash is the combined hash of exactly what it holds, and the counts of prefixes per
  length are exact.  So two mirrors with one key and the same content have the same hash, whatever
  their histories.
\<close>

theorem composition_invariant:
  assumes "apply_all k typ rs newComposition = Done c"
  shows "cm_hash c = content_hash k (dom (cm_nets c)) (dom (cm_entries c)) \<and>
    cm_lens c = count_len (dom (cm_nets c)) \<and>
    (\<forall>typ' rs' c'. apply_all k typ' rs' newComposition = Done c' \<longrightarrow>
       dom (cm_nets c') = dom (cm_nets c) \<longrightarrow> dom (cm_entries c') = dom (cm_entries c) \<longrightarrow>
       cm_hash c' = cm_hash c \<and> cm_lens c' = cm_lens c)"
proof -
  have inv: "comp_inv k c'" if "apply_all k typ' rs' newComposition = Done c'" for typ' rs' c'
    using comp_inv_new that by (rule apply_all_inv)
  from inv [OF assms] show ?thesis by (auto simp: comp_inv_def dest!: inv)
qed

text \<open>
  The lookup of an address, which tries only the prefix lengths that occur, is the lookup by
  definition: the address (an IPv4 address inside IPv6 taken as IPv4) is in the list exactly when a
  prefix that has not expired covers it, if the prefixes are written as a keeper writes them; and it
  is never found without such a prefix.
\<close>

theorem containsAddr_spec:
  assumes "apply_all k typ rs newComposition = Done c" and "ip \<noteq> Addr0"
  shows "(containsAddr c ip now \<longrightarrow>
      (\<exists>p exp. cm_nets c p = Some exp \<and> alive exp now \<and> covers p (Unmap ip))) \<and>
    ((\<forall>p \<in> dom (cm_nets c). canonical p) \<longrightarrow>
      (containsAddr c ip now \<longleftrightarrow>
        (\<exists>p exp. cm_nets c p = Some exp \<and> alive exp now \<and> covers p (Unmap ip))))"
  using containsAddr_sound [OF _ assms(2)] apply_all_inv [OF comp_inv_new assms(1)]
  by (blast intro: containsAddr_complete)

text \<open>
  C39.  Applying a snapshot panics exactly when it adds a prefix whose length does not fit its
  address, which the reader of objects lets through: a two-byte mistake of the sender, \<open>10.0.0.0/33\<close>,
  reads as a record and stops the program.
\<close>

theorem bad_prefix_panics:
  "(apply_all k typ rs newComposition = Panics \<longleftrightarrow>
      typ = typeCIDR \<and> (\<exists>r \<in> set rs. pr_op r = recAdd \<and>
         \<not> (0 \<le> net_bits (pr_prefix r) \<and> net_bits (pr_prefix r) \<le> 128))) \<and>
   (let d = [chr 1, chr 4, chr 33, chr 10, chr 0, chr 0, chr 0] @ replicate 8 (chr 0)
    in \<exists>r. unpack_record typeCIDR 0 d = Inr (r, []) \<and>
         comp_apply k typeCIDR r newComposition = Panics)"
proof
  show "apply_all k typ rs newComposition = Panics \<longleftrightarrow>
      typ = typeCIDR \<and> (\<exists>r \<in> set rs. pr_op r = recAdd \<and>
         \<not> (0 \<le> net_bits (pr_prefix r) \<and> net_bits (pr_prefix r) \<le> 128))"
    by (rule apply_all_Panics) (rule comp_inv_new)
  show "let d = [chr 1, chr 4, chr 33, chr 10, chr 0, chr 0, chr 0] @ replicate 8 (chr 0)
    in \<exists>r. unpack_record typeCIDR 0 d = Inr (r, []) \<and>
         comp_apply k typeCIDR r newComposition = Panics"
    by (simp add: Let_def unpack_record_def unpack_prefix_def unpack_reason_def of_char_of
        comp_apply_def apply_net_def bump_def newComposition_def PrefixFrom_def AddrFrom4_def)
qed

subsection \<open>A concrete list\<close>

definition demo_composition :: composition where
  "demo_composition = newComposition
     \<lparr>cm_nets := [Net (V4 167772160) 8 \<mapsto> 0], cm_lens := (\<lambda>f b. if f = 0 \<and> int b = 8 then 1 else 0),
      cm_hash := SipHashBytes list_key (prefixMaterial (Net (V4 167772160) 8))\<rparr>"

lemma demo_apply: "apply_all list_key typeCIDR [demo_net] newComposition = Done demo_composition"
  by (simp add: comp_apply_def apply_net_def bump_def toggle_hash_def demo_net_def demo_composition_def
      newComposition_def family_def Let_def)

lemma demo_canonical: "canonical (Net (V4 167772160) 8)" "covers (Net (V4 167772160) 8) (V4 167772165)"
  by (simp_all add: canonical_def Masked_def PrefixFrom_def) code_simp+

theorem composition_invariant_witness:
  "cm_hash demo_composition = content_hash list_key {Net (V4 167772160) 8} {}"
  using composition_invariant [OF demo_apply] by (simp add: demo_composition_def newComposition_def)

theorem containsAddr_spec_witness: "containsAddr demo_composition (V4 167772165) 1000"
proof -
  have "\<forall>p \<in> dom (cm_nets demo_composition). canonical p"
    by (simp add: demo_composition_def newComposition_def demo_canonical)
  moreover have "cm_nets demo_composition (Net (V4 167772160) 8) = Some 0" "alive 0 1000"
    by (simp_all add: demo_composition_def newComposition_def alive_def)
  moreover have "V4 167772165 \<noteq> Addr0" by simp
  ultimately show ?thesis
    using containsAddr_spec [OF demo_apply, of "V4 167772165" 1000] demo_canonical(2)
    by (metis Unmap.simps(3))
qed

end
