(* ===== verification/Operand.thy ===== *)
theory Operand
  imports GoStrings
begin

text \<open>
  Operands (\<^verbatim>\<open>internal/policy/operand.go\<close>): the names of request values a cookie may take
  its value from, their parser, and their evaluation against the interface \<open>Source\<close>.  A source
  loads its objects lazily and remembers them, so its methods pass a state.  The interface is a
  record of functions; what a client may rely on is the locale \<open>source_interface\<close>: whatever has
  been loaded before, the answers are those of one fixed view of the request.
\<close>

subsection \<open>Data\<close>

datatype operand_kind =
  OperandField | OperandHeader | OperandCookie | OperandArg
| OperandHeaders | OperandCookies | OperandArgs | OperandVar

record operand =
  op_Raw :: string
  op_Kind :: operand_kind
  op_Name :: string
  op_All :: bool

definition Fields :: "string list" where
  "Fields = [''uri'', ''request_uri'', ''host'', ''request_method'', ''scheme'', ''remote_addr'']"

abbreviation selHeaders :: string where "selHeaders \<equiv> ''$waf_request_headers.''"
abbreviation selCookies :: string where "selCookies \<equiv> ''$waf_request_cookies.''"
abbreviation selArgs :: string where "selArgs \<equiv> ''$waf_request_args.''"
abbreviation selVar :: string where "selVar \<equiv> ''$waf_var.''"

definition name_char :: "char \<Rightarrow> bool" where
  "name_char c \<longleftrightarrow> isAlnum c \<or> c \<in> {CHR ''_'', CHR ''.'', CHR ''-''}"

definition varNameRe :: "string \<Rightarrow> bool" where
  "varNameRe = matches_class name_char 1 64"

definition nginxNameRe :: "string \<Rightarrow> bool" where
  "nginxNameRe = matches_class (\<lambda>c. isAlnum c \<or> c = CHR ''_'') 1 128"

subsection \<open>Parsing\<close>

datatype operand_err =
  OperandEmpty | OperandNoDollar | OperandNoName | OperandStar | OperandVarName
| OperandNginxName | OperandUnknown

definition selectors :: "(string \<times> operand_kind \<times> bool) list" where
  "selectors =
     [(selHeaders, OperandHeaders, True), (selCookies, OperandCookies, True),
      (selArgs, OperandArgs, True), (selVar, OperandVar, False)]"

definition nginx_prefixes :: "(string \<times> operand_kind) list" where
  "nginx_prefixes =
     [(''http_'', OperandHeader), (''cookie_'', OperandCookie), (''arg_'', OperandArg)]"

text \<open>The body of the first loop for the selector that matches.\<close>

definition parse_selector ::
  "unicode \<Rightarrow> string \<Rightarrow> string \<times> operand_kind \<times> bool \<Rightarrow> operand_err + operand" where
  "parse_selector u raw = (\<lambda>(pre, kind, all).
     (let name = drop (length pre) raw
      in if name = [] then Inl OperandNoName
         else if name = ''*'' then
           (if \<not> all then Inl OperandStar
            else Inr \<lparr>op_Raw = raw, op_Kind = kind, op_Name = [], op_All = True\<rparr>)
         else if kind = OperandVar \<and> \<not> varNameRe name then Inl OperandVarName
         else Inr \<lparr>op_Raw = raw, op_Kind = kind,
                   op_Name = (if kind = OperandHeaders then ToLower u name else name),
                   op_All = False\<rparr>))"

definition parse_nginx :: "unicode \<Rightarrow> string \<Rightarrow> string \<Rightarrow> operand_err + operand" where
  "parse_nginx u raw name =
     (case find (\<lambda>(pre, kind). HasPrefix name pre) nginx_prefixes of
        None \<Rightarrow> Inl OperandUnknown
      | Some (pre, kind) \<Rightarrow>
          (let tail = drop (length pre) name
           in if \<not> nginxNameRe tail then Inl OperandNginxName
              else Inr \<lparr>op_Raw = raw, op_Kind = kind,
                        op_Name = (if kind = OperandHeader then ToLower u tail else tail),
                        op_All = False\<rparr>))"

definition ParseOperand :: "unicode \<Rightarrow> string \<Rightarrow> operand_err + operand" where
  "ParseOperand u raw0 =
     (let raw = TrimSpace raw0
      in if raw = [] then Inl OperandEmpty
         else if \<not> HasPrefix raw ''$'' then Inl OperandNoDollar
         else case find (\<lambda>(pre, kind, all). HasPrefix raw pre) selectors of
           Some sel \<Rightarrow> parse_selector u raw sel
         | None \<Rightarrow>
             (let name = drop 1 raw
              in if name \<in> set Fields then
                   Inr \<lparr>op_Raw = raw, op_Kind = OperandField, op_Name = name, op_All = False\<rparr>
                 else parse_nginx u raw name))"

subsection \<open>Sources and evaluation\<close>

type_synonym pair = "string \<times> string"

record 's source_ops =
  src_Field :: "string \<Rightarrow> 's \<Rightarrow> string \<times> 's"
  src_Var :: "string \<Rightarrow> 's \<Rightarrow> (string \<times> bool) \<times> 's"
  src_Headers :: "'s \<Rightarrow> (pair list \<times> bool) \<times> 's"
  src_Cookies :: "'s \<Rightarrow> (pair list \<times> bool) \<times> 's"
  src_Args :: "'s \<Rightarrow> (pair list \<times> bool) \<times> 's"

definition nonEmpty :: "string \<Rightarrow> string list" where
  "nonEmpty v = (if v = [] then [] else [v])"

definition nginxHeaderName :: "unicode \<Rightarrow> string \<Rightarrow> string" where
  "nginxHeaderName u name = map (\<lambda>c. if c = CHR ''-'' then CHR ''_'' else c) (ToLower u name)"

text \<open>The loop that returns at the first pair whose name matches.\<close>

definition first_pair :: "(string \<Rightarrow> bool) \<Rightarrow> pair list \<Rightarrow> string list" where
  "first_pair P pairs =
     (case find (\<lambda>p. P (fst p)) pairs of None \<Rightarrow> [] | Some p \<Rightarrow> nonEmpty (snd p))"

definition op_first :: "('s \<Rightarrow> (pair list \<times> bool) \<times> 's) \<Rightarrow> string \<Rightarrow> 's \<Rightarrow> (string list \<times> bool) \<times> 's" where
  "op_first get name s =
     (case get s of ((pairs, ok), s') \<Rightarrow>
        if \<not> ok then (([], False), s') else ((first_pair (\<lambda>n. n = name) pairs, True), s'))"

definition all_pairs :: "(string \<Rightarrow> bool) \<Rightarrow> pair list \<Rightarrow> string list" where
  "all_pairs P pairs = map snd (filter (\<lambda>p. P (fst p) \<and> snd p \<noteq> []) pairs)"

definition op_all :: "('s \<Rightarrow> (pair list \<times> bool) \<times> 's) \<Rightarrow> operand \<Rightarrow> 's \<Rightarrow> (string list \<times> bool) \<times> 's" where
  "op_all get o' s =
     (case get s of ((pairs, ok), s') \<Rightarrow>
        if \<not> ok then (([], False), s')
        else ((all_pairs (\<lambda>n. op_All o' \<or> n = op_Name o') pairs, True), s'))"

definition operand_Values ::
  "unicode \<Rightarrow> 's source_ops \<Rightarrow> operand \<Rightarrow> 's \<Rightarrow> (string list \<times> bool) \<times> 's" where
  "operand_Values u src o' s =
     (case op_Kind o' of
        OperandField \<Rightarrow> (case src_Field src (op_Name o') s of (v, s') \<Rightarrow> ((nonEmpty v, True), s'))
      | OperandVar \<Rightarrow> (case src_Var src (op_Name o') s of ((v, ok), s') \<Rightarrow> ((nonEmpty v, ok), s'))
      | OperandHeader \<Rightarrow>
          (case src_Headers src s of ((pairs, ok), s') \<Rightarrow>
             if \<not> ok then (([], False), s')
             else ((first_pair (\<lambda>n. nginxHeaderName u n = op_Name o') pairs, True), s'))
      | OperandCookie \<Rightarrow> op_first (src_Cookies src) (op_Name o') s
      | OperandArg \<Rightarrow> op_first (src_Args src) (op_Name o') s
      | OperandHeaders \<Rightarrow>
          (case src_Headers src s of ((pairs, ok), s') \<Rightarrow>
             if \<not> ok then (([], False), s')
             else ((all_pairs (\<lambda>n. op_All o' \<or> ToLower u n = op_Name o') pairs, True), s'))
      | OperandCookies \<Rightarrow> op_all (src_Cookies src) o' s
      | OperandArgs \<Rightarrow> op_all (src_Args src) o' s)"

subsection \<open>The interface and its client\<close>

text \<open>What a request says, without the order in which it is asked.\<close>

record view =
  v_Field :: "string \<Rightarrow> string"
  v_Var :: "string \<Rightarrow> string \<times> bool"
  v_Headers :: "pair list \<times> bool"
  v_Cookies :: "pair list \<times> bool"
  v_Args :: "pair list \<times> bool"

definition view_ops :: "view source_ops" where
  "view_ops =
     \<lparr>src_Field = (\<lambda>n v. (v_Field v n, v)), src_Var = (\<lambda>n v. (v_Var v n, v)),
      src_Headers = (\<lambda>v. (v_Headers v, v)), src_Cookies = (\<lambda>v. (v_Cookies v, v)),
      src_Args = (\<lambda>v. (v_Args v, v))\<rparr>"

text \<open>Evaluation against a fixed view.\<close>

definition values_view :: "unicode \<Rightarrow> operand \<Rightarrow> view \<Rightarrow> string list \<times> bool" where
  "values_view u o' v = fst (operand_Values u view_ops o' v)"

locale source_interface =
  fixes src :: "'s source_ops" and sinv :: "'s \<Rightarrow> bool" and sview :: "'s \<Rightarrow> view"
  assumes field: "sinv s \<Longrightarrow> src_Field src n s = (x, s') \<Longrightarrow>
      x = v_Field (sview s) n \<and> sinv s' \<and> sview s' = sview s"
    and var: "sinv s \<Longrightarrow> src_Var src n s = (y, s') \<Longrightarrow>
      y = v_Var (sview s) n \<and> sinv s' \<and> sview s' = sview s"
    and headers: "sinv s \<Longrightarrow> src_Headers src s = (r, s') \<Longrightarrow>
      r = v_Headers (sview s) \<and> sinv s' \<and> sview s' = sview s"
    and cookies: "sinv s \<Longrightarrow> src_Cookies src s = (r, s') \<Longrightarrow>
      r = v_Cookies (sview s) \<and> sinv s' \<and> sview s' = sview s"
    and args: "sinv s \<Longrightarrow> src_Args src s = (r, s') \<Longrightarrow>
      r = v_Args (sview s) \<and> sinv s' \<and> sview s' = sview s"
begin

lemma Values_view:
  assumes "sinv s" and "operand_Values u src o' s = (r, s')"
  shows "r = values_view u o' (sview s) \<and> sinv s' \<and> sview s' = sview s"
proof (cases "op_Kind o'")
  case OperandField
  with assms field [OF assms(1)] show ?thesis
    by (auto simp: operand_Values_def values_view_def view_ops_def split: prod.splits)
next
  case OperandVar
  with assms var [OF assms(1)] show ?thesis
    by (fastforce simp: operand_Values_def values_view_def view_ops_def split: prod.splits)
next
  case OperandHeader
  with assms headers [OF assms(1)] show ?thesis
    by (fastforce simp: operand_Values_def values_view_def view_ops_def split: prod.splits if_splits)
next
  case OperandHeaders
  with assms headers [OF assms(1)] show ?thesis
    by (fastforce simp: operand_Values_def values_view_def view_ops_def split: prod.splits if_splits)
next
  case OperandCookie
  with assms cookies [OF assms(1)] show ?thesis
    by (fastforce simp: operand_Values_def values_view_def view_ops_def op_first_def
        split: prod.splits if_splits)
next
  case OperandCookies
  with assms cookies [OF assms(1)] show ?thesis
    by (fastforce simp: operand_Values_def values_view_def view_ops_def op_all_def
        split: prod.splits if_splits)
next
  case OperandArg
  with assms args [OF assms(1)] show ?thesis
    by (fastforce simp: operand_Values_def values_view_def view_ops_def op_first_def
        split: prod.splits if_splits)
next
  case OperandArgs
  with assms args [OF assms(1)] show ?thesis
    by (fastforce simp: operand_Values_def values_view_def view_ops_def op_all_def
        split: prod.splits if_splits)
qed

end

text \<open>A view is a source of itself.\<close>

interpretation pure_source: source_interface view_ops "\<lambda>_. True" "\<lambda>v. v"
  by unfold_locales (auto simp: view_ops_def)

subsection \<open>Well-formed operands\<close>

definition wf_operand :: "unicode \<Rightarrow> operand \<Rightarrow> bool" where
  "wf_operand u o' \<longleftrightarrow>
     (op_All o' \<longrightarrow> op_Name o' = [] \<and> op_Kind o' \<in> {OperandHeaders, OperandCookies, OperandArgs}) \<and>
     (op_Kind o' = OperandField \<longrightarrow> op_Name o' \<in> set Fields) \<and>
     (op_Kind o' = OperandVar \<longrightarrow> varNameRe (op_Name o')) \<and>
     (op_Kind o' \<in> {OperandCookie, OperandArg} \<longrightarrow> nginxNameRe (op_Name o')) \<and>
     (op_Kind o' = OperandHeader \<longrightarrow> (\<exists>n. nginxNameRe n \<and> op_Name o' = ToLower u n))"

lemma parse_selector_wf:
  "parse_selector u raw (pre, kind, all) = Inr o' \<Longrightarrow>
     (pre, kind, all) \<in> set selectors \<Longrightarrow> wf_operand u o'"
  by (auto simp: parse_selector_def wf_operand_def selectors_def Let_def split: if_splits)

lemma parse_nginx_wf: "parse_nginx u raw name = Inr o' \<Longrightarrow> wf_operand u o'"
  by (auto simp: parse_nginx_def wf_operand_def nginx_prefixes_def Let_def
      split: if_splits option.splits)

lemma parse_nginx_raw: "parse_nginx u raw name = Inr o' \<Longrightarrow> op_Raw o' = raw"
  by (auto simp: parse_nginx_def Let_def split: if_splits)

lemma find_in_set: "find P xs = Some x \<Longrightarrow> x \<in> set xs \<and> P x"
  by (metis find_Some_iff nth_mem)

lemma ParseOperand_wf_aux:
  assumes "ParseOperand u raw = Inr o'"
  shows "wf_operand u o' \<and> op_Raw o' = TrimSpace raw"
proof (cases "find (\<lambda>(pre, kind, all). HasPrefix (TrimSpace raw) pre) selectors")
  case None
  show ?thesis
  proof (cases "drop 1 (TrimSpace raw) \<in> set Fields")
    case True
    with None assms show ?thesis
      by (auto simp: ParseOperand_def Let_def wf_operand_def split: if_splits)
  next
    case False
    with None assms have "parse_nginx u (TrimSpace raw) (drop 1 (TrimSpace raw)) = Inr o'"
      by (auto simp: ParseOperand_def Let_def split: if_splits)
    then show ?thesis by (simp add: parse_nginx_wf parse_nginx_raw)
  qed
next
  case (Some sel)
  obtain pre kind all where sel: "sel = (pre, kind, all)" by (cases sel)
  from Some have "sel \<in> set selectors" by (simp add: find_in_set)
  moreover from assms Some have "parse_selector u (TrimSpace raw) sel = Inr o'"
    by (auto simp: ParseOperand_def Let_def split: if_splits)
  ultimately show ?thesis
    using parse_selector_wf sel by (auto simp: parse_selector_def Let_def split: if_splits)
qed

lemma values_view_nonempty:
  "values_view u o' v = (vs, True) \<Longrightarrow> x \<in> set vs \<Longrightarrow> x \<noteq> []"
  by (cases "op_Kind o'")
     (auto simp: values_view_def view_ops_def operand_Values_def op_first_def op_all_def
        first_pair_def all_pairs_def nonEmpty_def split: prod.splits if_splits option.splits)

end
