(* ===== verification/Cookie.thy ===== *)
theory Cookie
  imports GoTime GoCrypto Operand
begin

text \<open>
  Cookie declarations and values (\<^verbatim>\<open>internal/policy/cookie.go\<close>, and \<open>parseTTL\<close> of
  \<^verbatim>\<open>policy.go\<close>): how a value is built and signed, how a presented string is read back, and
  the parser of a declaration.  The clock is an argument; the bytes of \<open>crypto/rand\<close> are an
  argument too: \<open>None\<close> when the read fails, otherwise the stream the buffer is filled from.
\<close>

subsection \<open>Data\<close>

abbreviation StateAbsent :: string where "StateAbsent \<equiv> ''absent''"
abbreviation StatePresent :: string where "StatePresent \<equiv> ''present''"
abbreviation StateInvalid :: string where "StateInvalid \<equiv> ''invalid''"
abbreviation StateExpired :: string where "StateExpired \<equiv> ''expired''"

definition States :: "string list" where
  "States = [StateAbsent, StatePresent, StateInvalid, StateExpired]"

abbreviation SignHMAC :: string where "SignHMAC \<equiv> ''hmac''"
abbreviation SignNone :: string where "SignNone \<equiv> ''none''"

definition ValueMax :: nat where "ValueMax = 256"
definition MaxLenLimit :: int where "MaxLenLimit = 128"
definition MaxLenDefault :: int where "MaxLenDefault = 64"
definition RandomMax :: int where "RandomMax = 32"
definition RandomDefault :: int where "RandomDefault = 8"
definition macBytes :: nat where "macBytes = 12"
definition macChars :: nat where "macChars = 16"

lemmas cookie_limits =
  ValueMax_def MaxLenLimit_def MaxLenDefault_def RandomMax_def RandomDefault_def macBytes_def
  macChars_def

definition cookieNameRe :: "string \<Rightarrow> bool" where
  "cookieNameRe = matches_class name_char 1 64"

record recipe =
  v_From :: "operand option"
  v_Default :: string
  v_Random :: int
  v_MaxLen :: int

record cookie =
  c_Name :: string
  c_Path :: string
  c_MaxAge :: duration
  c_MaxAgeSet :: bool
  c_Sign :: string
  c_Renew :: duration
  c_Value :: recipe

definition Signed :: "cookie \<Rightarrow> bool" where
  "Signed c \<longleftrightarrow> c_Sign c = SignHMAC"

subsection \<open>Pieces of a value\<close>

definition tag_char :: "char \<Rightarrow> bool" where
  "tag_char c \<longleftrightarrow> isLower c \<or> isUpper c \<or> isDigit c \<or> c = CHR ''_'' \<or> c = CHR ''-''"

text \<open>The loop of \<open>sanitizeTag\<close>: the rest of the input and the room left in the buffer.\<close>

fun sanitize_loop :: "string \<Rightarrow> nat \<Rightarrow> string" where
  "sanitize_loop (c # raw) (Suc room) =
     (if tag_char c then c else CHR ''_'') # sanitize_loop raw room"
| "sanitize_loop raw room = []"

definition sanitizeTag :: "string \<Rightarrow> int \<Rightarrow> string" where
  "sanitizeTag raw limit =
     (if raw = [] then []
      else sanitize_loop raw (nat (if limit > MaxLenLimit then MaxLenLimit else limit)))"

definition tagOf :: "string \<Rightarrow> string" where
  "tagOf payload = (case IndexByte payload (CHR ''~'') of Some i \<Rightarrow> take i payload | None \<Rightarrow> payload)"

definition cutLast :: "string \<Rightarrow> char \<Rightarrow> (string \<times> string) option" where
  "cutLast s sep =
     (case LastIndexByte s sep of None \<Rightarrow> None | Some i \<Rightarrow> Some (take i s, drop (Suc i) s))"

definition mac :: "string \<Rightarrow> string \<Rightarrow> string \<Rightarrow> string" where
  "mac key name payload =
     (let derived = hmac_sha256 key (''cookie:'' @ name);
          h = hmac_sha256 derived payload
      in take macChars (b64url (take macBytes h)))"

subsection \<open>Issue\<close>

datatype issue_err = RandomFailed | ErrNoValue | ErrNoSecret | TooLong nat

text \<open>The text a value starts from: the operand's first value, or the default.\<close>

definition issue_raw :: "unicode \<Rightarrow> 's source_ops \<Rightarrow> cookie \<Rightarrow> 's \<Rightarrow> string \<times> 's" where
  "issue_raw u src c s =
     (case v_From (c_Value c) of
        None \<Rightarrow> (v_Default (c_Value c), s)
      | Some op \<Rightarrow>
          (case operand_Values u src op s of ((values, avail), s') \<Rightarrow>
             (if avail \<and> length values > 0 \<and> values ! 0 \<noteq> [] then values ! 0
              else v_Default (c_Value c), s')))"

text \<open>
  The rest of \<open>Issue\<close> once the text is known.  \<open>rnd\<close> is the answer of \<open>rand.Read\<close>.
\<close>

definition issue_value ::
  "cookie \<Rightarrow> string \<Rightarrow> gotime \<Rightarrow> string \<Rightarrow> (nat \<Rightarrow> char) option \<Rightarrow> issue_err + (string \<times> string)" where
  "issue_value c raw now key rnd =
     (let limit = (if v_MaxLen (c_Value c) \<le> 0 then MaxLenDefault else v_MaxLen (c_Value c));
          tag = sanitizeTag raw limit
      in case (if v_Random (c_Value c) > 0
               then (case rnd of
                       None \<Rightarrow> Inl RandomFailed
                     | Some f \<Rightarrow>
                         Inr (tag @ (if tag \<noteq> [] then ''~'' else []) @
                              hex_encode (map f [0..<nat (v_Random (c_Value c))])))
               else Inr tag) of
           Inl e \<Rightarrow> Inl e
         | Inr value \<Rightarrow>
             if value = [] then Inl ErrNoValue
             else if Signed c \<and> length key = 0 then Inl ErrNoSecret
             else (let stamp = FormatInt (unix_of now) 36;
                       out = (if Signed c
                              then value @ ''.'' @ stamp @ ''.'' @
                                   mac key (c_Name c) (value @ ''.'' @ stamp)
                              else value)
                   in if length out > ValueMax then Inl (TooLong (length out))
                      else Inr (out, tagOf value)))"

definition cookie_Issue ::
  "unicode \<Rightarrow> 's source_ops \<Rightarrow> cookie \<Rightarrow> 's \<Rightarrow> gotime \<Rightarrow> string \<Rightarrow> (nat \<Rightarrow> char) option \<Rightarrow>
   (issue_err + (string \<times> string)) \<times> 's" where
  "cookie_Issue u src c s now key rnd =
     (case issue_raw u src c s of (raw, s') \<Rightarrow> (issue_value c raw now key rnd, s'))"

subsection \<open>Read\<close>

definition cookie_Read ::
  "cookie \<Rightarrow> string \<Rightarrow> gotime \<Rightarrow> string \<Rightarrow> issue_err + (string \<times> string)" where
  "cookie_Read c raw now key =
     (if raw = [] then Inr (StateAbsent, [])
      else if length raw > ValueMax then Inr (StateInvalid, [])
      else if \<not> Signed c then Inr (StatePresent, tagOf raw)
      else if length key = 0 then Inl ErrNoSecret
      else case cutLast raw (CHR ''.'') of
        None \<Rightarrow> Inr (StateInvalid, [])
      | Some (rest, sig) \<Rightarrow>
          (case cutLast rest (CHR ''.'') of
             None \<Rightarrow> Inr (StateInvalid, [])
           | Some (payload, stamp) \<Rightarrow>
               if length sig \<noteq> macChars \<or> sig \<noteq> mac key (c_Name c) (payload @ ''.'' @ stamp)
                 then Inr (StateInvalid, [])
               else case ParseInt stamp 36 of
                 None \<Rightarrow> Inr (StateInvalid, [])
               | Some secs \<Rightarrow>
                   (let issued = time_Unix secs
                    in if issued > now + Minute then Inr (StateInvalid, [])
                       else if c_Renew c > 0 \<and> time_Sub now issued \<ge> c_Renew c
                         then Inr (StateExpired, tagOf payload)
                       else Inr (StatePresent, tagOf payload))))"

subsection \<open>Declarations\<close>

record file_recipe =
  fr_From :: string
  fr_Default :: string
  fr_Random :: "int option"
  fr_MaxLen :: int

record file_cookie =
  fc_Name :: string
  fc_Path :: string
  fc_MaxAge :: string
  fc_Sign :: string
  fc_Renew :: string
  fc_Value :: "file_recipe option"

datatype cookie_err =
  CookieName string | CookiePath string | CookieSign string | BadTTL string
| MaxAgeShort | RenewShort | RenewUnsigned | RenewLong | BadFrom operand_err
| BadRandom int | BadMaxLen int | NoSource

text \<open>\<open>parseTTL\<close>: whole days, or a duration of the library; days are multiplied in 64 bits.\<close>

definition parseTTL :: "string \<Rightarrow> cookie_err + duration" where
  "parseTTL raw0 =
     (let raw = TrimSpace raw0
      in if HasSuffix raw ''d'' then
           (case Atoi (TrimSuffix raw ''d'') of
              None \<Rightarrow> Inl (BadTTL raw)
            | Some n \<Rightarrow>
                if n < 0 then Inl (BadTTL raw) else Inr (wrap64 (wrap64 (n * 24) * Hour)))
         else
           (case ParseDuration raw of
              None \<Rightarrow> Inl (BadTTL raw)
            | Some d \<Rightarrow> if d < 0 then Inl (BadTTL raw) else Inr d))"

definition parse_max_age :: "file_cookie \<Rightarrow> cookie_err + (duration \<times> bool)" where
  "parse_max_age fc =
     (let s = TrimSpace (fc_MaxAge fc)
      in if s = [] then Inr (0, False)
         else case parseTTL s of
           Inl e \<Rightarrow> Inl e
         | Inr d \<Rightarrow> if d < Second then Inl MaxAgeShort else Inr (d, True))"

definition parse_renew :: "file_cookie \<Rightarrow> string \<Rightarrow> duration \<times> bool \<Rightarrow> cookie_err + duration" where
  "parse_renew fc sign ma =
     (let s = TrimSpace (fc_Renew fc)
      in if s = [] then Inr 0
         else case parseTTL s of
           Inl e \<Rightarrow> Inl e
         | Inr d \<Rightarrow>
             if d < Second then Inl RenewShort
             else if sign \<noteq> SignHMAC then Inl RenewUnsigned
             else if snd ma \<and> d \<ge> fst ma then Inl RenewLong
             else Inr d)"

definition parse_recipe :: "unicode \<Rightarrow> file_cookie \<Rightarrow> cookie_err + recipe" where
  "parse_recipe u fc =
     (let rec = (case fc_Value fc of Some r \<Rightarrow> r
                 | None \<Rightarrow> \<lparr>fr_From = [], fr_Default = [], fr_Random = None, fr_MaxLen = 0\<rparr>);
          s = TrimSpace (fr_From rec);
          deflt = sanitizeTag (TrimSpace (fr_Default rec)) MaxLenLimit;
          random = (case fr_Random rec of Some n \<Rightarrow> n | None \<Rightarrow> RandomDefault);
          maxlen = (if fr_MaxLen rec = 0 then MaxLenDefault else fr_MaxLen rec)
      in case (if s = [] then Inr None
               else (case ParseOperand u s of Inl e \<Rightarrow> Inl (BadFrom e) | Inr op \<Rightarrow> Inr (Some op))) of
           Inl e \<Rightarrow> Inl e
         | Inr from \<Rightarrow>
             if random < 0 \<or> random > RandomMax then Inl (BadRandom random)
             else if maxlen < 1 \<or> maxlen > MaxLenLimit then Inl (BadMaxLen maxlen)
             else if from = None \<and> deflt = [] \<and> random = 0 then Inl NoSource
             else Inr \<lparr>v_From = from, v_Default = deflt, v_Random = random, v_MaxLen = maxlen\<rparr>)"

definition parseCookie :: "unicode \<Rightarrow> file_cookie \<Rightarrow> cookie_err + cookie" where
  "parseCookie u fc =
     (let name = TrimSpace (fc_Name fc);
          path0 = TrimSpace (fc_Path fc);
          path = (if path0 = [] then ''/'' else path0);
          sign0 = TrimSpace (fc_Sign fc);
          sign = (if sign0 = [] then SignHMAC else sign0)
      in if \<not> cookieNameRe name then Inl (CookieName name)
         else if \<not> HasPrefix path ''/'' then Inl (CookiePath path)
         else if sign \<noteq> SignHMAC \<and> sign \<noteq> SignNone then Inl (CookieSign sign)
         else case parse_max_age fc of
           Inl e \<Rightarrow> Inl e
         | Inr ma \<Rightarrow>
             (case parse_renew fc sign ma of
                Inl e \<Rightarrow> Inl e
              | Inr renew \<Rightarrow>
                  (case parse_recipe u fc of
                     Inl e \<Rightarrow> Inl e
                   | Inr rec \<Rightarrow>
                       Inr \<lparr>c_Name = name, c_Path = path, c_MaxAge = fst ma,
                            c_MaxAgeSet = snd ma, c_Sign = sign, c_Renew = renew,
                            c_Value = rec\<rparr>)))"

subsection \<open>Sanitised text\<close>

definition clean :: "char \<Rightarrow> char" where
  "clean c = (if tag_char c then c else CHR ''_'')"

lemma tag_char_clean [simp]: "tag_char (clean c)"
  by (simp add: clean_def tag_char_def)

lemma clean_id [simp]: "tag_char c \<Longrightarrow> clean c = c"
  by (simp add: clean_def)

lemma sanitize_loop_eq: "sanitize_loop raw n = take n (map clean raw)"
  by (induction raw n rule: sanitize_loop.induct) (auto simp: clean_def)

lemma sanitizeTag_eq: "sanitizeTag raw limit = take (nat (min limit 128)) (map clean raw)"
  by (auto simp: sanitizeTag_def sanitize_loop_eq cookie_limits min_def)

lemma sanitizeTag_chars: "c \<in> set (sanitizeTag raw limit) \<Longrightarrow> tag_char c"
  by (auto simp: sanitizeTag_eq dest!: in_set_takeD)

lemma length_sanitizeTag: "length (sanitizeTag raw limit) \<le> nat (min limit 128)"
  by (simp add: sanitizeTag_eq)

lemma tilde_not_tag [simp]: "\<not> tag_char (CHR ''~'')"
  by (simp add: tag_char_def char_class_defs)

lemma tagOf_no_tilde: "CHR ''~'' \<notin> set v \<Longrightarrow> tagOf v = v"
  by (simp add: tagOf_def split: option.splits) (metis IndexByte_None option.distinct(1))

lemma tagOf_append: "CHR ''~'' \<notin> set t \<Longrightarrow> tagOf (t @ CHR ''~'' # r) = t"
  by (simp add: tagOf_def)

subsection \<open>Cutting a signed value apart\<close>

lemma cutLast_append: "sep \<notin> set b \<Longrightarrow> cutLast (a @ sep # b) sep = Some (a, b)"
  by (simp add: cutLast_def)

lemma cutLast_Some: "cutLast s sep = Some (a, b) \<longleftrightarrow> s = a @ sep # b \<and> sep \<notin> set b"
proof
  assume "cutLast s sep = Some (a, b)"
  then show "s = a @ sep # b \<and> sep \<notin> set b"
    by (auto simp: cutLast_def split: option.splits elim!: LastIndexByte_SomeE)
qed (simp add: cutLast_append)

lemma length_mac [simp]: "length (mac key name payload) = macChars"
  by (simp add: mac_def Let_def length_b64url [of _ 4] cookie_limits)

lemma mac_chars: "c \<in> set (mac key name payload) \<Longrightarrow> tag_char c"
  using b64url_chars
  by (fastforce simp: mac_def Let_def tag_char_def b64url_class_def isAlnum_def dest!: in_set_takeD)

lemma dot_not_tag [simp]: "\<not> tag_char (CHR ''.'')"
  by (simp add: tag_char_def char_class_defs)

lemma dot_not_in_mac [simp]: "CHR ''.'' \<notin> set (mac key name payload)"
  using mac_chars dot_not_tag by blast

lemma stamp_chars: "c \<in> set (FormatInt i 36) \<Longrightarrow> tag_char c"
  using FormatInt_chars [of 36 c i] by (auto simp: tag_char_def base36_def)

lemma dot_not_in_stamp [simp]: "CHR ''.'' \<notin> set (FormatInt i 36)"
  using stamp_chars dot_not_tag by blast

lemma FormatInt_nonempty [simp]: "FormatInt i b \<noteq> []"
  by (simp add: FormatInt_def)

subsection \<open>What \<open>Issue\<close> builds\<close>

text \<open>The value before the signature.\<close>

definition issue_payload :: "cookie \<Rightarrow> string \<Rightarrow> (nat \<Rightarrow> char) \<Rightarrow> string" where
  "issue_payload c raw f =
     (let tag = sanitizeTag raw (if v_MaxLen (c_Value c) \<le> 0 then MaxLenDefault else v_MaxLen (c_Value c))
      in if v_Random (c_Value c) > 0
         then tag @ (if tag \<noteq> [] then ''~'' else []) @
              hex_encode (map f [0..<nat (v_Random (c_Value c))])
         else tag)"

definition signed_text :: "cookie \<Rightarrow> string \<Rightarrow> gotime \<Rightarrow> string \<Rightarrow> string" where
  "signed_text c payload now key =
     (let stamp = FormatInt (unix_of now) 36
      in payload @ ''.'' @ stamp @ ''.'' @ mac key (c_Name c) (payload @ ''.'' @ stamp))"

lemma issue_value_Inr:
  assumes "issue_value c raw now key rnd = Inr (value, tag)"
  obtains f where "v_Random (c_Value c) > 0 \<longrightarrow> rnd = Some f"
    and "issue_payload c raw f \<noteq> []" and "tag = tagOf (issue_payload c raw f)"
    and "Signed c \<longrightarrow> key \<noteq> []"
    and "value = (if Signed c then signed_text c (issue_payload c raw f) now key
                  else issue_payload c raw f)"
    and "length value \<le> ValueMax"
proof -
  define f where "f = (case rnd of Some g \<Rightarrow> g | None \<Rightarrow> (\<lambda>_. CHR ''0''))"
  have "v_Random (c_Value c) > 0 \<longrightarrow> rnd = Some f"
    using assms by (auto simp: f_def issue_value_def Let_def split: option.splits)
  moreover from this assms have "issue_payload c raw f \<noteq> []" "tag = tagOf (issue_payload c raw f)"
    "Signed c \<longrightarrow> key \<noteq> []"
    "value = (if Signed c then signed_text c (issue_payload c raw f) now key
              else issue_payload c raw f)" "length value \<le> ValueMax"
    by (auto simp: issue_value_def issue_payload_def signed_text_def Let_def f_def
        split: if_splits option.splits)
  ultimately show thesis by (rule that)
qed

lemma cookie_Issue_Inr:
  assumes "cookie_Issue u src c s now key rnd = (Inr (value, tag), s')"
  obtains raw where "issue_value c raw now key rnd = Inr (value, tag)"
  using assms by (auto simp: cookie_Issue_def split: prod.splits)

lemma hex_lower_tag: "hex_lower c \<Longrightarrow> tag_char c"
  by (auto simp: hex_lower_def tag_char_def char_class_defs)

lemma issue_payload_chars: "c \<in> set (issue_payload ck raw f) \<Longrightarrow> tag_char c \<or> c = CHR ''~''"
  by (auto simp: issue_payload_def Let_def dest: sanitizeTag_chars hex_encode_chars hex_lower_tag
      split: if_splits)

lemma length_issue_payload:
  "v_Random (c_Value c) \<le> 32 \<Longrightarrow> length (issue_payload c raw f) \<le> 193"
  using length_sanitizeTag [of raw "if v_MaxLen (c_Value c) \<le> 0 then MaxLenDefault else v_MaxLen (c_Value c)"]
  by (auto simp: issue_payload_def Let_def min_def split: if_splits)

lemma length_signed_text:
  assumes "in64 (unix_of now)"
  shows "length (signed_text c payload now key) \<le> length payload + 32"
  using FormatInt_length36 [OF assms] by (simp add: signed_text_def Let_def cookie_limits)

lemma signed_text_chars:
  "ch \<in> set (signed_text c payload now key) \<Longrightarrow> ch \<in> set payload \<or> tag_char ch \<or> ch = CHR ''.''"
  by (auto simp: signed_text_def Let_def dest: mac_chars stamp_chars)

lemma issue_payload_Nil_iff:
  assumes "0 < v_MaxLen (c_Value c)"
  shows "issue_payload c raw f = [] \<longleftrightarrow> raw = [] \<and> \<not> 0 < v_Random (c_Value c)"
  using assms by (auto simp: issue_payload_def Let_def sanitizeTag_eq)

subsection \<open>Reading back\<close>

text \<open>The state a cookie issued at \<open>now\<close> has at \<open>now'\<close>.\<close>

definition state_at :: "cookie \<Rightarrow> gotime \<Rightarrow> gotime \<Rightarrow> string" where
  "state_at c now now' =
     (if \<not> Signed c then StatePresent
      else if unix_of now * Second > now' + Minute then StateInvalid
      else if c_Renew c > 0 \<and> time_Sub now' (unix_of now * Second) \<ge> c_Renew c then StateExpired
      else StatePresent)"

lemma cookie_Read_signed_text:
  assumes "Signed c" "key \<noteq> []" "sane_time now"
    and "length (signed_text c payload now key) \<le> ValueMax"
  shows "cookie_Read c (signed_text c payload now key) now' key =
     Inr (state_at c now now', if state_at c now now' = StateInvalid then [] else tagOf payload)"
proof -
  define stamp where "stamp = FormatInt (unix_of now) 36"
  define sig where "sig = mac key (c_Name c) (payload @ ''.'' @ stamp)"
  have raw: "signed_text c payload now key = (payload @ CHR ''.'' # stamp) @ CHR ''.'' # sig"
    by (simp add: signed_text_def Let_def stamp_def sig_def)
  have cut1: "cutLast (signed_text c payload now key) (CHR ''.'') = Some (payload @ CHR ''.'' # stamp, sig)"
    unfolding raw by (rule cutLast_append) (simp add: sig_def)
  have cut2: "cutLast (payload @ CHR ''.'' # stamp) (CHR ''.'') = Some (payload, stamp)"
    by (rule cutLast_append) (simp add: stamp_def)
  have secs: "ParseInt stamp 36 = Some (unix_of now)"
    using assms(3) by (simp add: stamp_def ParseInt_FormatInt sane_time_def)
  have "signed_text c payload now key \<noteq> []" by (simp add: raw)
  then show ?thesis
    using assms cut1 cut2 secs
    by (simp add: cookie_Read_def sig_def state_at_def time_Unix_unix_of Let_def)
qed

subsection \<open>Well-formed declarations\<close>

definition wf_recipe :: "unicode \<Rightarrow> recipe \<Rightarrow> bool" where
  "wf_recipe u r \<longleftrightarrow>
     (\<forall>op. v_From r = Some op \<longrightarrow> wf_operand u op) \<and>
     list_all tag_char (v_Default r) \<and> length (v_Default r) \<le> 128 \<and>
     0 \<le> v_Random r \<and> v_Random r \<le> 32 \<and> 1 \<le> v_MaxLen r \<and> v_MaxLen r \<le> 128 \<and>
     (v_From r \<noteq> None \<or> v_Default r \<noteq> [] \<or> v_Random r > 0)"

definition wf_cookie :: "unicode \<Rightarrow> cookie \<Rightarrow> bool" where
  "wf_cookie u c \<longleftrightarrow>
     cookieNameRe (c_Name c) \<and> HasPrefix (c_Path c) ''/'' \<and>
     c_Sign c \<in> {SignHMAC, SignNone} \<and>
     (if c_MaxAgeSet c then Second \<le> c_MaxAge c else c_MaxAge c = 0) \<and>
     (c_Renew c = 0 \<or>
        Second \<le> c_Renew c \<and> Signed c \<and> (c_MaxAgeSet c \<longrightarrow> c_Renew c < c_MaxAge c)) \<and>
     wf_recipe u (c_Value c)"

lemma parseTTL_in64: "parseTTL raw = Inr d \<Longrightarrow> in64 d"
  by (auto simp: parseTTL_def Let_def ParseDuration_in64 split: if_splits)

lemma parse_max_age_wf:
  "parse_max_age fc = Inr ma \<Longrightarrow> if snd ma then Second \<le> fst ma else fst ma = 0"
  by (auto simp: parse_max_age_def Let_def not_less split: if_splits)

lemma parse_renew_wf:
  "parse_renew fc sign ma = Inr d \<Longrightarrow>
     d = 0 \<or> Second \<le> d \<and> sign = SignHMAC \<and> (snd ma \<longrightarrow> d < fst ma)"
  by (auto simp: parse_renew_def Let_def not_less not_le split: if_splits)

lemma parse_recipe_wf:
  assumes "parse_recipe u fc = Inr r"
  shows "wf_recipe u r"
proof -
  have "list_all tag_char (sanitizeTag x MaxLenLimit)" for x
    using sanitizeTag_chars by (auto simp: list_all_iff)
  moreover have "length (sanitizeTag x MaxLenLimit) \<le> 128" for x
    using length_sanitizeTag [of x MaxLenLimit] by (simp add: cookie_limits)
  moreover have "wf_operand u op" if "ParseOperand u t = Inr op" for t op
    using ParseOperand_wf_aux [OF that] by simp
  ultimately show ?thesis
    using assms
    by (auto simp: parse_recipe_def wf_recipe_def Let_def cookie_limits not_less
        split: if_splits option.splits)
qed

lemma parseCookie_wf_aux:
  assumes "parseCookie u fc = Inr c"
  shows "wf_cookie u c"
proof -
  from assms obtain ma where ma: "parse_max_age fc = Inr ma" "c_MaxAge c = fst ma"
    "c_MaxAgeSet c = snd ma"
    by (auto simp: parseCookie_def Let_def)
  moreover from assms ma have "parse_renew fc (c_Sign c) ma = Inr (c_Renew c)"
    by (auto simp: parseCookie_def Let_def)
  moreover from assms have "parse_recipe u fc = Inr (c_Value c)" "cookieNameRe (c_Name c)"
    "HasPrefix (c_Path c) ''/''" "c_Sign c \<in> {SignHMAC, SignNone}"
    by (auto simp: parseCookie_def Let_def split: if_splits)
  ultimately show ?thesis
    using parse_max_age_wf [of fc ma] parse_renew_wf [of fc "c_Sign c" ma "c_Renew c"]
      parse_recipe_wf [of u fc "c_Value c"]
    by (simp add: wf_cookie_def Signed_def)
qed

lemma wrap64_shift: "wrap64 (x + 2 ^ 64 * q) = wrap64 x"
proof -
  have "(x + 2 ^ 64 * q + 2 ^ 63) mod 2 ^ 64 = (x + 2 ^ 63 + 2 ^ 64 * q) mod 2 ^ 64"
    by (simp only: ac_simps)
  then show ?thesis by (simp only: wrap64_def mod_mult_self2)
qed

lemma wrap64_mult: "wrap64 (wrap64 a * b) = wrap64 (a * b)"
proof -
  define q where "q = (a + 2 ^ 63) div 2 ^ 64"
  have "wrap64 a = a - 2 ^ 64 * q"
    using div_mult_mod_eq [of "a + 2 ^ 63" "2 ^ 64"]
    by (simp only: wrap64_def q_def mult.commute [of "2 ^ 64"])
  then have "wrap64 a * b = a * b + 2 ^ 64 * (- (q * b))"
    by (simp add: left_diff_distrib)
  then show ?thesis by (simp only: wrap64_shift)
qed

lemma wrap64_fix_iff: "wrap64 x = x \<longleftrightarrow> in64 x"
  using in64_wrap64 [of x] wrap64_id by metis

subsection \<open>Round trip\<close>

lemma issue_read_roundtrip_aux:
  assumes "cookie_Issue u src c s now key rnd = (Inr (value, tag), s')"
    and "sane_time now"
  shows "cookie_Read c value now' key =
     Inr (state_at c now now', if state_at c now now' = StateInvalid then [] else tag)"
proof -
  from assms(1) obtain raw where "issue_value c raw now key rnd = Inr (value, tag)"
    by (rule cookie_Issue_Inr)
  then obtain f where "v_Random (c_Value c) > 0 \<longrightarrow> rnd = Some f"
    and f: "issue_payload c raw f \<noteq> []" "tag = tagOf (issue_payload c raw f)"
    "Signed c \<longrightarrow> key \<noteq> []"
    "value = (if Signed c then signed_text c (issue_payload c raw f) now key
              else issue_payload c raw f)" "length value \<le> ValueMax"
    by (rule issue_value_Inr)
  show ?thesis
  proof (cases "Signed c")
    case True
    with f assms(2) show ?thesis by (simp add: cookie_Read_signed_text)
  next
    case False
    with f show ?thesis by (simp add: cookie_Read_def state_at_def)
  qed
qed

lemma issue_alphabet_aux:
  assumes "cookie_Issue u src c s now key rnd = (Inr (value, tag), s')"
  shows "value \<noteq> [] \<and> length value \<le> 256 \<and>
     (\<forall>ch \<in> set value. tag_char ch \<or> ch = CHR ''~'' \<or> ch = CHR ''.'')"
proof -
  from assms obtain raw where "issue_value c raw now key rnd = Inr (value, tag)"
    by (rule cookie_Issue_Inr)
  then obtain f where "v_Random (c_Value c) > 0 \<longrightarrow> rnd = Some f"
    and f: "issue_payload c raw f \<noteq> []" "tag = tagOf (issue_payload c raw f)"
    "Signed c \<longrightarrow> key \<noteq> []" "value = (if Signed c then signed_text c (issue_payload c raw f) now key
              else issue_payload c raw f)" "length value \<le> ValueMax"
    by (rule issue_value_Inr)
  moreover have "signed_text c (issue_payload c raw f) now key \<noteq> []"
    by (simp add: signed_text_def Let_def)
  ultimately show ?thesis
    using issue_payload_chars signed_text_chars
    by (auto simp: cookie_limits split: if_splits) (metis issue_payload_chars signed_text_chars)+
qed

subsection \<open>Properties\<close>

text \<open>
  C2.  Round trip of a cookie.  A value that \<open>Issue\<close> returned at time \<open>now\<close> is read back by
  \<open>Read\<close> at any time \<open>now'\<close> with the same key: the state is decided by the two clocks alone
  (\<open>state_at\<close>: present, expired after \<open>renew_after\<close>, invalid only when the reader's clock is
  more than a minute behind), and the value of the cookie is the one \<open>Issue\<close> reported.
\<close>

theorem issue_read_roundtrip:
  assumes "cookie_Issue u src c s now key rnd = (Inr (value, tag), s')"
    and "sane_time now"
  shows "cookie_Read c value now' key =
     Inr (state_at c now now', if state_at c now now' = StateInvalid then [] else tag)"
  using assms by (rule issue_read_roundtrip_aux)

text \<open>
  A value that \<open>Issue\<close> returns is not empty, fits 256 bytes and holds only letters,
  digits and \<^verbatim>\<open>_ - ~ .\<close>, so it can stand in a \<^verbatim>\<open>Set-Cookie\<close> header as it is.
\<close>

theorem issue_alphabet:
  assumes "cookie_Issue u src c s now key rnd = (Inr (value, tag), s')"
  shows "value \<noteq> [] \<and> length value \<le> 256 \<and>
     (\<forall>ch \<in> set value. tag_char ch \<or> ch = CHR ''~'' \<or> ch = CHR ''.'')"
  using assms by (rule issue_alphabet_aux)

text \<open>
  For a declaration that passed the parser, \<open>Issue\<close> succeeds exactly when the random bytes
  are there if it wants them, there is a value or a number to issue, and a signed cookie has a
  key; the length limit of 256 bytes is never what stops it.
\<close>

theorem issue_succeeds_iff:
  assumes "wf_cookie u c" and "sane_time now"
  shows "(\<exists>vt. fst (cookie_Issue u src c s now key rnd) = Inr vt) \<longleftrightarrow>
     (0 < v_Random (c_Value c) \<longrightarrow> rnd \<noteq> None) \<and>
     (fst (issue_raw u src c s) \<noteq> [] \<or> 0 < v_Random (c_Value c)) \<and>
     (Signed c \<longrightarrow> key \<noteq> [])"
proof -
  let ?raw = "fst (issue_raw u src c s)"
  define f where "f = (case rnd of Some g \<Rightarrow> g | None \<Rightarrow> (\<lambda>_. CHR ''0''))"
  have wf: "v_Random (c_Value c) \<le> 32" "0 < v_MaxLen (c_Value c)"
    using assms(1) by (auto simp: wf_cookie_def wf_recipe_def)
  have p: "length (issue_payload c ?raw f) \<le> 193" using wf(1) by (rule length_issue_payload)
  have t: "length (signed_text c (issue_payload c ?raw f) now key) \<le> 225"
    using length_signed_text [of now c "issue_payload c ?raw f" key] p assms(2)
    by (simp add: sane_time_def)
  have "issue_value c ?raw now key rnd =
     (if 0 < v_Random (c_Value c) \<and> rnd = None then Inl RandomFailed
      else if issue_payload c ?raw f = [] then Inl ErrNoValue
      else if Signed c \<and> key = [] then Inl ErrNoSecret
      else Inr (if Signed c then signed_text c (issue_payload c ?raw f) now key
                else issue_payload c ?raw f, tagOf (issue_payload c ?raw f)))"
    using p t
    by (auto simp: issue_value_def issue_payload_def signed_text_def Let_def f_def cookie_limits
        split: option.splits)
  moreover have "fst (cookie_Issue u src c s now key rnd) = issue_value c ?raw now key rnd"
    by (simp add: cookie_Issue_def split: prod.splits)
  ultimately have "(\<exists>vt. fst (cookie_Issue u src c s now key rnd) = Inr vt) \<longleftrightarrow>
     \<not> (0 < v_Random (c_Value c) \<and> rnd = None) \<and> issue_payload c ?raw f \<noteq> [] \<and>
     \<not> (Signed c \<and> key = [])"
    by simp
  then show ?thesis
    using issue_payload_Nil_iff [OF wf(2)] by auto
qed

text \<open>
  C3.  Authenticity.  A signed cookie is read as present or expired exactly when the presented
  string is at most 256 bytes and has the form \<open>payload.stamp.signature\<close> where the signature is
  the one the key and the cookie's own name give for \<open>payload.stamp\<close>, the stamp is a number, and
  the time it names is at most a minute in the future; the reported value is the part of the
  payload before the tilde.
\<close>

theorem read_authentic:
  assumes "Signed c" and "key \<noteq> []"
  shows "cookie_Read c raw now key = Inr (st, tag) \<and> st \<in> {StatePresent, StateExpired} \<longleftrightarrow>
     (\<exists>payload stamp secs.
        raw = payload @ ''.'' @ stamp @ ''.'' @ mac key (c_Name c) (payload @ ''.'' @ stamp) \<and>
        length raw \<le> 256 \<and> CHR ''.'' \<notin> set stamp \<and> ParseInt stamp 36 = Some secs \<and>
        time_Unix secs \<le> now + Minute \<and> tag = tagOf payload \<and>
        st = (if c_Renew c > 0 \<and> time_Sub now (time_Unix secs) \<ge> c_Renew c
              then StateExpired else StatePresent))"
    (is "?L \<longleftrightarrow> ?R")
proof
  assume ?L
  with assms obtain rest sig payload stamp secs where
    "cutLast raw (CHR ''.'') = Some (rest, sig)" "cutLast rest (CHR ''.'') = Some (payload, stamp)"
    "sig = mac key (c_Name c) (payload @ ''.'' @ stamp)" "ParseInt stamp 36 = Some secs"
    "length raw \<le> 256" "time_Unix secs \<le> now + Minute" "tag = tagOf payload"
    "st = (if c_Renew c > 0 \<and> time_Sub now (time_Unix secs) \<ge> c_Renew c
           then StateExpired else StatePresent)"
    by (auto simp: cookie_Read_def Let_def cookie_limits split: if_splits option.splits prod.splits)
  then show ?R
    by (intro exI [of _ payload] exI [of _ stamp] exI [of _ secs]) (auto simp: cutLast_Some)
next
  assume ?R
  then obtain payload stamp secs where
    raw: "raw = (payload @ CHR ''.'' # stamp) @ CHR ''.'' # mac key (c_Name c) (payload @ ''.'' @ stamp)"
    and rest: "length raw \<le> 256" "CHR ''.'' \<notin> set stamp" "ParseInt stamp 36 = Some secs"
      "time_Unix secs \<le> now + Minute" "tag = tagOf payload"
      "st = (if c_Renew c > 0 \<and> time_Sub now (time_Unix secs) \<ge> c_Renew c
             then StateExpired else StatePresent)"
    by auto
  have "cutLast raw (CHR ''.'') =
      Some (payload @ CHR ''.'' # stamp, mac key (c_Name c) (payload @ ''.'' @ stamp))"
    unfolding raw by (rule cutLast_append) simp
  moreover have "cutLast (payload @ CHR ''.'' # stamp) (CHR ''.'') = Some (payload, stamp)"
    using rest(2) by (rule cutLast_append)
  moreover have "raw \<noteq> []" by (simp add: raw)
  ultimately show ?L
    using assms rest by (auto simp: cookie_Read_def Let_def cookie_limits)
qed

text \<open>
  Every declaration the parser accepts is well formed: a cookie name, a path that starts
  with a slash, a known signature kind, ages of at least a second, a renewal only on a signed
  cookie and before its maximum age, a recipe within its limits and with a source.
\<close>

theorem parseCookie_wf:
  assumes "parseCookie u fc = Inr c"
  shows "wf_cookie u c"
  using assms by (rule parseCookie_wf_aux)

text \<open>
  A time to live in days means that many days exactly up to 106751 days; from 106752 days
  on the multiplication in 64 bits wraps and the parser returns another duration without an
  error.
\<close>

theorem parseTTL_days:
  assumes "TrimSpace raw = ds @ ''d''" and "Atoi ds = Some n" and "0 \<le> n"
  shows "parseTTL raw = Inr (n * 24 * Hour) \<longleftrightarrow> n \<le> 106751"
proof -
  have "parseTTL raw = Inr (wrap64 (n * 24 * Hour))"
    using assms by (simp add: parseTTL_def wrap64_mult)
  moreover have "in64 (n * 24 * Hour) \<longleftrightarrow> n \<le> 106751"
    using assms(3) by (auto simp: in64_def Hour_def)
  ultimately show ?thesis by (simp add: wrap64_fix_iff)
qed

subsection \<open>Witnesses\<close>

text \<open>The example of the README: a signed traffic-source cookie with a fallback value.\<close>

definition src_cookie :: cookie where
  "src_cookie =
     \<lparr>c_Name = ''waf_src'', c_Path = ''/'', c_MaxAge = 30 * 24 * Hour, c_MaxAgeSet = True,
      c_Sign = ''hmac'', c_Renew = 7 * 24 * Hour,
      c_Value = \<lparr>v_From = Some \<lparr>op_Raw = ''$arg_utm_source'', op_Kind = OperandArg,
                              op_Name = ''utm_source'', op_All = False\<rparr>,
                 v_Default = ''direct'', v_Random = 0, v_MaxLen = 64\<rparr>\<rparr>"

definition ascii_only :: unicode where
  "ascii_only = \<lparr>uni_lower = id, uni_upper = id, uni_fold = (=)\<rparr>"

definition utm_view :: view where
  "utm_view = \<lparr>v_Field = (\<lambda>_. []), v_Var = (\<lambda>_. ([], False)), v_Headers = ([], True),
     v_Cookies = ([], True), v_Args = ([(''utm_source'', ''yandex-direct'')], True)\<rparr>"

definition demo_key :: string where "demo_key = ''0123456789abcdef''"

lemmas demo_defs = src_cookie_def ascii_only_def utm_view_def demo_key_def

lemma demo_raw: "issue_raw ascii_only view_ops src_cookie utm_view = (''yandex-direct'', utm_view)"
  by (simp add: demo_defs issue_raw_def operand_Values_def op_first_def view_ops_def first_pair_def
      nonEmpty_def)

lemma demo_sanitize: "sanitizeTag ''yandex-direct'' 64 = ''yandex-direct''"
  by (simp add: sanitizeTag_eq clean_def tag_char_def char_class_defs)

lemma demo_wf: "wf_cookie ascii_only src_cookie"
  by (simp add: wf_cookie_def wf_recipe_def wf_operand_def src_cookie_def cookieNameRe_def
      matches_class_def name_char_def char_class_defs HasPrefix_def Signed_def duration_defs
      nginxNameRe_def tag_char_def)

definition demo_value :: string where
  "demo_value = signed_text src_cookie ''yandex-direct'' (1700000000 * Second) demo_key"

lemma demo_stamp: "length (FormatInt 1700000000 36) \<le> 14"
  by (rule FormatInt_length36) (simp add: in64_def)

lemma demo_sane: "sane_time (1700000000 * Second)"
  by (simp add: sane_time_def unix_of_def in64_def Second_def unixToInternal_def)

lemma demo_issue:
  "cookie_Issue ascii_only view_ops src_cookie utm_view (1700000000 * Second) demo_key None =
     (Inr (demo_value, ''yandex-direct''), utm_view)"
proof -
  have "length demo_value \<le> 13 + 32"
    using length_signed_text [of "1700000000 * Second" src_cookie "''yandex-direct''" demo_key] demo_sane
    by (simp add: demo_value_def sane_time_def)
  then have "length demo_value \<le> ValueMax" by (simp add: cookie_limits)
  moreover have "tagOf ''yandex-direct'' = ''yandex-direct''" by (rule tagOf_no_tilde) simp
  ultimately have "issue_value src_cookie ''yandex-direct'' (1700000000 * Second) demo_key None =
     Inr (demo_value, ''yandex-direct'')"
    by (simp add: issue_value_def Let_def demo_value_def signed_text_def demo_sanitize
        src_cookie_def demo_key_def Signed_def)
  then show ?thesis by (simp add: cookie_Issue_def demo_raw)
qed

theorem issue_read_roundtrip_witness:
  "cookie_Read src_cookie demo_value (1700000000 * Second + Hour) demo_key =
     Inr (StatePresent, ''yandex-direct'')"
  using issue_read_roundtrip [OF demo_issue demo_sane, of "1700000000 * Second + Hour"]
  by (simp add: state_at_def src_cookie_def Signed_def unix_of_def time_Sub_def duration_defs)

theorem issue_alphabet_witness:
  "demo_value \<noteq> [] \<and> length demo_value \<le> 256"
  using issue_alphabet [OF demo_issue] by simp

theorem issue_succeeds_iff_witness:
  "\<not> (\<exists>vt. fst (cookie_Issue ascii_only view_ops src_cookie utm_view (1700000000 * Second) [] None) = Inr vt)"
  using issue_succeeds_iff [OF demo_wf demo_sane, of view_ops utm_view "[]" None]
  by (simp add: src_cookie_def Signed_def)

theorem read_authentic_witness:
  "cookie_Read src_cookie ''forged'' 0 demo_key \<noteq> Inr (StatePresent, ''forged'')"
  using read_authentic [of src_cookie demo_key "''forged''" 0 StatePresent "''forged''"]
  by (auto simp: src_cookie_def Signed_def demo_key_def Cons_eq_append_conv)

definition demo_file_cookie :: file_cookie where
  "demo_file_cookie = \<lparr>fc_Name = ''uid'', fc_Path = [], fc_MaxAge = ''365d'', fc_Sign = [],
     fc_Renew = [], fc_Value = Some \<lparr>fr_From = [], fr_Default = [], fr_Random = Some 8, fr_MaxLen = 0\<rparr>\<rparr>"

definition uid_cookie :: cookie where
  "uid_cookie = \<lparr>c_Name = ''uid'', c_Path = ''/'', c_MaxAge = 365 * 24 * Hour, c_MaxAgeSet = True,
     c_Sign = ''hmac'', c_Renew = 0,
     c_Value = \<lparr>v_From = None, v_Default = [], v_Random = 8, v_MaxLen = 64\<rparr>\<rparr>"

text \<open>Rules that evaluate the library functions on concrete text.\<close>

lemmas text_eval =
  TrimSpace_all_solid solid_def Atoi_def ParseInt_def ParseUint_def digit_val_def char_class_defs
  HasSuffix_def HasPrefix_def TrimSuffix_def suffix_to_prefix

lemma parseTTL_365d: "parseTTL ''365d'' = Inr (365 * 24 * Hour)"
  by (simp add: parseTTL_def text_eval wrap64_def Hour_def)

lemma demo_parse: "parseCookie ascii_only demo_file_cookie = Inr uid_cookie"
  by (simp add: parseCookie_def demo_file_cookie_def parse_max_age_def parse_renew_def
      parse_recipe_def uid_cookie_def parseTTL_365d TrimSpace_all_solid solid_def cookieNameRe_def
      matches_class_def name_char_def char_class_defs HasPrefix_def duration_defs cookie_limits
      sanitizeTag_def)

theorem parseCookie_wf_witness:
  "parseCookie ascii_only demo_file_cookie = Inr uid_cookie \<and> wf_cookie ascii_only uid_cookie"
  using demo_parse parseCookie_wf [OF demo_parse] by simp

theorem parseTTL_days_witness:
  "parseTTL ''30d'' = Inr (30 * 24 * Hour) \<and> parseTTL ''106752d'' \<noteq> Inr (106752 * 24 * Hour)"
proof -
  have 1: "TrimSpace ''30d'' = ''30'' @ ''d''" "Atoi ''30'' = Some 30"
    by (simp_all add: text_eval)
  have 2: "TrimSpace ''106752d'' = ''106752'' @ ''d''" "Atoi ''106752'' = Some 106752"
    by (simp_all add: text_eval)
  show ?thesis using parseTTL_days [OF 1] parseTTL_days [OF 2] by simp
qed

text \<open>The wrapped duration is negative, and the parser does not refuse it.\<close>

lemma parseTTL_overflow: "parseTTL ''106752d'' = Inr (- 9223371273709551616)"
  by (simp add: parseTTL_def text_eval wrap64_def Hour_def)

end
