(* ===== verification/Protocol.thy ===== *)
theory Protocol
  imports GoStrings
begin

text \<open>
  The messages of the bus (\<^verbatim>\<open>internal/protocol/protocol.go\<close>): requests, replies, actions
  and markers, with the checks a message passes before the program acts on it.  Decoding JSON
  text into a request and encoding a reply are the job of the JSON library and are arguments
  (\<open>unmarshal\<close>, \<open>marshal\<close>); what the program checks about the decoded message is defined here.
\<close>

subsection \<open>Data\<close>

definition Version :: int where "Version = 2"

record tls =
  t_Version :: string
  t_SNI :: string
  t_JA4 :: string

record conn =
  cn_ClientIP :: string
  cn_ClientPort :: int
  cn_ServerIP :: string
  cn_ServerPort :: int
  cn_TLS :: "tls option"

type_synonym header = "string \<times> string"

record http =
  h_Method :: string
  h_Scheme :: string
  h_Host :: string
  h_URI :: string
  h_ArgsSize :: int
  h_Version :: string

record response =
  rs_Status :: int
  rs_Headers :: "header list"
  rs_UpstreamMS :: int

record enc =
  e_Alg :: string
  e_KID :: string
  e_Nonce :: string

record locator =
  l_Store :: string
  l_Driver :: string
  l_Key :: string
  l_Unavailable :: string
  l_Size :: int
  l_DeclaredSize :: int
  l_SHA256 :: string
  l_ProcessedSHA256 :: string
  l_Transformed :: bool
  l_Complete :: bool
  l_Truncated :: bool
  l_Encoding :: string
  l_ExpiresAt :: int
  l_Hint :: string
  l_Enc :: "enc option"

definition Placed :: "locator option \<Rightarrow> bool" where
  "Placed ol = (case ol of None \<Rightarrow> False
                | Some l \<Rightarrow> l_Unavailable l = [] \<and> l_Driver l \<noteq> [] \<and> l_Key l \<noteq> [])"

record store =
  s_Headers :: "locator option"
  s_Args :: "locator option"
  s_Body :: "locator option"

record route =
  rt_ServerName :: string
  rt_Location :: string
  rt_Profile :: string

record score_state =
  sc_Total :: int
  sc_DenyAt :: int

record object_spec =
  o_Set :: string
  o_Limit :: int
  o_Source :: string

record action =
  a_To :: string
  a_Do :: string
  a_Apply :: string
  a_Phase :: string
  a_Code :: string
  a_Delta :: "int option"
  a_Value :: "int option"
  a_Counter :: string
  a_Marker :: string
  a_Group :: string
  a_Set :: string
  a_TTL :: "int option"
  a_When :: "string list"
  a_Headers :: "object_spec option"
  a_Args :: "object_spec option"
  a_Body :: "object_spec option"

record reason =
  rn_Code :: string
  rn_Class :: string

record prior_verdict =
  pv_Inspector :: string
  pv_Phase :: string
  pv_Wave :: int
  pv_Verdict :: string
  pv_Score :: int
  pv_Reason :: "reason option"
  pv_Actions :: "action list"

record release =
  rl_Token :: string
  rl_Reason :: string

record request =
  rq_V :: int
  rq_RID :: string
  rq_Ray :: string
  rq_Phase :: string
  rq_Wave :: int
  rq_Inspector :: string
  rq_DeadlineMS :: int
  rq_AuditSubject :: "string option"
  rq_Node :: string
  rq_Conn :: conn
  rq_HTTP :: http
  rq_Vars :: "string gomap option"
  rq_Needs :: "string list"
  rq_Store :: store
  rq_RequestStore :: "store option"
  rq_Route :: route
  rq_Score :: score_state
  rq_Prior :: "prior_verdict list"
  rq_Response :: "response option"
  rq_Release :: "release option"

record header_ops =
  ho_Set :: "string gomap"
  ho_Unset :: "string list"

record set_cookie =
  ck_Name :: string
  ck_Value :: string
  ck_Path :: string
  ck_MaxAge :: "int option"

record reply =
  rp_V :: int
  rp_RID :: string
  rp_Inspector :: string
  rp_Verdict :: string
  rp_Score :: "int option"
  rp_Reason :: "reason option"
  rp_Response :: "string option"
  rp_Redirect :: "(string \<times> int) option"
  rp_Headers :: "header_ops option"
  rp_Cookies :: "set_cookie list"
  rp_Actions :: "action list"

subsection \<open>Vocabulary\<close>

abbreviation DoChallenge :: string where "DoChallenge \<equiv> ''challenge''"
abbreviation DoThreshold :: string where "DoThreshold \<equiv> ''threshold''"
abbreviation DoSkip :: string where "DoSkip \<equiv> ''skip''"
abbreviation DoReauth :: string where "DoReauth \<equiv> ''reauth''"
abbreviation DoNote :: string where "DoNote \<equiv> ''note''"
abbreviation DoMutate :: string where "DoMutate \<equiv> ''mutate''"
abbreviation DoActive :: string where "DoActive \<equiv> ''active''"
abbreviation DoPassive :: string where "DoPassive \<equiv> ''passive''"
abbreviation DoOff :: string where "DoOff \<equiv> ''off''"
abbreviation DoVote :: string where "DoVote \<equiv> ''vote''"
abbreviation DoAudit :: string where "DoAudit \<equiv> ''audit''"
abbreviation DoArchive :: string where "DoArchive \<equiv> ''archive''"
abbreviation DoMark :: string where "DoMark \<equiv> ''mark''"
abbreviation DoScore :: string where "DoScore \<equiv> ''score''"

abbreviation ApplyRequest :: string where "ApplyRequest \<equiv> ''request''"
abbreviation ApplyIP :: string where "ApplyIP \<equiv> ''ip''"
abbreviation ApplyASN :: string where "ApplyASN \<equiv> ''asn''"
abbreviation ApplySession :: string where "ApplySession \<equiv> ''session''"
abbreviation ApplyConn :: string where "ApplyConn \<equiv> ''conn''"
abbreviation ApplyResponse :: string where "ApplyResponse \<equiv> ''response''"

abbreviation PhaseRequest :: string where "PhaseRequest \<equiv> ''request''"
abbreviation PhaseResponse :: string where "PhaseResponse \<equiv> ''response''"
abbreviation PhaseFrame :: string where "PhaseFrame \<equiv> ''frame''"

abbreviation VerdictAllow :: string where "VerdictAllow \<equiv> ''allow''"
abbreviation VerdictScore :: string where "VerdictScore \<equiv> ''score''"
abbreviation VerdictRedirect :: string where "VerdictRedirect \<equiv> ''redirect''"
abbreviation VerdictDeny :: string where "VerdictDeny \<equiv> ''deny''"
abbreviation VerdictError :: string where "VerdictError \<equiv> ''error''"

abbreviation ClassOverload :: string where "ClassOverload \<equiv> ''overload''"

definition Needed :: "request \<Rightarrow> string \<Rightarrow> bool" where
  "Needed r obj \<longleftrightarrow> list_ex (\<lambda>n. n = obj) (rq_Needs r)"

subsection \<open>Checks of actions\<close>

datatype when_err = WhenUnknown string | WhenTwice string

definition ArchiveWhen :: "string list" where
  "ArchiveWhen = [''allow'', ''deny'']"

text \<open>The loop of \<open>CheckArchiveWhen\<close>: the words seen, or the first bad word.\<close>

fun archive_seen :: "unicode \<Rightarrow> string list \<Rightarrow> string list \<Rightarrow> when_err + string list" where
  "archive_seen u seen [] = Inr seen"
| "archive_seen u seen (w # ws) =
     (let name = ToLower u (TrimSpace w)
      in if name \<noteq> ''allow'' \<and> name \<noteq> ''deny'' then Inl (WhenUnknown w)
         else if name \<in> set seen then Inl (WhenTwice name)
         else archive_seen u (name # seen) ws)"

definition CheckArchiveWhen :: "unicode \<Rightarrow> string list \<Rightarrow> when_err + string list" where
  "CheckArchiveWhen u words =
     (case archive_seen u [] words of
        Inl e \<Rightarrow> Inl e
      | Inr seen \<Rightarrow> Inr (filter (\<lambda>name. name \<in> set seen) ArchiveWhen))"

datatype spec_err = SpecSet | SpecLimit | SpecSource

definition CheckObjectSpec :: "object_spec option \<Rightarrow> spec_err option" where
  "CheckObjectSpec oo =
     (case oo of None \<Rightarrow> None
      | Some ob \<Rightarrow>
          if o_Set ob \<noteq> [] \<and> o_Set ob \<noteq> ''on'' \<and> o_Set ob \<noteq> ''off'' then Some SpecSet
          else if o_Limit ob < 0 then Some SpecLimit
          else if o_Source ob \<noteq> [] \<and> o_Source ob \<noteq> ''store'' \<and> o_Source ob \<noteq> ''original''
            then Some SpecSource
          else None)"

definition MarkerMax :: nat where "MarkerMax = 128"

datatype marker_err = MarkerEmpty | MarkerLong | MarkerControl | MarkerSpace

definition control :: "char \<Rightarrow> bool" where
  "control c \<longleftrightarrow> byte_of c < (0x20::nat) \<or> byte_of c = (0x7f::nat)"

definition CheckMarker :: "string \<Rightarrow> marker_err option" where
  "CheckMarker m =
     (if m = [] then Some MarkerEmpty
      else if length m > MarkerMax then Some MarkerLong
      else if list_ex control m then Some MarkerControl
      else if m ! 0 = CHR '' '' \<or> m ! (length m - 1) = CHR '' '' then Some MarkerSpace
      else None)"

subsection \<open>Requests\<close>

datatype parse_kind =
  InvalidJSON | NoRID | NoV | NoInspector | BadPhase string | NoToken | NoHTTP | BadLocator

record parse_error =
  pe_RID :: string
  pe_Err :: parse_kind

text \<open>
  \<open>SniffRID\<close>: the first match of \<^verbatim>\<open>"rid"\s*:\s*"([0-9a-fA-F]{1,32})"\<close>.  The digits are
  followed by a quote, so the greedy repetition has one way to match at a position.
\<close>

definition re_space :: "char \<Rightarrow> bool" where
  "re_space c \<longleftrightarrow> byte_of c \<in> {9, 10, 12, 13, 32::nat}"

definition hexdigit :: "char \<Rightarrow> bool" where
  "hexdigit c \<longleftrightarrow> byte_of c \<in> {48..57} \<union> {65..70} \<union> {97..102::nat}"

definition quote_char :: char where "quote_char = CHR 0x22"

definition rid_at :: "string \<Rightarrow> string option" where
  "rid_at s =
     (if \<not> prefix ([quote_char] @ ''rid'' @ [quote_char]) s then None
      else (let s1 = dropWhile re_space (drop 5 s)
            in if s1 = [] \<or> hd s1 \<noteq> CHR '':'' then None
               else (let s2 = dropWhile re_space (tl s1)
                     in if s2 = [] \<or> hd s2 \<noteq> quote_char then None
                        else (let ds = takeWhile hexdigit (tl s2);
                                  s3 = dropWhile hexdigit (tl s2)
                              in if ds = [] \<or> length ds > 32 \<or> s3 = [] \<or> hd s3 \<noteq> quote_char
                                 then None else Some ds))))"

fun SniffRID :: "string \<Rightarrow> string" where
  "SniffRID [] = []"
| "SniffRID (c # s) = (case rid_at (c # s) of Some r \<Rightarrow> r | None \<Rightarrow> SniffRID s)"

definition locator_validate :: "locator option \<Rightarrow> bool" where
  "locator_validate ol =
     (case ol of None \<Rightarrow> True
      | Some l \<Rightarrow>
          if l_Unavailable l \<noteq> [] \<and> (l_Driver l \<noteq> [] \<or> l_Key l \<noteq> []) then False
          else if (l_Driver l = []) \<noteq> (l_Key l = []) then False
          else True)"

definition protocol_Parse ::
  "(string \<Rightarrow> request option) \<Rightarrow> string \<Rightarrow> parse_error + request" where
  "protocol_Parse unmarshal payload =
     (case unmarshal payload of
        None \<Rightarrow> Inl \<lparr>pe_RID = SniffRID payload, pe_Err = InvalidJSON\<rparr>
      | Some req \<Rightarrow>
          if rq_RID req = [] then Inl \<lparr>pe_RID = [], pe_Err = NoRID\<rparr>
          else if rq_V req = 0 then Inl \<lparr>pe_RID = rq_RID req, pe_Err = NoV\<rparr>
          else if rq_Inspector req = [] then Inl \<lparr>pe_RID = rq_RID req, pe_Err = NoInspector\<rparr>
          else if rq_Phase req \<notin> {PhaseRequest, PhaseResponse, PhaseFrame}
            then Inl \<lparr>pe_RID = rq_RID req, pe_Err = BadPhase (rq_Phase req)\<rparr>
          else case rq_Release req of
            Some rel \<Rightarrow>
              if rl_Token rel = [] then Inl \<lparr>pe_RID = rq_RID req, pe_Err = NoToken\<rparr>
              else Inr req
          | None \<Rightarrow>
              if h_Method (rq_HTTP req) = [] \<or> h_URI (rq_HTTP req) = []
                then Inl \<lparr>pe_RID = rq_RID req, pe_Err = NoHTTP\<rparr>
              else if \<not> locator_validate (s_Headers (rq_Store req))
                    \<or> \<not> locator_validate (s_Args (rq_Store req))
                    \<or> \<not> locator_validate (s_Body (rq_Store req))
                then Inl \<lparr>pe_RID = rq_RID req, pe_Err = BadLocator\<rparr>
              else Inr req)"

subsection \<open>Replies\<close>

definition NewReply :: "request \<Rightarrow> string \<Rightarrow> reply" where
  "NewReply req verdict =
     \<lparr>rp_V = rq_V req, rp_RID = rq_RID req, rp_Inspector = rq_Inspector req,
      rp_Verdict = verdict, rp_Score = None, rp_Reason = None, rp_Response = None,
      rp_Redirect = None, rp_Headers = None, rp_Cookies = [], rp_Actions = []\<rparr>"

definition ErrorReply :: "request \<Rightarrow> string \<Rightarrow> reply" where
  "ErrorReply req code =
     (NewReply req VerdictError)\<lparr>rp_Reason := Some \<lparr>rn_Code = code, rn_Class = []\<rparr>\<rparr>"

definition ShedReply :: "request \<Rightarrow> string \<Rightarrow> reply" where
  "ShedReply req code =
     (ErrorReply req code)
       \<lparr>rp_Reason := map_option (\<lambda>r. r\<lparr>rn_Class := ClassOverload\<rparr>) (rp_Reason (ErrorReply req code))\<rparr>"

definition FallbackReply :: "string \<Rightarrow> string \<Rightarrow> string \<Rightarrow> reply" where
  "FallbackReply rid inspector code =
     \<lparr>rp_V = Version, rp_RID = rid, rp_Inspector = inspector,
      rp_Verdict = VerdictError, rp_Score = None,
      rp_Reason = Some \<lparr>rn_Code = code, rn_Class = []\<rparr>, rp_Response = None,
      rp_Redirect = None, rp_Headers = None, rp_Cookies = [], rp_Actions = []\<rparr>"

datatype score_err = ErrScoreRange int

definition WithScore :: "reply \<Rightarrow> int \<Rightarrow> score_err + reply" where
  "WithScore r score =
     (if score < 0 \<or> score > 100 then Inl (ErrScoreRange score)
      else Inr (r\<lparr>rp_Verdict := VerdictScore, rp_Score := Some score\<rparr>))"

definition reply_Marshal :: "(reply \<Rightarrow> string) \<Rightarrow> reply \<Rightarrow> score_err + string" where
  "reply_Marshal marshal r =
     (case rp_Score r of
        Some s \<Rightarrow> if s < 0 \<or> s > 100 then Inl (ErrScoreRange s) else Inr (marshal r)
      | None \<Rightarrow> Inr (marshal r))"

lemmas reply_defs = NewReply_def ErrorReply_def ShedReply_def FallbackReply_def

subsection \<open>Lemmas\<close>

lemma archive_seen_Inr:
  "archive_seen u seen ws = Inr out \<Longrightarrow> distinct seen \<Longrightarrow>
     distinct out \<and> set out = set seen \<union> (\<lambda>w. ToLower u (TrimSpace w)) ` set ws \<and>
     length out = length seen + length ws"
  by (induction u seen ws rule: archive_seen.induct) (auto simp: Let_def)

lemma CheckMarker_None:
  "CheckMarker m = None \<longleftrightarrow>
     m \<noteq> [] \<and> length m \<le> MarkerMax \<and> (\<forall>c \<in> set m. \<not> control c) \<and>
     hd m \<noteq> CHR '' '' \<and> last m \<noteq> CHR '' ''"
  by (cases "m = []") (auto simp: CheckMarker_def list_ex_iff hd_conv_nth last_conv_nth)

lemma rid_at_Some:
  assumes "rid_at s = Some r"
  shows "r \<noteq> [] \<and> length r \<le> 32 \<and> list_all hexdigit r"
  using assms
  by (auto simp: rid_at_def Let_def list_all_iff split: if_splits dest: set_takeWhileD)

lemma protocol_Parse_Inr:
  assumes "protocol_Parse unmarshal payload = Inr req"
  shows "unmarshal payload = Some req" "rq_RID req \<noteq> []" "rq_V req \<noteq> 0" "rq_Inspector req \<noteq> []"
    "rq_Phase req \<in> {PhaseRequest, PhaseResponse, PhaseFrame}"
  using assms by (auto simp: protocol_Parse_def split: option.splits if_splits)

end
