(* ===== verification/Overload.thy ===== *)
theory Overload
  imports Prelude
begin

text \<open>
  Overload rules (\<^verbatim>\<open>internal/overload/overload.go\<close>): the share of the queue at which a rule
  fires, its check, and the decision.
\<close>

abbreviation overload_On :: string where "overload_On \<equiv> ''overload''"

definition AtMin :: int where "AtMin = 25"
definition AtMax :: int where "AtMax = 100"

definition At :: "int option \<Rightarrow> int" where
  "At at = (case at of None \<Rightarrow> AtMax | Some v \<Rightarrow> v)"

datatype at_err = AtRange int

definition overload_Check :: "int option \<Rightarrow> at_err option" where
  "overload_Check at =
     (case at of None \<Rightarrow> None
      | Some v \<Rightarrow> if v < AtMin \<or> v > AtMax then Some (AtRange v) else None)"

definition Fires :: "int \<Rightarrow> int \<Rightarrow> bool \<Rightarrow> bool" where
  "Fires at fill shed = (if shed then True else at < AtMax \<and> fill \<ge> at)"

lemma overload_Check_At: "overload_Check at = None \<Longrightarrow> AtMin \<le> At at \<and> At at \<le> AtMax"
  by (auto simp: overload_Check_def At_def AtMin_def AtMax_def split: option.splits)

lemma Fires_mono: "Fires at fill shed \<Longrightarrow> fill \<le> fill' \<Longrightarrow> Fires at fill' (shed \<or> shed')"
  by (auto simp: Fires_def split: if_splits)

end
