(* ===== verification/Policy.thy ===== *)
theory Policy
  imports Cookie Protocol Overload "HOL-Library.Multiset"
begin

text \<open>
  Profiles and the selection of rules (\<^verbatim>\<open>internal/policy/policy.go\<close>, \<^verbatim>\<open>listed.go\<close>): the
  data of a profile, the match of a rule against a request, the list check, and the two
  collectors \<open>Collect\<close> and \<open>CollectOverload\<close> with their specifications.
\<close>

subsection \<open>Data\<close>

abbreviation ModeEnforce :: string where "ModeEnforce \<equiv> ''enforce''"
abbreviation ModeOff :: string where "ModeOff \<equiv> ''off''"

abbreviation WriteAddr :: string where "WriteAddr \<equiv> ''addr''"
abbreviation WriteNet :: string where "WriteNet \<equiv> ''net''"
abbreviation WriteNetAll :: string where "WriteNetAll \<equiv> ''net_all''"
abbreviation WriteASN :: string where "WriteASN \<equiv> ''asn''"
abbreviation WriteCookie :: string where "WriteCookie \<equiv> ''cookie''"
abbreviation WriteValue :: string where "WriteValue \<equiv> ''value''"

abbreviation OpAdd :: string where "OpAdd \<equiv> ''add''"
abbreviation OpRemove :: string where "OpRemove \<equiv> ''remove''"

abbreviation DefaultWriteReason :: string where "DefaultWriteReason \<equiv> ''COOKIE_LIST''"

definition staticSuffixes :: "string list" where
  "staticSuffixes =
     [''.css'', ''.js'', ''.mjs'', ''.map'',
      ''.png'', ''.jpg'', ''.jpeg'', ''.gif'', ''.svg'', ''.ico'', ''.webp'', ''.avif'',
      ''.woff'', ''.woff2'', ''.ttf'', ''.eot'']"

record rule_match =
  m_PathPrefix :: string
  m_Suffixes :: "string list"
  m_Static :: bool
  m_Methods :: "string list"

record list_check =
  lc_List :: string
  lc_Not :: bool
  lc_MD5 :: bool
  lc_Static :: bool
  lc_set :: "string set"

record ask =
  ask_Action :: action
  ask_Cookie :: string

record list_write =
  w_List :: string
  w_Subject :: string
  w_Op :: string
  w_Cookie :: string
  w_TTL :: duration
  w_Reason :: string

record rule =
  r_Name :: string
  r_Match :: rule_match
  r_Phase :: string
  r_Status :: "int list"
  r_On :: string
  r_Cookie :: string
  r_Tags :: "string list"
  r_TagsNot :: bool
  r_tagSet :: "string set option"
  r_Listed :: "list_check option"
  r_Issue :: string
  r_Drop :: string
  r_Actions :: "ask list"
  r_Writes :: "list_write list"
  r_Overload :: bool
  r_At :: int

record profile =
  p_Name :: string
  p_Mode :: string
  p_Cookies :: "cookie list"
  p_Rules :: "rule list"

text \<open>\<open>Sets\<close>: whether a value is in a dynamic list, and whether the mirror has the list.\<close>

type_synonym sets = "string \<Rightarrow> string \<Rightarrow> bool \<times> bool"

record list_note =
  n_List :: string
  n_Why :: string

abbreviation NoteNotReady :: string where "NoteNotReady \<equiv> ''not_ready''"

record target =
  tg_Phase :: string
  tg_Method :: string
  tg_URI :: string
  tg_Status :: int
  tg_States :: "string gomap"
  tg_Tags :: "string gomap"
  tg_Sets :: "sets option"

record outcome =
  out_Issue :: "cookie list"
  out_Drop :: "cookie list"
  out_Actions :: "ask list"
  out_Writes :: "list_write list"
  out_Rules :: "string list"
  out_Notes :: "list_note list"

definition empty_outcome :: outcome where
  "empty_outcome = \<lparr>out_Issue = [], out_Drop = [], out_Actions = [], out_Writes = [],
     out_Rules = [], out_Notes = []\<rparr>"

subsection \<open>Profiles\<close>

definition profile_Cookie :: "profile \<Rightarrow> string \<Rightarrow> cookie option" where
  "profile_Cookie p name = find (\<lambda>c. c_Name c = name) (p_Cookies p)"

definition NeedsSecret :: "profile \<Rightarrow> bool" where
  "NeedsSecret p \<longleftrightarrow> list_ex Signed (p_Cookies p)"

text \<open>\<open>Datasets\<close>: the dynamic lists of the rules, each once, in the order of the rules.\<close>

fun datasets_loop :: "rule list \<Rightarrow> string list \<Rightarrow> string list" where
  "datasets_loop [] out = out"
| "datasets_loop (r # rs) out =
     (case r_Listed r of
        Some l \<Rightarrow>
          if \<not> lc_Static l \<and> lc_List l \<notin> set out then datasets_loop rs (out @ [lc_List l])
          else datasets_loop rs out
      | None \<Rightarrow> datasets_loop rs out)"

definition profile_Datasets :: "profile \<Rightarrow> string list" where
  "profile_Datasets p = datasets_loop (p_Rules p) []"

subsection \<open>Matching\<close>

definition Matches :: "unicode \<Rightarrow> rule_match \<Rightarrow> string \<Rightarrow> string \<Rightarrow> bool" where
  "Matches u m method uri =
     (if m_PathPrefix m \<noteq> [] \<and> \<not> HasPrefix uri (m_PathPrefix m) then False
      else if length (m_Methods m) > 0 \<and>
              \<not> list_ex (\<lambda>want. EqualFold u method want) (m_Methods m) then False
      else (let suffixes = (if m_Static m then m_Suffixes m @ staticSuffixes else m_Suffixes m)
            in if length suffixes > 0
               then list_ex (\<lambda>s. HasSuffix (ToLower u uri) s) suffixes
               else True))"

definition hasInt :: "int list \<Rightarrow> int \<Rightarrow> bool" where
  "hasInt xs v \<longleftrightarrow> list_ex (\<lambda>x. x = v) xs"

definition hasString :: "string list \<Rightarrow> string \<Rightarrow> bool" where
  "hasString xs v \<longleftrightarrow> list_ex (\<lambda>x. x = v) xs"

definition hasTag :: "rule \<Rightarrow> string \<Rightarrow> bool" where
  "hasTag r v = (case r_tagSet r of Some s \<Rightarrow> v \<in> s | None \<Rightarrow> hasString (r_Tags r) v)"

subsection \<open>List checks\<close>

definition outcome_note :: "outcome \<Rightarrow> string \<Rightarrow> string \<Rightarrow> outcome" where
  "outcome_note out l why =
     (if list_ex (\<lambda>n. n_List n = l \<and> n_Why n = why) (out_Notes out) then out
      else out\<lparr>out_Notes := out_Notes out @ [\<lparr>n_List = l, n_Why = why\<rparr>]\<rparr>)"

definition target_in :: "target \<Rightarrow> list_check \<Rightarrow> string \<Rightarrow> outcome \<Rightarrow> bool \<times> outcome" where
  "target_in t l value0 out =
     (if value0 = [] then (False, out)
      else (let value = (if lc_MD5 l then hex_encode (md5 value0) else value0)
            in if lc_Static l then (value \<in> lc_set l, out)
               else case tg_Sets t of
                 None \<Rightarrow> (False, outcome_note out (lc_List l) NoteNotReady)
               | Some contains \<Rightarrow>
                   (let (ok, ready) = contains (lc_List l) value
                    in (ok, if \<not> ready then outcome_note out (lc_List l) NoteNotReady else out))))"

subsection \<open>Collect\<close>

text \<open>The part of the loop body before the list check: every \<open>continue\<close> in its order.\<close>

definition rule_passes :: "unicode \<Rightarrow> target \<Rightarrow> rule \<Rightarrow> bool" where
  "rule_passes u t r =
     (if r_Overload r \<or> (r_Phase r \<noteq> [] \<and> r_Phase r \<noteq> tg_Phase t) then False
      else if \<not> Matches u (r_Match r) (tg_Method t) (tg_URI t) then False
      else if length (r_Status r) > 0 \<and> \<not> hasInt (r_Status r) (tg_Status t) then False
      else if r_On r \<noteq> [] \<and> sget (tg_States t) (r_Cookie r) \<noteq> r_On r then False
      else if length (r_Tags r) > 0 \<and> hasTag r (sget (tg_Tags t) (r_Cookie r)) = r_TagsNot r
        then False
      else True)"

text \<open>The part after it: what a rule that fires adds.\<close>

definition rule_adds ::
  "profile \<Rightarrow> rule \<Rightarrow> outcome \<times> string set \<times> string set \<Rightarrow> outcome \<times> string set \<times> string set" where
  "rule_adds p r = (\<lambda>(out, issue, drop).
     (let (out1, issue1) =
            (if r_Issue r \<noteq> [] \<and> r_Issue r \<notin> issue
             then (case profile_Cookie p (r_Issue r) of
                     Some c \<Rightarrow> (out\<lparr>out_Issue := out_Issue out @ [c]\<rparr>, insert (r_Issue r) issue)
                   | None \<Rightarrow> (out, issue))
             else (out, issue));
          (out2, drop1) =
            (if r_Drop r \<noteq> [] \<and> r_Drop r \<notin> drop
             then (case profile_Cookie p (r_Drop r) of
                     Some c \<Rightarrow> (out1\<lparr>out_Drop := out_Drop out1 @ [c]\<rparr>, insert (r_Drop r) drop)
                   | None \<Rightarrow> (out1, drop))
             else (out1, drop))
      in (out2\<lparr>out_Actions := out_Actions out2 @ r_Actions r,
               out_Writes := out_Writes out2 @ r_Writes r,
               out_Rules := out_Rules out2 @ [r_Name r]\<rparr>, issue1, drop1)))"

definition collect_step ::
  "unicode \<Rightarrow> profile \<Rightarrow> target \<Rightarrow> outcome \<times> string set \<times> string set \<Rightarrow> rule \<Rightarrow>
   outcome \<times> string set \<times> string set" where
  "collect_step u p t st r =
     (if \<not> rule_passes u t r then st
      else case r_Listed r of
        None \<Rightarrow> rule_adds p r st
      | Some l \<Rightarrow>
          (let (out, issue, drop) = st;
               (ok, out1) = target_in t l (sget (tg_Tags t) (r_Cookie r)) out
           in if ok = lc_Not l then (out1, issue, drop) else rule_adds p r (out1, issue, drop)))"

definition profile_Collect :: "unicode \<Rightarrow> profile \<Rightarrow> target \<Rightarrow> outcome" where
  "profile_Collect u p t =
     (let (out, issue, drop) = foldl (collect_step u p t) (empty_outcome, {}, {}) (p_Rules p)
      in if length (out_Drop out) > 0 \<and> length (out_Issue out) > 0
         then out\<lparr>out_Issue := filter (\<lambda>c. c_Name c \<notin> drop) (out_Issue out)\<rparr>
         else out)"

definition overload_step :: "int \<Rightarrow> bool \<Rightarrow> outcome \<Rightarrow> rule \<Rightarrow> outcome" where
  "overload_step fill shed out r =
     (if \<not> r_Overload r \<or> \<not> Fires (r_At r) fill shed then out
      else out\<lparr>out_Actions := out_Actions out @ r_Actions r,
               out_Writes := out_Writes out @ r_Writes r,
               out_Rules := out_Rules out @ [r_Name r]\<rparr>)"

definition CollectOverload :: "profile \<Rightarrow> int \<Rightarrow> bool \<Rightarrow> outcome" where
  "CollectOverload p fill shed = foldl (overload_step fill shed) empty_outcome (p_Rules p)"

subsection \<open>Each once, in the order of first occurrence\<close>

definition first_occ :: "'a list \<Rightarrow> 'a list" where
  "first_occ xs = foldl (\<lambda>acc x. if x \<in> set acc then acc else acc @ [x]) [] xs"

lemma first_occ_Nil [simp]: "first_occ [] = []"
  by (simp add: first_occ_def)

lemma first_occ_snoc_raw:
  "first_occ (xs @ [x]) = (if x \<in> set (first_occ xs) then first_occ xs else first_occ xs @ [x])"
  by (simp add: first_occ_def)

lemma set_first_occ [simp]: "set (first_occ xs) = set xs"
  by (induction xs rule: rev_induct) (auto simp: first_occ_snoc_raw)

lemma first_occ_snoc [simp]:
  "first_occ (xs @ [x]) = (if x \<in> set xs then first_occ xs else first_occ xs @ [x])"
  by (simp add: first_occ_snoc_raw)

lemma distinct_first_occ [simp]: "distinct (first_occ xs)"
  by (induction xs rule: rev_induct) auto

subsection \<open>Specification of \<open>Collect\<close>\<close>

text \<open>Whether a list has a value: no value and missing data answer no.\<close>

definition list_has :: "target \<Rightarrow> list_check \<Rightarrow> string \<Rightarrow> bool" where
  "list_has t l v \<longleftrightarrow>
     v \<noteq> [] \<and>
     (let v' = (if lc_MD5 l then hex_encode (md5 v) else v)
      in if lc_Static l then v' \<in> lc_set l
         else (case tg_Sets t of None \<Rightarrow> False | Some contains \<Rightarrow> fst (contains (lc_List l) v')))"

definition list_missing :: "target \<Rightarrow> list_check \<Rightarrow> string \<Rightarrow> bool" where
  "list_missing t l v \<longleftrightarrow>
     v \<noteq> [] \<and> \<not> lc_Static l \<and>
     (case tg_Sets t of None \<Rightarrow> True
      | Some contains \<Rightarrow>
          \<not> snd (contains (lc_List l) (if lc_MD5 l then hex_encode (md5 v) else v)))"

definition selected :: "unicode \<Rightarrow> target \<Rightarrow> rule \<Rightarrow> bool" where
  "selected u t r \<longleftrightarrow>
     rule_passes u t r \<and>
     (case r_Listed r of None \<Rightarrow> True
      | Some l \<Rightarrow> list_has t l (sget (tg_Tags t) (r_Cookie r)) \<noteq> lc_Not l)"

text \<open>The declared cookies among some names, each once, in the order of first mention.\<close>

definition named_cookies :: "profile \<Rightarrow> string list \<Rightarrow> cookie list" where
  "named_cookies p ns =
     map (\<lambda>n. the (profile_Cookie p n))
       (first_occ (filter (\<lambda>n. n \<noteq> [] \<and> profile_Cookie p n \<noteq> None) ns))"

definition missing_lists :: "unicode \<Rightarrow> target \<Rightarrow> rule list \<Rightarrow> string list" where
  "missing_lists u t rs =
     concat (map (\<lambda>r. case r_Listed r of
                 None \<Rightarrow> []
               | Some l \<Rightarrow>
                   if rule_passes u t r \<and> list_missing t l (sget (tg_Tags t) (r_Cookie r))
                   then [lc_List l] else []) rs)"

definition collect_spec :: "unicode \<Rightarrow> profile \<Rightarrow> target \<Rightarrow> outcome" where
  "collect_spec u p t =
     (let fired = filter (selected u t) (p_Rules p);
          dropped = named_cookies p (map r_Drop fired)
      in \<lparr>out_Issue = filter (\<lambda>c. c_Name c \<notin> c_Name ` set dropped)
                        (named_cookies p (map r_Issue fired)),
          out_Drop = dropped,
          out_Actions = concat (map r_Actions fired),
          out_Writes = concat (map r_Writes fired),
          out_Rules = map r_Name fired,
          out_Notes = map (\<lambda>l. \<lparr>n_List = l, n_Why = NoteNotReady\<rparr>)
                        (first_occ (missing_lists u t (p_Rules p)))\<rparr>)"

lemma profile_Cookie_name: "profile_Cookie p n = Some c \<Longrightarrow> c_Name c = n \<and> c \<in> set (p_Cookies p)"
  by (auto simp: profile_Cookie_def find_Some_iff in_set_conv_nth)

lemma named_cookies_snoc:
  "named_cookies p (ns @ [n]) =
     (if n = [] \<or> n \<in> set ns then named_cookies p ns
      else case profile_Cookie p n of
        None \<Rightarrow> named_cookies p ns | Some c \<Rightarrow> named_cookies p ns @ [c])"
  by (auto simp: named_cookies_def split: option.splits)

lemma named_cookies_Nil [simp]: "named_cookies p [] = []"
  by (simp add: named_cookies_def)

lemma names_of_named:
  "map c_Name (named_cookies p ns) = first_occ (filter (\<lambda>n. n \<noteq> [] \<and> profile_Cookie p n \<noteq> None) ns)"
proof -
  let ?ds = "first_occ (filter (\<lambda>n. n \<noteq> [] \<and> profile_Cookie p n \<noteq> None) ns)"
  have "map c_Name (map (\<lambda>n. the (profile_Cookie p n)) ?ds) = map (\<lambda>n. n) ?ds"
    unfolding map_map by (rule map_cong) (auto dest: profile_Cookie_name)
  then show ?thesis by (simp add: named_cookies_def)
qed

lemma name_set_named:
  "c_Name ` set (named_cookies p ns) = {n \<in> set ns. n \<noteq> [] \<and> profile_Cookie p n \<noteq> None}"
  using arg_cong [OF names_of_named, of set] by auto

lemma distinct_named: "distinct (map c_Name (named_cookies p ns))"
  by (simp add: names_of_named)

lemma target_in_eq:
  "target_in t l v out =
     (list_has t l v, if list_missing t l v then outcome_note out (lc_List l) NoteNotReady else out)"
  by (auto simp: target_in_def list_has_def list_missing_def Let_def split: option.splits prod.splits)

text \<open>The state of the loop after some rules.\<close>

definition loop_state ::
  "unicode \<Rightarrow> profile \<Rightarrow> target \<Rightarrow> rule list \<Rightarrow> outcome \<times> string set \<times> string set" where
  "loop_state u p t rs =
     (let fired = filter (selected u t) rs
      in (\<lparr>out_Issue = named_cookies p (map r_Issue fired),
           out_Drop = named_cookies p (map r_Drop fired),
           out_Actions = concat (map r_Actions fired),
           out_Writes = concat (map r_Writes fired),
           out_Rules = map r_Name fired,
           out_Notes = map (\<lambda>l. \<lparr>n_List = l, n_Why = NoteNotReady\<rparr>)
                         (first_occ (missing_lists u t rs))\<rparr>,
          c_Name ` set (named_cookies p (map r_Issue fired)),
          c_Name ` set (named_cookies p (map r_Drop fired))))"

definition note_of :: "string \<Rightarrow> list_note" where
  "note_of l = \<lparr>n_List = l, n_Why = NoteNotReady\<rparr>"

lemma note_first_occ:
  assumes "out_Notes out = map note_of (first_occ ls)"
  shows "outcome_note out l NoteNotReady = out\<lparr>out_Notes := map note_of (first_occ (ls @ [l]))\<rparr>"
  using assms by (auto simp: outcome_note_def note_of_def list_ex_iff)

text \<open>Adding a cookie by name to a list of cookies and the set of their names.\<close>

definition add_cookie :: "profile \<Rightarrow> string \<Rightarrow> cookie list \<times> string set \<Rightarrow> cookie list \<times> string set" where
  "add_cookie p n = (\<lambda>(cs, seen).
     if n \<noteq> [] \<and> n \<notin> seen
     then (case profile_Cookie p n of Some c \<Rightarrow> (cs @ [c], insert n seen) | None \<Rightarrow> (cs, seen))
     else (cs, seen))"

abbreviation named_state :: "profile \<Rightarrow> string list \<Rightarrow> cookie list \<times> string set" where
  "named_state p ns \<equiv> (named_cookies p ns, c_Name ` set (named_cookies p ns))"

lemma add_cookie_named: "add_cookie p n (named_state p ns) = named_state p (ns @ [n])"
proof (cases "n = [] \<or> profile_Cookie p n = None")
  case True
  then show ?thesis by (auto simp: add_cookie_def named_cookies_snoc split: option.splits)
next
  case False
  then obtain c where c: "profile_Cookie p n = Some c" "n \<noteq> []" by blast
  then have "n \<in> c_Name ` set (named_cookies p ns) \<longleftrightarrow> n \<in> set ns"
    by (auto simp: name_set_named)
  with c profile_Cookie_name [OF c(1)] show ?thesis
    by (simp add: add_cookie_def named_cookies_snoc)
qed

lemma rule_adds_eq:
  "rule_adds p r (out, i, d) =
     (let (cs, i') = add_cookie p (r_Issue r) (out_Issue out, i);
          (ds, d') = add_cookie p (r_Drop r) (out_Drop out, d)
      in (\<lparr>out_Issue = cs, out_Drop = ds, out_Actions = out_Actions out @ r_Actions r,
           out_Writes = out_Writes out @ r_Writes r, out_Rules = out_Rules out @ [r_Name r],
           out_Notes = out_Notes out\<rparr>, i', d'))"
  by (simp add: rule_adds_def add_cookie_def Let_def split: option.splits)

lemma loop_state_eq:
  "loop_state u p t rs =
     (\<lparr>out_Issue = named_cookies p (map r_Issue (filter (selected u t) rs)),
       out_Drop = named_cookies p (map r_Drop (filter (selected u t) rs)),
       out_Actions = concat (map r_Actions (filter (selected u t) rs)),
       out_Writes = concat (map r_Writes (filter (selected u t) rs)),
       out_Rules = map r_Name (filter (selected u t) rs),
       out_Notes = map note_of (first_occ (missing_lists u t rs))\<rparr>,
      c_Name ` set (named_cookies p (map r_Issue (filter (selected u t) rs))),
      c_Name ` set (named_cookies p (map r_Drop (filter (selected u t) rs))))"
  by (simp add: loop_state_def Let_def note_of_def [abs_def])

lemma adds_loop:
  assumes "selected u t r"
  shows "(case loop_state u p t rs of (out, i, d) \<Rightarrow>
            rule_adds p r (out\<lparr>out_Notes := map note_of (first_occ (missing_lists u t (rs @ [r])))\<rparr>, i, d)) =
         loop_state u p t (rs @ [r])"
  using assms by (simp add: loop_state_eq rule_adds_eq add_cookie_named)

lemma missing_lists_snoc:
  "missing_lists u t (rs @ [r]) =
     missing_lists u t rs @
     (case r_Listed r of None \<Rightarrow> []
      | Some l \<Rightarrow> if rule_passes u t r \<and> list_missing t l (sget (tg_Tags t) (r_Cookie r))
                 then [lc_List l] else [])"
  by (simp add: missing_lists_def)

lemma collect_step_loop: "collect_step u p t (loop_state u p t rs) r = loop_state u p t (rs @ [r])"
proof (cases "rule_passes u t r")
  case False
  then show ?thesis
    by (auto simp: collect_step_def loop_state_eq selected_def missing_lists_snoc split: option.splits)
next
  case True
  show ?thesis
  proof (cases "r_Listed r")
    case None
    with True have "selected u t r" by (simp add: selected_def)
    with adds_loop [OF this, of p rs] True None show ?thesis
      by (simp add: collect_step_def missing_lists_snoc loop_state_eq)
  next
    case (Some l)
    let ?v = "sget (tg_Tags t) (r_Cookie r)"
    obtain out i d where st: "loop_state u p t rs = (out, i, d)" by (cases "loop_state u p t rs")
    then have nts: "out_Notes out = map note_of (first_occ (missing_lists u t rs))"
      by (auto simp: loop_state_eq)
    then have self: "out\<lparr>out_Notes := map note_of (first_occ (missing_lists u t rs))\<rparr> = out"
      by simp
    have in1: "target_in t l ?v out =
        (list_has t l ?v, out\<lparr>out_Notes := map note_of (first_occ (missing_lists u t (rs @ [r])))\<rparr>)"
      using note_first_occ [OF nts, of "lc_List l"] True Some self
      by (simp add: target_in_eq missing_lists_snoc)
    show ?thesis
    proof (cases "list_has t l ?v = lc_Not l")
      case no: True
      then have "\<not> selected u t r" using Some by (simp add: selected_def)
      then have "loop_state u p t (rs @ [r]) =
          (out\<lparr>out_Notes := map note_of (first_occ (missing_lists u t (rs @ [r])))\<rparr>, i, d)"
        using st by (auto simp: loop_state_eq)
      with no True Some in1 st show ?thesis by (simp add: collect_step_def)
    next
      case yes: False
      then have "selected u t r" using Some True by (simp add: selected_def)
      from adds_loop [OF this, of p rs] yes True Some in1 st show ?thesis
        by (simp add: collect_step_def)
    qed
  qed
qed

lemma collect_loop: "foldl (collect_step u p t) (empty_outcome, {}, {}) rs = loop_state u p t rs"
proof (induction rs rule: rev_induct)
  case Nil
  show ?case by (simp add: loop_state_eq empty_outcome_def missing_lists_def)
next
  case (snoc r rs)
  then show ?case by (simp add: collect_step_loop)
qed

lemma collect_refines: "profile_Collect u p t = collect_spec u p t"
proof -
  obtain out i d where st: "loop_state u p t (p_Rules p) = (out, i, d)"
    by (cases "loop_state u p t (p_Rules p)")
  then have "d = c_Name ` set (out_Drop out)" by (auto simp: loop_state_eq)
  moreover from this have "out_Drop out = [] \<Longrightarrow>
      filter (\<lambda>c. c_Name c \<notin> d) (out_Issue out) = out_Issue out"
    by (simp add: filter_id_conv)
  ultimately have "profile_Collect u p t = out\<lparr>out_Issue := filter (\<lambda>c. c_Name c \<notin> d) (out_Issue out)\<rparr>"
    using st by (auto simp: profile_Collect_def collect_loop Let_def)
  with st show ?thesis
    by (auto simp: collect_spec_def loop_state_def Let_def)
qed

subsection \<open>The interface of the dynamic lists\<close>

text \<open>
  What the selection of rules relies on from a mirror of lists: a list that is not there yet
  contains nothing.
\<close>

locale list_sets =
  fixes contains :: sets
  assumes not_ready: "contains n v = (ok, False) \<Longrightarrow> \<not> ok"
begin

lemma missing_has_not:
  assumes "tg_Sets t = Some contains" and "list_missing t l v"
  shows "\<not> list_has t l v"
proof -
  let ?v = "if lc_MD5 l then hex_encode (md5 v) else v"
  from assms have "snd (contains (lc_List l) ?v) = False" "\<not> lc_Static l"
    by (simp_all add: list_missing_def)
  then have "\<not> fst (contains (lc_List l) ?v)"
    using not_ready [of "lc_List l" ?v] by (metis prod.collapse)
  with assms show ?thesis by (simp add: list_has_def Let_def list_missing_def)
qed

lemma missing_selected:
  assumes "tg_Sets t = Some contains" and "rule_passes u t r" and "r_Listed r = Some l"
    and "list_missing t l (sget (tg_Tags t) (r_Cookie r))"
  shows "selected u t r \<longleftrightarrow> lc_Not l"
  using assms missing_has_not [OF assms(1,4)] by (simp add: selected_def)

end

subsection \<open>Overload rules\<close>

definition overload_fired :: "profile \<Rightarrow> int \<Rightarrow> bool \<Rightarrow> rule list" where
  "overload_fired p fill shed = filter (\<lambda>r. r_Overload r \<and> Fires (r_At r) fill shed) (p_Rules p)"

lemma overload_loop:
  "foldl (overload_step fill shed) out rs =
     (let fired = filter (\<lambda>r. r_Overload r \<and> Fires (r_At r) fill shed) rs
      in out\<lparr>out_Actions := out_Actions out @ concat (map r_Actions fired),
             out_Writes := out_Writes out @ concat (map r_Writes fired),
             out_Rules := out_Rules out @ map r_Name fired\<rparr>)"
  by (induction rs arbitrary: out) (simp_all add: overload_step_def Let_def)

lemma CollectOverload_eq:
  "CollectOverload p fill shed =
     \<lparr>out_Issue = [], out_Drop = [],
      out_Actions = concat (map r_Actions (overload_fired p fill shed)),
      out_Writes = concat (map r_Writes (overload_fired p fill shed)),
      out_Rules = map r_Name (overload_fired p fill shed), out_Notes = []\<rparr>"
  by (simp add: CollectOverload_def overload_loop overload_fired_def empty_outcome_def Let_def)

subsection \<open>Dynamic lists of a profile\<close>

lemma datasets_loop_eq:
  "datasets_loop rs (first_occ xs) =
     first_occ (xs @ [lc_List l. r \<leftarrow> rs, l \<leftarrow> (case r_Listed r of None \<Rightarrow> [] | Some l \<Rightarrow> [l]),
                      \<not> lc_Static l])"
proof (induction rs arbitrary: xs)
  case Nil
  show ?case by simp
next
  case (Cons r rs)
  show ?case
  proof (cases "r_Listed r")
    case None
    with Cons show ?thesis by simp
  next
    case (Some l)
    have step: "first_occ (xs @ [lc_List l]) =
        (if lc_List l \<in> set xs then first_occ xs else first_occ xs @ [lc_List l])"
      by simp
    show ?thesis
      using Cons [of "xs @ [lc_List l]"] Cons [of xs] Some step by (cases "lc_Static l") (auto split: if_splits)
  qed
qed

lemma collect_names_distinct:
  "distinct (map c_Name (out_Issue (profile_Collect u p t) @ out_Drop (profile_Collect u p t)))"
proof -
  let ?f = "filter (selected u t) (p_Rules p)"
  let ?D = "named_cookies p (map r_Drop ?f)" and ?I = "named_cookies p (map r_Issue ?f)"
  have "distinct (map c_Name (filter (\<lambda>c. c_Name c \<notin> c_Name ` set ?D) ?I @ ?D))"
    using distinct_named [of p "map r_Drop ?f"] distinct_named [of p "map r_Issue ?f"]
    by (auto simp: distinct_map_filter)
  then show ?thesis by (simp add: collect_refines collect_spec_def Let_def)
qed

subsection \<open>Properties\<close>

definition declared :: "profile \<Rightarrow> string set" where
  "declared p = {n. n \<noteq> [] \<and> profile_Cookie p n \<noteq> None}"

definition fired_rules :: "unicode \<Rightarrow> profile \<Rightarrow> target \<Rightarrow> rule set" where
  "fired_rules u p t = {r \<in> set (p_Rules p). selected u t r}"

text \<open>
  C9.  \<open>Collect\<close> refines its specification: the rules that fire are exactly the selected ones,
  in their order; the actions, list writes and rule names are those of the fired rules in row
  order; the cookies to drop are the declared ones a fired rule drops, each once; the cookies to
  issue are those a fired rule issues, each once, without the dropped ones; the notes name each
  list whose data was missing once.
\<close>

theorem Collect_refines_spec: "profile_Collect u p t = collect_spec u p t"
  by (rule collect_refines)

text \<open>
  C10.  Dropping beats issuing.  The names to issue are those a selected rule issues and no
  selected rule drops, the names to drop those a selected rule drops (declared cookies both), no
  name twice and no name in both lists.
\<close>

theorem drop_beats_issue:
  "c_Name ` set (out_Drop (profile_Collect u p t)) = declared p \<inter> r_Drop ` fired_rules u p t \<and>
   c_Name ` set (out_Issue (profile_Collect u p t)) =
     declared p \<inter> r_Issue ` fired_rules u p t - r_Drop ` fired_rules u p t \<and>
   distinct (map c_Name (out_Issue (profile_Collect u p t) @ out_Drop (profile_Collect u p t)))"
proof -
  let ?f = "filter (selected u t) (p_Rules p)"
  let ?D = "named_cookies p (map r_Drop ?f)" and ?I = "named_cookies p (map r_Issue ?f)"
  have D: "out_Drop (profile_Collect u p t) = ?D"
    and I: "out_Issue (profile_Collect u p t) = filter (\<lambda>c. c_Name c \<notin> c_Name ` set ?D) ?I"
    by (simp_all add: collect_refines collect_spec_def Let_def)
  have "c_Name ` set ?D = declared p \<inter> r_Drop ` fired_rules u p t"
    unfolding name_set_named by (auto simp: declared_def fired_rules_def)
  moreover have "c_Name ` set (filter (\<lambda>c. c_Name c \<notin> c_Name ` set ?D) ?I) =
      c_Name ` set ?I - c_Name ` set ?D"
    by auto
  then have "c_Name ` set (filter (\<lambda>c. c_Name c \<notin> c_Name ` set ?D) ?I) =
      declared p \<inter> r_Issue ` fired_rules u p t - r_Drop ` fired_rules u p t"
    unfolding name_set_named by (auto simp: declared_def fired_rules_def)
  ultimately show ?thesis
    using collect_names_distinct [of u p t] unfolding I D by blast
qed

text \<open>
  The order of the rules does not decide the cookies: profiles with the same declarations and
  the same rules in another order issue and drop the same cookies.
\<close>

theorem rule_order_irrelevant:
  assumes "p_Cookies q = p_Cookies p" and "mset (p_Rules q) = mset (p_Rules p)"
  shows "set (out_Issue (profile_Collect u q t)) = set (out_Issue (profile_Collect u p t)) \<and>
         set (out_Drop (profile_Collect u q t)) = set (out_Drop (profile_Collect u p t))"
proof -
  have ck: "profile_Cookie q = profile_Cookie p"
    using assms(1) by (simp add: profile_Cookie_def fun_eq_iff)
  have "set (p_Rules q) = set (p_Rules p)" using assms(2) by (rule mset_eq_setD)
  then have "set (named_cookies q (map g (filter (selected u t) (p_Rules q)))) =
      set (named_cookies p (map g (filter (selected u t) (p_Rules p))))" for g
    by (simp add: named_cookies_def ck)
  then show ?thesis by (simp add: collect_refines collect_spec_def Let_def)
qed

text \<open>
  Overload rules.  \<open>CollectOverload\<close> returns the actions, writes and names of the overload
  rules whose threshold the queue has reached (all of them when a request is shed), issues and
  drops nothing, and a fuller queue never fires fewer rules.
\<close>

theorem CollectOverload_spec:
  "CollectOverload p fill shed =
     \<lparr>out_Issue = [], out_Drop = [],
      out_Actions = concat (map r_Actions (overload_fired p fill shed)),
      out_Writes = concat (map r_Writes (overload_fired p fill shed)),
      out_Rules = map r_Name (overload_fired p fill shed), out_Notes = []\<rparr> \<and>
   set (overload_fired p fill shed) \<subseteq> set (overload_fired p (fill + int n) (shed \<or> shed'))"
  using Fires_mono [of _ fill shed "fill + int n" shed']
  by (auto simp: CollectOverload_eq overload_fired_def)

subsection \<open>Witnesses\<close>

definition plain_rule :: "string \<Rightarrow> string \<Rightarrow> string \<Rightarrow> string \<Rightarrow> rule" where
  "plain_rule name pre iss drp =
     \<lparr>r_Name = name,
      r_Match = \<lparr>m_PathPrefix = pre, m_Suffixes = [], m_Static = False, m_Methods = []\<rparr>,
      r_Phase = [], r_Status = [], r_On = [], r_Cookie = iss @ drp, r_Tags = [], r_TagsNot = False,
      r_tagSet = None, r_Listed = None, r_Issue = iss, r_Drop = drp, r_Actions = [],
      r_Writes = [], r_Overload = False, r_At = 0\<rparr>"

definition landing_profile :: "bool \<Rightarrow> profile" where
  "landing_profile flip =
     \<lparr>p_Name = ''shop'', p_Mode = ModeEnforce, p_Cookies = [src_cookie, uid_cookie],
      p_Rules = (let rs = [plain_rule ''logout'' ''/logout'' [] ''waf_src'',
                           plain_rule ''landing'' [] ''waf_src'' [],
                           plain_rule ''number'' [] ''uid'' []] in if flip then rev rs else rs)\<rparr>"

definition logout_target :: target where
  "logout_target = \<lparr>tg_Phase = ''request'', tg_Method = ''GET'', tg_URI = ''/logout'', tg_Status = 0,
     tg_States = Map.empty, tg_Tags = Map.empty, tg_Sets = None\<rparr>"

theorem rule_order_irrelevant_witness:
  "set (out_Issue (profile_Collect ascii_only (landing_profile True) logout_target)) =
     set (out_Issue (profile_Collect ascii_only (landing_profile False) logout_target)) \<and>
   landing_profile True \<noteq> landing_profile False"
  using rule_order_irrelevant [of "landing_profile True" "landing_profile False" ascii_only logout_target]
  by (simp add: landing_profile_def plain_rule_def)

end
