(* ===== verification/Mirror.thy ===== *)
theory Mirror
  imports Composition Policy
begin

text \<open>
  The mirror of live lists (\<^verbatim>\<open>internal/livelist/livelist.go\<close>): lists kept by another program and
  followed here by snapshots and packages of changes.  One goroutine per list runs its handlers, so
  each handler is a function on the state of its list; lookups take the state under its lock, so
  they see it between two such functions.  The bus (requests for a snapshot), the decoder of
  messages and the Redis client behind the store of objects are arguments; log output is left out.
  Inside a handler a lookup can also see a package applied whose hash is not compared yet; the
  invariants of the composition hold there as well (they are proved of every such step).
\<close>

subsection \<open>Data\<close>

abbreviation (input) frame_Version :: int where "frame_Version \<equiv> 3"
abbreviation (input) subjectPrefix :: string where "subjectPrefix \<equiv> ''waf.sets.''"
abbreviation (input) opResync :: string where "opResync \<equiv> ''resync''"
abbreviation (input) opDiff :: string where "opDiff \<equiv> ''diff''"
abbreviation (input) opTick :: string where "opTick \<equiv> ''tick''"
abbreviation (input) opSnapshot :: string where "opSnapshot \<equiv> ''snapshot''"
abbreviation (input) queueDepth :: nat where "queueDepth \<equiv> 1024"
abbreviation (input) packagesPerRead :: nat where "packagesPerRead \<equiv> 256"
definition silenceAfter :: duration where "silenceAfter = 6 * Second"

record frame =
  fr_V :: int
  fr_Set :: string
  fr_Epoch :: string
  fr_Seq :: u64
  fr_Op :: string
  fr_Hash :: string
  fr_Key :: string
  fr_Package :: string
  fr_Inline :: string
  fr_Object :: string
  fr_Count :: int

text \<open>The zero value of a frame, before decoding.\<close>

definition no_frame :: frame where
  "no_frame = \<lparr>fr_V = 0, fr_Set = [], fr_Epoch = [], fr_Seq = 0, fr_Op = [], fr_Hash = [], fr_Key = [],
     fr_Package = [], fr_Inline = [], fr_Object = [], fr_Count = 0\<rparr>"

text \<open>The state of one list (type \<^verbatim>\<open>set\<close>).\<close>

record live_set =
  lv_name :: string
  lv_ready :: bool
  lv_epoch :: u64
  lv_seq :: u64
  lv_key :: key
  lv_typ :: nat
  lv_comp :: composition
  lv_lastSeen :: gotime
  lv_silent :: bool
  lv_in :: "frame list"
  lv_syncing :: bool
  lv_refused :: string
  lv_snapBad :: bool

text \<open>
  The store of objects: a read fails (\<open>None\<close>), finds nothing or finds bytes.
\<close>

record blobs =
  bl_Object :: "string \<Rightarrow> string option option"
  bl_Objects :: "string list \<Rightarrow> string option list option"

text \<open>Objects in Redis: a missing key is not an error.\<close>

datatype redis_fail = RedisNil | RedisError

record blob_client =
  bc_Get :: "string \<Rightarrow> redis_fail + string"
  bc_MGet :: "string list \<Rightarrow> string option list option"

definition blobs_Object :: "blob_client \<Rightarrow> string \<Rightarrow> string option option" where
  "blobs_Object c k =
     (case bc_Get c k of Inl RedisNil \<Rightarrow> Some None | Inl RedisError \<Rightarrow> None | Inr d \<Rightarrow> Some (Some d))"

definition blobs_Objects :: "blob_client \<Rightarrow> string list \<Rightarrow> string option list option" where
  "blobs_Objects c ks =
     (case bc_MGet c ks of
        None \<Rightarrow> None
      | Some vals \<Rightarrow> Some (map (\<lambda>v. case v of Some s \<Rightarrow> Some s | None \<Rightarrow> None) vals))"

definition redis_blobs :: "blob_client \<Rightarrow> blobs" where
  "redis_blobs c = \<lparr>bl_Object = blobs_Object c, bl_Objects = blobs_Objects c\<rparr>"

text \<open>
  What a handler meets outside: the reply to a request on the bus, the decoder of frames (with what
  it decoded before an error), the store if there is one.
\<close>

record keeper_env =
  ke_request :: "string \<Rightarrow> string option"
  ke_json :: "string \<Rightarrow> frame \<times> bool"
  ke_blobs :: "blobs option"

definition hexOf :: "u64 \<Rightarrow> string" where
  "hexOf v = (let d = nat_digits 16 (unat v) in replicate (16 - length d) (CHR ''0'') @ d)"

definition diffKey :: "string \<Rightarrow> u64 \<Rightarrow> string" where
  "diffKey name seq = ''waf:diff:'' @ name @ '':'' @ nat_digits 10 (unat seq)"

subsection \<open>Handlers of one list\<close>

text \<open>What a snapshot object brings.\<close>

definition install :: "pack_head \<Rightarrow> composition \<Rightarrow> live_set \<Rightarrow> live_set" where
  "install h c st = st\<lparr>lv_epoch := ph_epoch h, lv_key := ph_key h, lv_seq := ph_seq h, lv_typ := ph_typ h,
     lv_comp := c, lv_ready := True, lv_snapBad := cm_hash c \<noteq> ph_hash h\<rparr>"

definition read_snapshot :: "string \<Rightarrow> live_set \<Rightarrow> live_set may_panic" where
  "read_snapshot d st =
     (case unpack d of
        Inl e \<Rightarrow> Done st
      | Inr (h, rs) \<Rightarrow>
          if ph_kind h \<noteq> kindSnapshot then Done st
          else (case apply_all (ph_key h) (ph_typ h) rs newComposition of
                  Panics \<Rightarrow> Panics
                | Done c \<Rightarrow> Done (install h c st)))"

text \<open>\<open>syncing\<close> is set for the time of the call only, so it is the same afterwards.\<close>

definition snapshot :: "keeper_env \<Rightarrow> live_set \<Rightarrow> live_set may_panic" where
  "snapshot ke st =
     (if lv_syncing st then Done st
      else if lv_snapBad st then Done st
      else case ke_request ke (subjectPrefix @ lv_name st @ ''.snapshot'') of
        None \<Rightarrow> Done st
      | Some msg \<Rightarrow>
          (case ke_json ke msg of (ref, ok) \<Rightarrow>
             if \<not> ok \<or> fr_Op ref \<noteq> opSnapshot \<or> fr_Object ref = [] then
               Done (st\<lparr>lv_refused := (if fr_Op ref = [] then ''bad reply'' else fr_Op ref)\<rparr>)
             else (let st1 = st\<lparr>lv_refused := []\<rparr>
                   in case ke_blobs ke of
                        None \<Rightarrow> Done st1
                      | Some b \<Rightarrow>
                          (case bl_Object b (fr_Object ref) of
                             None \<Rightarrow> Done st1
                           | Some None \<Rightarrow> Done st1
                           | Some (Some d) \<Rightarrow> read_snapshot d st1))))"

definition verify :: "keeper_env \<Rightarrow> string \<Rightarrow> live_set \<Rightarrow> (bool \<times> live_set) may_panic" where
  "verify ke want st =
     (if want = [] \<or> hexOf (cm_hash (lv_comp st)) = want then Done (True, st)
      else if lv_snapBad st then Done (False, st)
      else case snapshot ke st of Panics \<Rightarrow> Panics | Done st' \<Rightarrow> Done (False, st'))"

definition applyPackage :: "keeper_env \<Rightarrow> string \<Rightarrow> u64 \<Rightarrow> live_set \<Rightarrow> (bool \<times> live_set) may_panic" where
  "applyPackage ke d want st =
     (let retake = (case snapshot ke st of Panics \<Rightarrow> Panics | Done st' \<Rightarrow> Done (False, st'))
      in case unpack d of
           Inl e \<Rightarrow> retake
         | Inr (h, rs) \<Rightarrow>
             if ph_kind h \<noteq> kindPackage \<or> ph_epoch h \<noteq> lv_epoch st \<or> ph_seq h \<noteq> want \<or>
                ph_typ h \<noteq> lv_typ st then retake
             else (case apply_all (lv_key st) (ph_typ h) rs (lv_comp st) of
                     Panics \<Rightarrow> Panics
                   | Done c \<Rightarrow> verify ke (hexOf (ph_hash h)) (st\<lparr>lv_comp := c, lv_seq := ph_seq h\<rparr>)))"

text \<open>The packages of one read, in order; the flag tells whether the loop goes on.\<close>

fun apply_objs :: "keeper_env \<Rightarrow> u64 \<Rightarrow> string option list \<Rightarrow> live_set \<Rightarrow> (bool \<times> live_set) may_panic" where
  "apply_objs ke s [] st = Done (True, st)"
| "apply_objs ke s (None # ds) st =
     (case snapshot ke st of Panics \<Rightarrow> Panics | Done st' \<Rightarrow> Done (False, st'))"
| "apply_objs ke s (Some d # ds) st =
     (case applyPackage ke d (s + 1) st of
        Panics \<Rightarrow> Panics
      | Done (on, st') \<Rightarrow> if on then apply_objs ke (s + 1) ds st' else Done (False, st'))"

definition keys_upto :: "u64 \<Rightarrow> live_set \<Rightarrow> string list" where
  "keys_upto lim st =
     map (\<lambda>i. diffKey (lv_name st) (lv_seq st + 1 + of_nat i))
       [0..<min (unat (lim - lv_seq st)) packagesPerRead]"

text \<open>The loop of \<open>catchUp\<close>; it may not end for a store that answers a read with nothing.\<close>

partial_function (option) catchUp_loop ::
  "keeper_env \<Rightarrow> blobs \<Rightarrow> u64 \<Rightarrow> string \<Rightarrow> live_set \<Rightarrow> live_set may_panic option" where
  "catchUp_loop ke b lim hash st =
     (if lv_seq st \<ge> lim
      then Some (case verify ke hash st of Panics \<Rightarrow> Panics | Done r \<Rightarrow> Done (snd r))
      else case bl_Objects b (keys_upto lim st) of
             None \<Rightarrow> Some (Done st)
           | Some objs \<Rightarrow>
               (case apply_objs ke (lv_seq st) objs st of
                  Panics \<Rightarrow> Some Panics
                | Done r \<Rightarrow> if fst r then catchUp_loop ke b lim hash (snd r) else Some (Done (snd r))))"

definition catchUp :: "keeper_env \<Rightarrow> u64 \<Rightarrow> string \<Rightarrow> live_set \<Rightarrow> live_set may_panic option" where
  "catchUp ke lim hash st =
     (case ke_blobs ke of None \<Rightarrow> Some (Done st) | Some b \<Rightarrow> catchUp_loop ke b lim hash st)"

abbreviation state_of :: "(bool \<times> live_set) may_panic \<Rightarrow> live_set may_panic" where
  "state_of r \<equiv> (case r of Panics \<Rightarrow> Panics | Done p \<Rightarrow> Done (snd p))"

definition onFrame :: "keeper_env \<Rightarrow> gotime \<Rightarrow> frame \<Rightarrow> live_set \<Rightarrow> live_set may_panic option" where
  "onFrame ke now f st0 =
     (if fr_V f \<noteq> frame_Version then Some (Done st0)
      else (let st = (if fr_Op f \<noteq> opResync then st0\<lparr>lv_lastSeen := now, lv_silent := False\<rparr> else st0)
            in if \<not> lv_ready st then Some (snapshot ke st)
               else if fr_Op f = opResync then Some (Done st)
               else case ParseUint (fr_Epoch f) 16 of
                 None \<Rightarrow> Some (Done st)
               | Some e \<Rightarrow>
                   if of_nat e \<noteq> lv_epoch st then Some (snapshot ke (st\<lparr>lv_snapBad := False\<rparr>))
                   else if fr_Seq f < lv_seq st then Some (Done st)
                   else if fr_Seq f = lv_seq st then
                     if fr_Op f = opTick \<or> fr_Op f = opDiff then Some (state_of (verify ke (fr_Hash f) st))
                     else Some (Done st)
                   else if fr_Op f = opDiff \<and> fr_Inline f \<noteq> [] \<and> fr_Seq f = lv_seq st + 1 then
                     (case b64_DecodeString (fr_Inline f) of
                        Some d \<Rightarrow> Some (state_of (applyPackage ke d (fr_Seq f) st))
                      | None \<Rightarrow> catchUp ke (fr_Seq f) (fr_Hash f) st)
                   else catchUp ke (fr_Seq f) (fr_Hash f) st))"

subsection \<open>The mirror\<close>

text \<open>
  The lists by name, and the goroutine of each: about to take its first snapshot, or in its loop.
\<close>

datatype run_state = Starting | Looping

record mirror =
  mi_sets :: "live_set gomap"
  mi_runs :: "run_state gomap"
  mi_closed :: bool

definition mirror_New :: mirror where
  "mirror_New = \<lparr>mi_sets = Map.empty, mi_runs = Map.empty, mi_closed = False\<rparr>"

definition new_set :: "string \<Rightarrow> gotime \<Rightarrow> live_set" where
  "new_set name now =
     \<lparr>lv_name = name, lv_ready = False, lv_epoch = 0, lv_seq = 0, lv_key = replicate 16 (chr 0), lv_typ = 0,
      lv_comp = newComposition, lv_lastSeen = now, lv_silent = False, lv_in = [], lv_syncing = False,
      lv_refused = [], lv_snapBad = False\<rparr>"

text \<open>\<open>Ensure\<close>, with the success of the subscription.\<close>

definition Ensure :: "bool \<Rightarrow> gotime \<Rightarrow> string \<Rightarrow> mirror \<Rightarrow> mirror" where
  "Ensure subscribed now name m =
     (if name = [] then m
      else if mi_sets m name \<noteq> None then m
      else (let m1 = m\<lparr>mi_sets := (mi_sets m)(name \<mapsto> new_set name now)\<rparr>
            in if subscribed then m1\<lparr>mi_runs := (mi_runs m)(name \<mapsto> Starting)\<rparr> else m1))"

text \<open>A frame is queued, or let go when the queue is full.\<close>

definition push_frame :: "frame \<Rightarrow> live_set \<Rightarrow> live_set" where
  "push_frame f st = (if length (lv_in st) < queueDepth then st\<lparr>lv_in := lv_in st @ [f]\<rparr> else st)"

text \<open>The callback of the subscription.\<close>

definition on_message :: "(string \<Rightarrow> frame \<times> bool) \<Rightarrow> string \<Rightarrow> live_set \<Rightarrow> live_set" where
  "on_message json d st = (case json d of (f, ok) \<Rightarrow> if ok then push_frame f st else st)"

text \<open>One turn of \<open>resync\<close> for one list.\<close>

definition resync_set :: "gotime \<Rightarrow> live_set \<Rightarrow> live_set" where
  "resync_set now st =
     (let quiet = (\<not> lv_silent st \<and> time_Sub now (lv_lastSeen st) > silenceAfter);
          st1 = (if lv_ready st \<and> quiet then st\<lparr>lv_silent := True\<rparr> else st)
      in if \<not> lv_ready st then push_frame (no_frame\<lparr>fr_V := frame_Version, fr_Op := opResync\<rparr>) st1
         else st1)"

definition time_milli :: "gotime \<Rightarrow> int" where
  "time_milli t = t div Millisecond"

definition net_key :: "net \<Rightarrow> net" where
  "net_key p = Masked (PrefixFrom (Unmap (net_ip p)) (net_bits p))"

definition set_contains :: "gotime \<Rightarrow> string \<Rightarrow> live_set \<Rightarrow> bool" where
  "set_contains now v st =
     (let c = lv_comp st; ms = time_milli now
      in if lv_typ st = typeCIDR then
           (case ParseAddr v of
              Some a \<Rightarrow> containsAddr c a ms
            | None \<Rightarrow>
                (case ParsePrefix v of
                   Some p \<Rightarrow> (case cm_nets c (net_key p) of None \<Rightarrow> False | Some exp \<Rightarrow> alive exp ms)
                 | None \<Rightarrow> False))
         else (case cm_entries c v of None \<Rightarrow> False | Some e \<Rightarrow> alive (rc_exp e) ms))"

definition mirror_Contains :: "mirror \<Rightarrow> gotime \<Rightarrow> string \<Rightarrow> string \<Rightarrow> bool \<times> bool" where
  "mirror_Contains m now name v =
     (case mi_sets m name of
        None \<Rightarrow> (False, False)
      | Some st \<Rightarrow> if v = [] \<or> \<not> lv_ready st then (False, False) else (set_contains now v st, True))"

text \<open>\<open>Lookup\<close>: the reason and the expiry of a string entry, whether it is there, whether the list is ready.\<close>

definition mirror_Lookup :: "mirror \<Rightarrow> gotime \<Rightarrow> string \<Rightarrow> string \<Rightarrow> (string \<times> int) option \<times> bool" where
  "mirror_Lookup m now name v =
     (case mi_sets m name of
        None \<Rightarrow> (None, False)
      | Some st \<Rightarrow>
          if v = [] \<or> \<not> lv_ready st then (None, False)
          else (case cm_entries (lv_comp st) v of
                  None \<Rightarrow> (None, True)
                | Some e \<Rightarrow> if alive (rc_exp e) (time_milli now) then (Some (rc_reason e, rc_exp e), True)
                            else (None, True)))"

definition mirror_ContainsAddr :: "mirror \<Rightarrow> gotime \<Rightarrow> string \<Rightarrow> addr \<Rightarrow> bool \<times> bool" where
  "mirror_ContainsAddr m now name ip =
     (case mi_sets m name of
        None \<Rightarrow> (False, False)
      | Some st \<Rightarrow> if ip = Addr0 \<or> \<not> lv_ready st then (False, False)
                   else (containsAddr (lv_comp st) ip (time_milli now), True))"

text \<open>\<open>Stats\<close> and a turn of \<open>resync\<close>, over the lists in the order the map is read in.\<close>

record list_stats =
  ls_Name :: string
  ls_Ready :: bool
  ls_Epoch :: string
  ls_Seq :: u64
  ls_Hash :: string
  ls_Entries :: nat

definition comp_size :: "composition \<Rightarrow> nat" where
  "comp_size c = card (dom (cm_entries c)) + card (dom (cm_nets c))"

definition set_stats :: "live_set \<Rightarrow> list_stats" where
  "set_stats st =
     \<lparr>ls_Name = lv_name st, ls_Ready = lv_ready st, ls_Epoch = hexOf (lv_epoch st), ls_Seq = lv_seq st,
      ls_Hash = hexOf (cm_hash (lv_comp st)), ls_Entries = comp_size (lv_comp st)\<rparr>"

definition mirror_Stats :: "string list \<Rightarrow> mirror \<Rightarrow> list_stats list" where
  "mirror_Stats names m = map set_stats (List.map_filter (mi_sets m) names)"

definition mirror_resync :: "gotime \<Rightarrow> string list \<Rightarrow> mirror \<Rightarrow> mirror" where
  "mirror_resync now names m =
     (if mi_closed m then m
      else foldl (\<lambda>m name. case mi_sets m name of
               None \<Rightarrow> m
             | Some st \<Rightarrow> m\<lparr>mi_sets := (mi_sets m)(name \<mapsto> resync_set now st)\<rparr>) m names)"

definition mirror_Close :: "mirror \<Rightarrow> mirror" where
  "mirror_Close m = m\<lparr>mi_closed := True\<rparr>"

text \<open>The steps of the running mirror; a panic stops the program, so it has no next state.\<close>

inductive mirror_step :: "mirror \<Rightarrow> mirror \<Rightarrow> bool" where
  ensure: "mirror_step m (Ensure subscribed now name m)"
| message: "mi_sets m name = Some st \<Longrightarrow> mi_runs m name \<noteq> None \<Longrightarrow>
    mirror_step m (m\<lparr>mi_sets := (mi_sets m)(name \<mapsto> on_message json d st)\<rparr>)"
| first: "mi_sets m name = Some st \<Longrightarrow> mi_runs m name = Some Starting \<Longrightarrow> snapshot ke st = Done st' \<Longrightarrow>
    mirror_step m (m\<lparr>mi_sets := (mi_sets m)(name \<mapsto> st'), mi_runs := (mi_runs m)(name \<mapsto> Looping)\<rparr>)"
| handle: "mi_sets m name = Some st \<Longrightarrow> mi_runs m name = Some Looping \<Longrightarrow> lv_in st = f # fs \<Longrightarrow>
    onFrame ke now f (st\<lparr>lv_in := fs\<rparr>) = Some (Done st') \<Longrightarrow>
    mirror_step m (m\<lparr>mi_sets := (mi_sets m)(name \<mapsto> st')\<rparr>)"
| resync: "mi_sets m name = Some st \<Longrightarrow> \<not> mi_closed m \<Longrightarrow>
    mirror_step m (m\<lparr>mi_sets := (mi_sets m)(name \<mapsto> resync_set now st)\<rparr>)"
| close: "mirror_step m (mirror_Close m)"

inductive mirror_reach :: "mirror \<Rightarrow> bool" where
  init: "mirror_reach mirror_New"
| step: "mirror_reach m \<Longrightarrow> mirror_step m m' \<Longrightarrow> mirror_reach m'"

inductive_cases mirror_reachE: "mirror_reach m"

lemma mirror_reach_resync: "mirror_reach m \<Longrightarrow> mirror_reach (mirror_resync now names m)"
proof (cases "mi_closed m")
  case False
  assume "mirror_reach m"
  with False have "mirror_reach (foldl (\<lambda>m name. case mi_sets m name of
               None \<Rightarrow> m
             | Some st \<Rightarrow> m\<lparr>mi_sets := (mi_sets m)(name \<mapsto> resync_set now st)\<rparr>) m names)"
  proof (induction names arbitrary: m)
    case (Cons name names)
    then show ?case
      using mirror_reach.step [OF Cons.prems(2) mirror_step.resync, of name] by (cases "mi_sets m name") auto
  qed simp
  with False show ?thesis by (simp add: mirror_resync_def)
qed (simp add: mirror_resync_def)

lemma install_ready [simp]: "lv_ready (install h c st)"
  by (simp add: install_def)

subsection \<open>Invariants of one list\<close>

text \<open>All objects a handler can read, and the one a frame carries, have a property.\<close>

definition good_env :: "(string \<Rightarrow> bool) \<Rightarrow> keeper_env \<Rightarrow> bool" where
  "good_env Good ke \<longleftrightarrow> (\<forall>b. ke_blobs ke = Some b \<longrightarrow>
     (\<forall>k d. bl_Object b k = Some (Some d) \<longrightarrow> Good d) \<and>
     (\<forall>ks ds d. bl_Objects b ks = Some ds \<longrightarrow> Some d \<in> set ds \<longrightarrow> Good d))"

definition good_frame :: "(string \<Rightarrow> bool) \<Rightarrow> frame \<Rightarrow> bool" where
  "good_frame Good f \<longleftrightarrow> (\<forall>d. b64_DecodeString (fr_Inline f) = Some d \<longrightarrow> Good d)"

text \<open>
  What every handler keeps, as a contract: a property of the state of a list that does not look at
  the bookkeeping fields and that snapshots and packages from good objects keep.
\<close>

locale set_invariant =
  fixes P :: "live_set \<Rightarrow> bool" and Good :: "string \<Rightarrow> bool"
  assumes P_misc: "P (st\<lparr>lv_refused := x\<rparr>) = P st" "P (st\<lparr>lv_snapBad := b\<rparr>) = P st"
      "P (st\<lparr>lv_lastSeen := t\<rparr>) = P st" "P (st\<lparr>lv_silent := b\<rparr>) = P st" "P (st\<lparr>lv_in := fs\<rparr>) = P st"
    and P_install: "P st \<Longrightarrow> Good d \<Longrightarrow> unpack d = Inr (h, rs) \<Longrightarrow> ph_kind h = kindSnapshot \<Longrightarrow>
      apply_all (ph_key h) (ph_typ h) rs newComposition = Done c \<Longrightarrow> P (install h c st)"
    and P_package: "P st \<Longrightarrow> lv_ready st \<Longrightarrow> Good d \<Longrightarrow> unpack d = Inr (h, rs) \<Longrightarrow>
      ph_kind h = kindPackage \<Longrightarrow> ph_epoch h = lv_epoch st \<Longrightarrow> ph_seq h = lv_seq st + 1 \<Longrightarrow>
      ph_typ h = lv_typ st \<Longrightarrow> apply_all (lv_key st) (ph_typ h) rs (lv_comp st) = Done c \<Longrightarrow>
      P (st\<lparr>lv_comp := c, lv_seq := ph_seq h\<rparr>)"
begin

lemma read_snapshot_inv:
  assumes "read_snapshot d st = Done st'" and "P st" and "Good d"
  shows "P st' \<and> (lv_ready st \<longrightarrow> lv_ready st')"
  using assms P_install
  by (auto simp: read_snapshot_def install_ready split: if_splits sum.splits prod.splits may_panic.splits)

lemma snapshot_inv:
  assumes "snapshot ke st = Done st'" and "P st" and "good_env Good ke"
  shows "P st' \<and> (lv_ready st \<longrightarrow> lv_ready st')"
proof -
  have "P st' \<and> (lv_ready st \<longrightarrow> lv_ready st')"
    if "read_snapshot d (st\<lparr>lv_refused := []\<rparr>) = Done st'" "Good d" for d
    using read_snapshot_inv [OF that(1) _ that(2)] assms(2) by (simp add: P_misc)
  with assms show ?thesis
    by (auto simp: snapshot_def Let_def P_misc good_env_def split: if_splits option.splits prod.splits)
qed

lemma verify_inv:
  assumes "verify ke want st = Done (ok, st')" and "P st" and "good_env Good ke"
  shows "P st' \<and> (lv_ready st \<longrightarrow> lv_ready st') \<and> (ok \<longrightarrow> st' = st)"
  using assms snapshot_inv
  by (auto simp: verify_def split: if_splits may_panic.splits)

lemma applyPackage_inv:
  assumes "applyPackage ke d (lv_seq st + 1) st = Done (ok, st')" and "P st" and "lv_ready st"
    and "good_env Good ke" and "Good d"
  shows "P st' \<and> lv_ready st' \<and> (ok \<longrightarrow> lv_seq st' = lv_seq st + 1)"
proof -
  consider (retake) "snapshot ke st = Done st'" "\<not> ok"
    | (go) h rs c where "unpack d = Inr (h, rs)" "ph_kind h = kindPackage" "ph_epoch h = lv_epoch st"
        "ph_seq h = lv_seq st + 1" "ph_typ h = lv_typ st"
        "apply_all (lv_key st) (ph_typ h) rs (lv_comp st) = Done c"
        "verify ke (hexOf (ph_hash h)) (st\<lparr>lv_comp := c, lv_seq := ph_seq h\<rparr>) = Done (ok, st')"
    using assms(1)
    by (auto simp: applyPackage_def Let_def split: sum.splits prod.splits if_splits may_panic.splits)
  then show ?thesis
  proof cases
    case retake
    with snapshot_inv [OF _ assms(2,4)] assms(3) show ?thesis by blast
  next
    case go
    with P_package [OF assms(2,3,5)] have "P (st\<lparr>lv_comp := c, lv_seq := ph_seq h\<rparr>)" by blast
    from verify_inv [OF go(7) this assms(4)] assms(3) go(4) show ?thesis by auto
  qed
qed

lemma apply_objs_inv:
  assumes "apply_objs ke (lv_seq st) ds st = Done (ok, st')" and "P st" and "lv_ready st"
    and "good_env Good ke" and "\<forall>d. Some d \<in> set ds \<longrightarrow> Good d"
  shows "P st' \<and> lv_ready st' \<and> (ok \<longrightarrow> lv_seq st' = lv_seq st + of_nat (length ds))"
  using assms
proof (induction ds arbitrary: st)
  case (Cons o' ds)
  show ?case
  proof (cases o')
    case None
    with Cons.prems snapshot_inv [of ke st] show ?thesis by (auto split: may_panic.splits)
  next
    case (Some d)
    with Cons.prems(1) obtain go st1 where a: "applyPackage ke d (lv_seq st + 1) st = Done (go, st1)"
      by (auto split: may_panic.splits)
    from Some Cons.prems have "Good d" by simp
    with applyPackage_inv [OF a Cons.prems(2-4)] have p: "P st1" "lv_ready st1"
      and s: "go \<longrightarrow> lv_seq st1 = lv_seq st + 1" by auto
    show ?thesis
    proof (cases go)
      case True
      with Some Cons.prems(1) a s have "apply_objs ke (lv_seq st1) ds st1 = Done (ok, st')" by simp
      from Cons.IH [OF this p Cons.prems(4)] Cons.prems(5) True s show ?thesis by simp
    next
      case False
      with Some Cons.prems(1) a p show ?thesis by auto
    qed
  qed
qed simp

lemma catchUp_loop_inv:
  assumes "catchUp_loop ke b lim hash st = Some (Done st')" and "P st" and "lv_ready st"
    and "good_env Good ke" and "ke_blobs ke = Some b"
  shows "P st' \<and> lv_ready st'"
proof -
  have "\<forall>st'. r = Done st' \<longrightarrow> P st \<longrightarrow> lv_ready st \<longrightarrow> ke_blobs ke = Some b \<longrightarrow> good_env Good ke \<longrightarrow>
      P st' \<and> lv_ready st'"
    if "catchUp_loop ke b lim hash st = Some r" for r
    using that
  proof (induction rule: catchUp_loop.raw_induct [rotated, consumes 1, case_names 1])
    case (1 rec ke b lim hash st r)
    show ?case
    proof (intro allI impI)
      fix st' assume r: "r = Done st'" and st: "P st" "lv_ready st" and b: "ke_blobs ke = Some b"
        and g: "good_env Good ke"
      show "P st' \<and> lv_ready st'"
      proof (cases "lv_seq st \<ge> lim")
        case True
        with 1(2) r have v: "state_of (verify ke hash st) = Done st'" by simp
        show ?thesis
        proof (cases "verify ke hash st")
          case (Done p)
          with v have "verify ke hash st = Done (fst p, st')" by auto
          from verify_inv [OF this st(1) g] st(2) show ?thesis by simp
        qed (use v in simp)
      next
        case False
        show ?thesis
        proof (cases "bl_Objects b (keys_upto lim st)")
          case None
          with False 1(2) r st show ?thesis by auto
        next
          case (Some ds)
          with False 1(2) r have "apply_objs ke (lv_seq st) ds st \<noteq> Panics" by auto
          then obtain ok st1 where a: "apply_objs ke (lv_seq st) ds st = Done (ok, st1)"
            by (cases "apply_objs ke (lv_seq st) ds st") auto
          from Some b g have "\<forall>d. Some d \<in> set ds \<longrightarrow> Good d" by (auto simp: good_env_def)
          with apply_objs_inv [OF a st g] have "P st1" "lv_ready st1" by auto
          with False Some a 1(1) [of ke b lim hash st1 r] 1(2) r b g show ?thesis
            by (auto split: if_splits)
        qed
      qed
    qed
  qed
  with assms show ?thesis by blast
qed

lemma onFrame_inv:
  assumes "onFrame ke now f st = Some (Done st')" and "P st" and "good_env Good ke" and "good_frame Good f"
  shows "P st'"
proof -
  define s1 where "s1 = (if fr_Op f \<noteq> opResync then st\<lparr>lv_lastSeen := now, lv_silent := False\<rparr> else st)"
  have s1: "P s1" using assms(2) by (simp add: s1_def P_misc)
  have up: "P st'" if "catchUp ke (fr_Seq f) (fr_Hash f) s1 = Some (Done st')" "lv_ready s1"
    using that s1 assms(3) catchUp_loop_inv
    by (auto simp: catchUp_def split: option.splits)
  have pk: "P st'" if "applyPackage ke d (lv_seq s1 + 1) s1 = Done (ok, st')" "lv_ready s1"
    "b64_DecodeString (fr_Inline f) = Some d" for d ok
    using applyPackage_inv [OF that(1) s1 that(2) assms(3)] that(3) assms(4) by (auto simp: good_frame_def)
  have vf: "P st'" if "verify ke (fr_Hash f) s1 = Done (ok, st')" for ok
    using verify_inv [OF that s1 assms(3)] by simp
  have sn: "P st'" if "snapshot ke s1 = Done st' \<or> snapshot ke (s1\<lparr>lv_snapBad := False\<rparr>) = Done st'"
    using that snapshot_inv [OF _ _ assms(3)] s1 by (auto simp: P_misc)
  have same: "P st'" if "s1 = st' \<or> st = st'" using that s1 assms(2) by auto
  from assms(1) show ?thesis
    unfolding onFrame_def Let_def s1_def [symmetric]
    by (auto split: if_splits option.splits may_panic.splits intro: up pk vf sn same)
qed

end

interpretation comp_ok: set_invariant "\<lambda>st. comp_inv (lv_key st) (lv_comp st)" "\<lambda>d. True"
  by unfold_locales (auto simp: install_def intro: apply_all_inv comp_inv_new)

interpretation same_name: set_invariant "\<lambda>st. lv_name st = n" "\<lambda>d. True" for n
  by unfold_locales (auto simp: install_def)

interpretation any_set: set_invariant "\<lambda>st. True" "\<lambda>d. True"
  by unfold_locales auto

lemma good_any [simp]: "good_env (\<lambda>d. True) ke" "good_frame (\<lambda>d. True) f"
  by (simp_all add: good_env_def good_frame_def)

subsection \<open>Handlers return\<close>

text \<open>A store answers a read of several objects with one answer for each.\<close>

definition answers_all :: "keeper_env \<Rightarrow> bool" where
  "answers_all ke \<longleftrightarrow> (\<forall>b ks ds. ke_blobs ke = Some b \<longrightarrow> bl_Objects b ks = Some ds \<longrightarrow> length ds = length ks)"

lemma redis_answers:
  assumes "ke_blobs ke = Some (redis_blobs c)" and "\<And>ks vs. bc_MGet c ks = Some vs \<Longrightarrow> length vs = length ks"
  shows "answers_all ke"
  using assms by (auto simp: answers_all_def redis_blobs_def blobs_Objects_def split: option.splits)

lemma unat_step_less:
  fixes lim s :: u64
  assumes "\<not> lim \<le> s"
  shows "unat (lim - (s + of_nat (min (unat (lim - s)) 256))) < unat (lim - s)"
proof -
  let ?d = "lim - s"
  have pos: "0 < unat ?d" using assms by (auto simp: unat_gt_0)
  let ?n = "min (unat ?d) 256"
  have n: "unat (of_nat ?n :: u64) = ?n"
    by (simp add: unsigned_of_nat take_bit_nat_eq_self)
  then have "(of_nat ?n :: u64) \<le> ?d" by (simp add: word_le_nat_alt)
  then have u: "unat (?d - of_nat ?n) = unat ?d - ?n" by (simp add: unat_sub n)
  have eq: "lim - (s + of_nat ?n) = ?d - of_nat ?n" by (simp only: diff_diff_eq)
  show ?thesis unfolding eq u using pos by simp
qed

lemma catchUp_loop_returns:
  assumes "answers_all ke" and "ke_blobs ke = Some b" and "lv_ready st"
  shows "\<exists>r. catchUp_loop ke b lim hash st = Some r"
  using assms(3)
proof (induction "unat (lim - lv_seq st)" arbitrary: st rule: less_induct)
  case less
  show ?case
  proof (cases "lv_seq st \<ge> lim")
    case False
    show ?thesis
    proof (cases "bl_Objects b (keys_upto lim st)")
      case (Some ds)
      with assms have len: "length ds = min (unat (lim - lv_seq st)) 256"
        by (auto simp: answers_all_def keys_upto_def)
      show ?thesis
      proof (cases "apply_objs ke (lv_seq st) ds st")
        case (Done p)
        then have a: "apply_objs ke (lv_seq st) ds st = Done (fst p, snd p)" by simp
        from any_set.apply_objs_inv [OF a _ less.prems] have
          "lv_ready (snd p)" "fst p \<longrightarrow> lv_seq (snd p) = lv_seq st + of_nat (length ds)"
          by auto
        with less.hyps [of "snd p"] unat_step_less [OF False] Done False Some len show ?thesis
          by (subst catchUp_loop.simps) auto
      qed (use False Some in \<open>subst catchUp_loop.simps, simp\<close>)
    qed (use False in \<open>subst catchUp_loop.simps, simp\<close>)
  qed (subst catchUp_loop.simps, simp)
qed

lemma onFrame_total:
  assumes "answers_all ke"
  shows "\<exists>r. onFrame ke now f st = Some r"
proof -
  have "\<exists>r. catchUp ke lim hash s = Some r" if "lv_ready s" for lim hash s
    using catchUp_loop_returns [OF _ _ that, of ke] assms
    by (auto simp: catchUp_def split: option.splits)
  then show ?thesis by (auto simp: onFrame_def Let_def split: option.splits)
qed

text \<open>
  C32.  A handler of a frame always returns, whatever the frame, the list and the objects are, as
  long as the store answers a read of several objects with one answer for each: the loop that
  catches up gets nearer to the announced sequence number with every round.
\<close>

theorem onFrame_returns:
  assumes "\<forall>b ks ds. ke_blobs ke = Some b \<longrightarrow> bl_Objects b ks = Some ds \<longrightarrow> length ds = length ks"
  shows "\<exists>r. onFrame ke now f st = Some r"
  using assms by (intro onFrame_total) (simp add: answers_all_def)

subsection \<open>Invariants of the mirror\<close>

definition mirror_inv :: "mirror \<Rightarrow> bool" where
  "mirror_inv m \<longleftrightarrow> (\<forall>name st. mi_sets m name = Some st \<longrightarrow>
     lv_name st = name \<and> comp_inv (lv_key st) (lv_comp st) \<and> (mi_runs m name = None \<longrightarrow> \<not> lv_ready st))"

lemma mirror_inv_upd:
  assumes "mirror_inv m" and "lv_name st = name" and "comp_inv (lv_key st) (lv_comp st)"
    and "mi_runs m name = None \<longrightarrow> \<not> lv_ready st"
  shows "mirror_inv (m\<lparr>mi_sets := (mi_sets m)(name \<mapsto> st)\<rparr>)"
  using assms by (auto simp: mirror_inv_def)

lemma push_frame_fields [simp]:
  "lv_name (push_frame f st) = lv_name st" "lv_ready (push_frame f st) = lv_ready st"
  "lv_key (push_frame f st) = lv_key st" "lv_comp (push_frame f st) = lv_comp st"
  by (simp_all add: push_frame_def)

lemma resync_set_fields [simp]:
  "lv_name (resync_set now st) = lv_name st" "lv_ready (resync_set now st) = lv_ready st"
  "lv_key (resync_set now st) = lv_key st" "lv_comp (resync_set now st) = lv_comp st"
  by (simp_all add: resync_set_def Let_def)

lemma on_message_fields [simp]:
  "lv_name (on_message json d st) = lv_name st" "lv_ready (on_message json d st) = lv_ready st"
  "lv_key (on_message json d st) = lv_key st" "lv_comp (on_message json d st) = lv_comp st"
  by (simp_all add: on_message_def split: prod.splits)

lemma mirror_step_inv: "mirror_step m m' \<Longrightarrow> mirror_inv m \<Longrightarrow> mirror_inv m'"
proof (induction rule: mirror_step.induct)
  case (ensure m subscribed now name)
  then show ?case by (auto simp: mirror_inv_def Ensure_def new_set_def comp_inv_new Let_def)
next
  case (message m name st json d)
  then show ?case by (intro mirror_inv_upd) (auto simp: mirror_inv_def)
next
  case (first m name st ke st')
  then have "lv_name st = name" "comp_inv (lv_key st) (lv_comp st)" by (auto simp: mirror_inv_def)
  with same_name.snapshot_inv [OF first(3)] comp_ok.snapshot_inv [OF first(3)] first(4) show ?case
    by (auto simp: mirror_inv_def)
next
  case (handle m name st f fs ke now st')
  then have "lv_name (st\<lparr>lv_in := fs\<rparr>) = name" "comp_inv (lv_key (st\<lparr>lv_in := fs\<rparr>)) (lv_comp (st\<lparr>lv_in := fs\<rparr>))"
    by (auto simp: mirror_inv_def)
  with same_name.onFrame_inv [OF handle(4)] comp_ok.onFrame_inv [OF handle(4)] handle show ?case
    by (intro mirror_inv_upd) auto
next
  case (resync m name st now)
  then show ?case by (intro mirror_inv_upd) (auto simp: mirror_inv_def)
next
  case (close m)
  then show ?case by (simp add: mirror_inv_def mirror_Close_def)
qed

lemma mirror_inv_New: "mirror_inv mirror_New"
  by (simp add: mirror_inv_def mirror_New_def)

lemma mirror_reach_inv: "mirror_reach m \<Longrightarrow> mirror_inv m"
  by (induction rule: mirror_reach.induct) (auto intro: mirror_inv_New mirror_step_inv)

text \<open>The contract the rules rely on.\<close>

interpretation mirror_lists: list_sets "mirror_Contains m now" for m now
  by unfold_locales (auto simp: mirror_Contains_def split: option.splits if_splits)

text \<open>
  C21.  What a lookup answers, in every state the mirror can reach under any messages, snapshots,
  packages and resyncs.  It is ready exactly for a list that has had a snapshot, and finds nothing
  in any other; in a list of strings it finds exactly the entries that have not expired; in a list
  of prefixes it finds an address exactly when a prefix that has not expired covers it (the
  prefixes being written as a keeper writes them).
\<close>

theorem contains_by_definition:
  assumes "mirror_reach m" and "mirror_Contains m now name v = (ok, ready)"
  shows "(ready \<longleftrightarrow> v \<noteq> [] \<and> (\<exists>st. mi_sets m name = Some st \<and> lv_ready st)) \<and> (ok \<longrightarrow> ready) \<and>
    (\<forall>st. mi_sets m name = Some st \<longrightarrow> ready \<longrightarrow>
       (lv_typ st \<noteq> typeCIDR \<longrightarrow>
          (ok \<longleftrightarrow> (\<exists>e. cm_entries (lv_comp st) v = Some e \<and> alive (rc_exp e) (time_milli now)))) \<and>
       (lv_typ st = typeCIDR \<longrightarrow> (\<forall>p \<in> dom (cm_nets (lv_comp st)). canonical p) \<longrightarrow>
          (\<forall>ip. ParseAddr v = Some ip \<longrightarrow>
             (ok \<longleftrightarrow> (\<exists>p exp. cm_nets (lv_comp st) p = Some exp \<and> alive exp (time_milli now) \<and>
                          covers p (Unmap ip))))))"
proof -
  have cidr: "containsAddr (lv_comp st) ip t \<longleftrightarrow>
      (\<exists>p exp. cm_nets (lv_comp st) p = Some exp \<and> alive exp t \<and> covers p (Unmap ip))"
    if "mi_sets m name = Some st" "\<forall>p \<in> dom (cm_nets (lv_comp st)). canonical p" "ParseAddr v = Some ip"
    for st ip t
  proof -
    have "comp_inv (lv_key st) (lv_comp st)"
      using mirror_reach_inv [OF assms(1)] that(1) by (auto simp: mirror_inv_def)
    with that(2) containsAddr_sound [OF _ ParseAddr_valid [OF that(3)]] containsAddr_complete
    show ?thesis by blast
  qed
  show ?thesis
    using assms(2) cidr
    by (auto simp: mirror_Contains_def set_contains_def Let_def split: option.splits if_splits)
qed

subsection \<open>A lost subscription\<close>

lemma runs_registered: "mirror_reach m \<Longrightarrow> mi_sets m name = None \<Longrightarrow> mi_runs m name = None"
proof (induction rule: mirror_reach.induct)
  case (step m m')
  from step(2,1,3,4) show ?case
    by (induction rule: mirror_step.induct)
      (auto simp: Ensure_def Let_def mirror_Close_def split: if_splits)
qed (simp add: mirror_New_def)

lemma unrun_stays:
  assumes "mirror_step m m'" and "mirror_inv m" and "mi_sets m name \<noteq> None" and "mi_runs m name = None"
  shows "mi_sets m' name \<noteq> None \<and> mi_runs m' name = None"
  using assms by (induction rule: mirror_step.induct) (auto simp: Ensure_def Let_def mirror_Close_def)

lemma unrun_never_ready:
  assumes "mirror_step\<^sup>*\<^sup>* m m'" and "mirror_inv m" and "mi_sets m name \<noteq> None" and "mi_runs m name = None"
  shows "mirror_inv m' \<and> mi_sets m' name \<noteq> None \<and> mi_runs m' name = None"
  using assms
  by (induction rule: rtranclp_induct) (use mirror_step_inv unrun_stays in blast)+

text \<open>
  C40.  A list whose subscription failed is never mirrored: it is registered before the subscription
  is made and stays registered, so asking for it again does nothing, and whatever happens later no
  lookup in it is ever ready.
\<close>

theorem failed_subscription_is_final:
  assumes "mirror_reach m" and "mi_sets m name = None" and "name \<noteq> []"
    and "mirror_step\<^sup>*\<^sup>* (Ensure False now name m) m'"
  shows "Ensure True now' name m' = m' \<and> mirror_Contains m' now' name v = (False, False)"
proof -
  let ?m = "Ensure False now name m"
  have "mirror_inv ?m"
    using mirror_reach_inv [OF mirror_reach.step [OF assms(1) mirror_step.ensure]] .
  moreover have "mi_sets ?m name \<noteq> None" using assms(2,3) by (simp add: Ensure_def Let_def)
  moreover have "mi_runs ?m name = None"
    using assms(2,3) runs_registered [OF assms(1)] by (simp add: Ensure_def Let_def)
  ultimately have "mirror_inv m'" "mi_sets m' name \<noteq> None" "mi_runs m' name = None"
    using unrun_never_ready [OF assms(4)] by blast+
  then show ?thesis by (auto simp: mirror_inv_def Ensure_def mirror_Contains_def)
qed

subsection \<open>Concrete states\<close>

definition demo_env :: keeper_env where
  "demo_env = \<lparr>ke_request = (\<lambda>s. None), ke_json = (\<lambda>d. (no_frame, False)),
     ke_blobs = Some (redis_blobs \<lparr>bc_Get = (\<lambda>k. Inl RedisNil), bc_MGet = (\<lambda>ks. Some (map (\<lambda>k. None) ks))\<rparr>)\<rparr>"

theorem onFrame_returns_witness:
  "\<exists>r. onFrame demo_env 5 (no_frame\<lparr>fr_V := 3, fr_Op := opDiff, fr_Seq := 9, fr_Epoch := ''0''\<rparr>)
     ((new_set ''bots'' 0)\<lparr>lv_ready := True\<rparr>) = Some r"
proof (rule onFrame_returns)
  have "answers_all demo_env" by (rule redis_answers) (auto simp: demo_env_def)
  then show "\<forall>b ks ds. ke_blobs demo_env = Some b \<longrightarrow> bl_Objects b ks = Some ds \<longrightarrow> length ds = length ks"
    by (simp add: answers_all_def)
qed

text \<open>A list of one prefix, \<^verbatim>\<open>10.0.0.0/8\<close>, taken from a snapshot.\<close>

definition net_env :: keeper_env where
  "net_env = demo_env\<lparr>ke_request := (\<lambda>s. Some ''reply''),
     ke_json := (\<lambda>d. (no_frame\<lparr>fr_Op := opSnapshot, fr_Object := ''o''\<rparr>, True)),
     ke_blobs := Some \<lparr>bl_Object = (\<lambda>k. Some (Some (pack demo_head [demo_net]))), bl_Objects = (\<lambda>ks. None)\<rparr>\<rparr>"

definition net_mirror :: mirror where
  "net_mirror = mirror_New\<lparr>mi_sets := [''nets'' \<mapsto> install demo_head demo_composition (new_set ''nets'' 0)],
     mi_runs := [''nets'' \<mapsto> Looping]\<rparr>"

lemma net_snapshot: "snapshot net_env (new_set ''nets'' 0) = Done (install demo_head demo_composition (new_set ''nets'' 0))"
proof -
  have "unpack (pack demo_head [demo_net]) = Inr (demo_head, [demo_net])"
    using unpack_pack_id [of demo_head "[demo_net]" "[]"]
    by (simp add: head_ok_def record_ok_def net_ok_def demo_head_def demo_net_def list_key_def in64_def)
  moreover have "ph_kind demo_head = 1" "apply_all (ph_key demo_head) (ph_typ demo_head) [demo_net] newComposition =
      Done demo_composition"
    using demo_apply by (simp_all add: demo_head_def)
  ultimately show ?thesis
    by (simp add: snapshot_def read_snapshot_def net_env_def demo_env_def new_set_def no_frame_def Let_def install_def)
qed

lemma net_reach: "mirror_reach net_mirror"
proof -
  let ?m = "Ensure True 0 ''nets'' mirror_New"
  have m: "mi_sets ?m ''nets'' = Some (new_set ''nets'' 0)" "mi_runs ?m ''nets'' = Some Starting"
    by (simp_all add: Ensure_def mirror_New_def Let_def)
  have "mirror_reach ?m" by (rule mirror_reach.step [OF mirror_reach.init mirror_step.ensure])
  from mirror_reach.step [OF this mirror_step.first [OF m net_snapshot]] show ?thesis
    by (simp add: net_mirror_def Ensure_def mirror_New_def Let_def)
qed

lemma parse_demo_addr: "ParseAddr ''10.0.0.5'' = Some (V4 167772165)"
  by (simp add: ParseAddr_def parseIPv4Fields_def char_class_defs AddrFrom4_def be_nat_def of_char_of)

theorem contains_by_definition_witness: "mirror_Contains net_mirror 0 ''nets'' ''10.0.0.5'' = (True, True)"
proof -
  let ?st = "install demo_head demo_composition (new_set ''nets'' 0)"
  obtain ok ready where c: "mirror_Contains net_mirror 0 ''nets'' ''10.0.0.5'' = (ok, ready)"
    by (cases "mirror_Contains net_mirror 0 ''nets'' ''10.0.0.5''")
  have st: "mi_sets net_mirror ''nets'' = Some ?st" "lv_typ ?st = typeCIDR" "lv_comp ?st = demo_composition"
    by (simp_all add: net_mirror_def install_def demo_head_def)
  have n: "cm_nets demo_composition (Net (V4 167772160) 8) = Some 0" "alive 0 (time_milli 0)"
    and can: "\<forall>p \<in> dom (cm_nets demo_composition). canonical p"
    by (simp_all add: demo_composition_def newComposition_def demo_canonical alive_def)
  have "\<exists>p exp. cm_nets demo_composition p = Some exp \<and> alive exp (time_milli 0) \<and> covers p (Unmap (V4 167772165))"
    using n demo_canonical(2) by (metis Unmap.simps(3))
  moreover have ready using contains_by_definition [OF net_reach c] st(1) install_ready by blast
  ultimately have ok using contains_by_definition [OF net_reach c] st parse_demo_addr can by metis
  with \<open>ready\<close> c show ?thesis by simp
qed

theorem failed_subscription_is_final_witness:
  "mirror_Contains (Ensure False 0 ''bots'' mirror_New) 0 ''bots'' ''x'' = (False, False)"
  using failed_subscription_is_final [OF mirror_reach.init, of "''bots''" 0
      "Ensure False 0 ''bots'' mirror_New" 0 "''x''"]
  by (simp add: mirror_New_def)

end
