(* ===== verification/Keeper.thy ===== *)
theory Keeper
  imports Mirror
begin

text \<open>
  What the mirror of lists promises: a list that follows a keeper is, at every moment, exactly the
  keeper's list of some sequence number.  The keeper is the program that owns the lists; here it is
  the history of its lists (\<open>keeper\<close>), and an object is honest when it says about that history what
  it should.  The contracts of the handlers (locale \<open>set_invariant\<close>) give the refinement.
\<close>

subsection \<open>The keeper\<close>

text \<open>For every epoch its key and type, and the content at every sequence number.\<close>

record keeper =
  kp_key :: "u64 \<Rightarrow> key"
  kp_typ :: "u64 \<Rightarrow> nat"
  kp_comp :: "u64 \<Rightarrow> u64 \<Rightarrow> composition"

definition honest_snapshot :: "keeper \<Rightarrow> pack_head \<Rightarrow> pack_record list \<Rightarrow> bool" where
  "honest_snapshot K h rs \<longleftrightarrow>
     ph_key h = kp_key K (ph_epoch h) \<and> ph_typ h = kp_typ K (ph_epoch h) \<and>
     apply_all (ph_key h) (ph_typ h) rs newComposition = Done (kp_comp K (ph_epoch h) (ph_seq h))"

definition honest_package :: "keeper \<Rightarrow> pack_head \<Rightarrow> pack_record list \<Rightarrow> bool" where
  "honest_package K h rs \<longleftrightarrow>
     apply_all (kp_key K (ph_epoch h)) (kp_typ K (ph_epoch h)) rs (kp_comp K (ph_epoch h) (ph_seq h - 1)) =
       Done (kp_comp K (ph_epoch h) (ph_seq h))"

text \<open>An object that does not read at all, or is of another kind, does no harm.\<close>

definition honest :: "keeper \<Rightarrow> string \<Rightarrow> bool" where
  "honest K d \<longleftrightarrow> (\<forall>h rs. unpack d = Inr (h, rs) \<longrightarrow>
     (ph_kind h = kindSnapshot \<longrightarrow> honest_snapshot K h rs) \<and>
     (ph_kind h = kindPackage \<longrightarrow> honest_package K h rs))"

definition follows :: "keeper \<Rightarrow> live_set \<Rightarrow> bool" where
  "follows K st \<longleftrightarrow> (lv_ready st \<longrightarrow>
     lv_key st = kp_key K (lv_epoch st) \<and> lv_typ st = kp_typ K (lv_epoch st) \<and>
     lv_comp st = kp_comp K (lv_epoch st) (lv_seq st))"

interpretation followed: set_invariant "follows K" "honest K" for K
proof unfold_locales
  fix st d h rs c
  assume "honest K d" "unpack d = Inr (h, rs)" "ph_kind h = kindSnapshot"
    "apply_all (ph_key h) (ph_typ h) rs newComposition = Done c"
  then show "follows K (install h c st)"
    by (simp add: honest_def honest_snapshot_def follows_def install_def)
next
  fix st d h rs c
  assume "follows K st" "lv_ready st" "honest K d" "unpack d = Inr (h, rs)" "ph_kind h = kindPackage"
    "ph_epoch h = lv_epoch st" "ph_seq h = lv_seq st + 1" "ph_typ h = lv_typ st"
    "apply_all (lv_key st) (ph_typ h) rs (lv_comp st) = Done c"
  then show "follows K (st\<lparr>lv_comp := c, lv_seq := ph_seq h\<rparr>)"
    by (simp add: honest_def honest_package_def follows_def)
qed (simp_all add: follows_def)

subsection \<open>Nothing honest panics\<close>

lemma read_snapshot_safe: "honest K d \<Longrightarrow> read_snapshot d st \<noteq> Panics"
  by (auto simp: read_snapshot_def honest_def honest_snapshot_def split: prod.splits sum.splits)

lemma snapshot_safe: "good_env (honest K) ke \<Longrightarrow> snapshot ke st \<noteq> Panics"
  using read_snapshot_safe [of K]
  by (auto simp: snapshot_def good_env_def Let_def split: option.splits prod.splits)

lemma verify_safe: "good_env (honest K) ke \<Longrightarrow> verify ke want st \<noteq> Panics"
  using snapshot_safe by (auto simp: verify_def split: may_panic.splits)

lemma applyPackage_safe:
  assumes "good_env (honest K) ke" and "honest K d" and "follows K st" and "lv_ready st"
  shows "applyPackage ke d (lv_seq st + 1) st \<noteq> Panics"
  using assms snapshot_safe [OF assms(1)] verify_safe [OF assms(1)]
  by (auto simp: applyPackage_def honest_def honest_package_def follows_def Let_def
      split: sum.splits prod.splits may_panic.splits)

lemma apply_objs_safe:
  assumes "good_env (honest K) ke" and "\<forall>d. Some d \<in> set ds \<longrightarrow> honest K d" and "follows K st" and "lv_ready st"
  shows "apply_objs ke (lv_seq st) ds st \<noteq> Panics"
  using assms
proof (induction ds arbitrary: st)
  case (Cons o' ds)
  show ?case
  proof (cases o')
    case None
    with snapshot_safe [OF Cons.prems(1)] show ?thesis by (auto split: may_panic.splits)
  next
    case (Some d)
    with Cons.prems have d: "honest K d" by simp
    from applyPackage_safe [OF Cons.prems(1) d Cons.prems(3,4)] obtain ok st1
      where a: "applyPackage ke d (lv_seq st + 1) st = Done (ok, st1)"
      by (cases "applyPackage ke d (lv_seq st + 1) st") auto
    from followed.applyPackage_inv [OF a Cons.prems(3,4,1) d]
    have "follows K st1" "lv_ready st1" "ok \<longrightarrow> lv_seq st1 = lv_seq st + 1" by auto
    with Some a Cons.IH [OF Cons.prems(1), of st1] Cons.prems(2) show ?thesis by auto
  qed
qed simp

lemma catchUp_loop_safe:
  assumes "catchUp_loop ke b lim hash st = Some r" and "good_env (honest K) ke" and "ke_blobs ke = Some b"
    and "follows K st" and "lv_ready st"
  shows "r \<noteq> Panics"
proof -
  have "good_env (honest K) ke \<longrightarrow> ke_blobs ke = Some b \<longrightarrow> follows K st \<longrightarrow> lv_ready st \<longrightarrow> r \<noteq> Panics"
    using assms(1)
  proof (induction rule: catchUp_loop.raw_induct [rotated, consumes 1, case_names 1])
    case (1 rec ke b lim hash st r)
    show ?case
    proof (intro impI)
      assume h: "good_env (honest K) ke" and b: "ke_blobs ke = Some b" and st: "follows K st" "lv_ready st"
      show "r \<noteq> Panics"
      proof (cases "lim \<le> lv_seq st")
        case True
        with 1(2) verify_safe [OF h, of hash st] show ?thesis by (auto split: may_panic.splits)
      next
        case False
        show ?thesis
        proof (cases "bl_Objects b (keys_upto lim st)")
          case None
          with False 1(2) show ?thesis by auto
        next
          case (Some ds)
          with b h have ds: "\<forall>d. Some d \<in> set ds \<longrightarrow> honest K d" by (auto simp: good_env_def)
          from apply_objs_safe [OF h ds st] obtain ok st1
            where a: "apply_objs ke (lv_seq st) ds st = Done (ok, st1)"
            by (cases "apply_objs ke (lv_seq st) ds st") auto
          from followed.apply_objs_inv [OF a st h ds] have "follows K st1" "lv_ready st1" by auto
          with False Some a 1(1) [of ke b lim hash st1 r] 1(2) b h show ?thesis
            by (auto split: if_splits)
        qed
      qed
    qed
  qed
  with assms show ?thesis by blast
qed

lemma onFrame_safe:
  assumes "onFrame ke now f st = Some r" and "follows K st" and "good_env (honest K) ke" and "good_frame (honest K) f"
  shows "r \<noteq> Panics"
proof -
  define s1 where "s1 = (if fr_Op f \<noteq> opResync then st\<lparr>lv_lastSeen := now, lv_silent := False\<rparr> else st)"
  have s1: "follows K s1" using assms(2) by (simp add: s1_def follows_def)
  have up: "r \<noteq> Panics" if "catchUp ke (fr_Seq f) (fr_Hash f) s1 = Some r" "lv_ready s1"
    using that s1 assms(3) catchUp_loop_safe by (auto simp: catchUp_def split: option.splits)
  have pk: "applyPackage ke d (lv_seq s1 + 1) s1 \<noteq> Panics"
    if "b64_DecodeString (fr_Inline f) = Some d" "lv_ready s1" for d
    using applyPackage_safe [OF assms(3) _ s1 that(2)] that(1) assms(4) by (auto simp: good_frame_def)
  from assms(1) show ?thesis
    unfolding onFrame_def Let_def s1_def [symmetric]
    using pk verify_safe [OF assms(3)] snapshot_safe [OF assms(3)] up
    by (auto split: if_splits option.splits may_panic.splits)
qed

text \<open>
  C13.  Refinement: a mirrored list that equals the keeper's list at its own epoch and sequence
  number still does after any frame - late, repeated, lost, ahead, of another epoch, with a wrong
  hash: the handler returns and does not panic, as long as the objects that read as snapshots and
  packages are the keeper's and the store answers a read of several with one answer for each.
\<close>

theorem mirror_follows_keeper:
  assumes "follows K st" and "good_env (honest K) ke" and "good_frame (honest K) f"
    and "answers_all ke"
  shows "\<exists>st'. onFrame ke now f st = Some (Done st') \<and> follows K st'"
proof -
  obtain r where r: "onFrame ke now f st = Some r" using onFrame_total [OF assms(4)] by blast
  from onFrame_safe [OF r assms(1,2,3)] r obtain st' where "onFrame ke now f st = Some (Done st')" by (cases r) auto
  with followed.onFrame_inv [of ke now f st st' K] assms show ?thesis by blast
qed

subsection \<open>Catching up\<close>

text \<open>The state of a list that is the keeper's at one sequence number of an epoch.\<close>

definition at_seq :: "keeper \<Rightarrow> string \<Rightarrow> u64 \<Rightarrow> u64 \<Rightarrow> live_set \<Rightarrow> bool" where
  "at_seq K name e s st \<longleftrightarrow> lv_name st = name \<and> lv_ready st \<and> lv_epoch st = e \<and> lv_seq st = s \<and>
     lv_key st = kp_key K e \<and> lv_typ st = kp_typ K e \<and> lv_comp st = kp_comp K e s"

text \<open>The package of a sequence number, with the hash of the list after it.\<close>

definition package_of :: "keeper \<Rightarrow> u64 \<Rightarrow> u64 \<Rightarrow> string \<Rightarrow> bool" where
  "package_of K e s d \<longleftrightarrow> (\<exists>h rs. unpack d = Inr (h, rs) \<and> ph_kind h = kindPackage \<and> ph_epoch h = e \<and>
     ph_seq h = s \<and> ph_typ h = kp_typ K e \<and> honest_package K h rs \<and> ph_hash h = cm_hash (kp_comp K e s))"

lemma applyPackage_follow:
  assumes "at_seq K name e s st" and "package_of K e (s + 1) d"
  shows "\<exists>st'. applyPackage ke d (s + 1) st = Done (True, st') \<and> at_seq K name e (s + 1) st'"
proof -
  from assms(2) obtain h rs where h: "unpack d = Inr (h, rs)" "ph_kind h = kindPackage" "ph_epoch h = e"
    "ph_seq h = s + 1" "ph_typ h = kp_typ K e" "honest_package K h rs"
    "ph_hash h = cm_hash (kp_comp K e (s + 1))" by (auto simp: package_of_def)
  with assms(1) show ?thesis
    by (simp add: applyPackage_def at_seq_def honest_package_def verify_def)
qed

lemma apply_objs_follow:
  assumes "at_seq K name e s st"
    and "\<forall>i < n. \<exists>d. get (diffKey name (s + 1 + of_nat i)) = Some d \<and> package_of K e (s + 1 + of_nat i) d"
  shows "\<exists>st'. apply_objs ke s (map (\<lambda>i. get (diffKey name (s + 1 + of_nat i))) [0..<n]) st = Done (True, st') \<and>
    at_seq K name e (s + of_nat n) st'"
  using assms
proof (induction n arbitrary: s st)
  case (Suc n)
  from Suc.prems(2) [rule_format, of 0] obtain d
    where d: "get (diffKey name (s + 1)) = Some d" "package_of K e (s + 1) d" by auto
  from applyPackage_follow [OF Suc.prems(1) d(2)] obtain st1
    where st1: "applyPackage ke d (s + 1) st = Done (True, st1)" "at_seq K name e (s + 1) st1" by blast
  have shift: "s + 1 + 1 + of_nat i = s + 1 + of_nat (Suc i)" for i :: nat by simp
  have "\<forall>i < n. \<exists>d. get (diffKey name (s + 1 + 1 + of_nat i)) = Some d \<and> package_of K e (s + 1 + 1 + of_nat i) d"
    unfolding shift
  proof (intro allI impI)
    fix i assume "i < n"
    then have "Suc i < Suc n" by simp
    from Suc.prems(2) [rule_format, OF this] show "\<exists>d. get (diffKey name (s + 1 + of_nat (Suc i))) = Some d \<and>
      package_of K e (s + 1 + of_nat (Suc i)) d" .
  qed
  from Suc.IH [OF st1(2) this] obtain st2 where
    "apply_objs ke (s + 1) (map (\<lambda>i. get (diffKey name (s + 1 + 1 + of_nat i))) [0..<n]) st1 = Done (True, st2)"
    "at_seq K name e (s + 1 + of_nat n) st2" by blast
  moreover have "map (\<lambda>i. get (diffKey name (s + 1 + of_nat i))) [0..<Suc n] =
      Some d # map (\<lambda>i. get (diffKey name (s + 1 + 1 + of_nat i))) [0..<n]"
    unfolding shift using d(1) by (simp add: upt_conv_Cons map_Suc_upt [symmetric] o_def del: upt_Suc)
  ultimately show ?case using st1(1) by (auto simp: ac_simps)
qed simp

lemma keys_in_range:
  fixes s lim :: u64
  assumes "\<not> lim \<le> s" and "i < min (unat (lim - s)) 256"
  shows "s < s + 1 + of_nat i \<and> s + 1 + of_nat i \<le> lim"
proof -
  have of_nat: "unat (of_nat m :: u64) = m" if "m < 2 ^ 64" for m
    using that by (simp add: unsigned_of_nat take_bit_nat_eq_self)
  have d: "unat (lim - s) = unat lim - unat s" using assms(1) by (simp add: unat_sub)
  then have lim: "unat s + 1 + i \<le> unat lim" using assms(2) by linarith
  have "unat lim < 2 ^ 64" using unsigned_less [of lim, where 'a = nat] by simp
  with lim have "unat s + 1 + i < 2 ^ 64" by linarith
  from of_nat [OF this] have "unat (of_nat (unat s + 1 + i) :: u64) = unat s + 1 + i" .
  moreover have "of_nat (unat s + 1 + i) = s + 1 + of_nat i" by simp
  ultimately have "unat (s + 1 + of_nat i) = unat s + 1 + i" by metis
  with lim show ?thesis by (simp add: word_le_nat_alt word_less_nat_alt)
qed

lemma catchUp_loop_follow:
  assumes "at_seq K name e s st" and "s \<le> lim"
    and "\<forall>ks. bl_Objects b ks = Some (map get ks)"
    and "\<forall>s'. s < s' \<and> s' \<le> lim \<longrightarrow> (\<exists>d. get (diffKey name s') = Some d \<and> package_of K e s' d)"
    and "hash = [] \<or> hash = hexOf (cm_hash (kp_comp K e lim))"
  shows "\<exists>st'. catchUp_loop ke b lim hash st = Some (Done st') \<and> at_seq K name e lim st'"
  using assms(1,2,4)
proof (induction "unat (lim - s)" arbitrary: s st rule: less_induct)
  case less
  have seq: "lv_seq st = s" and nm: "lv_name st = name" using less.prems(1) by (simp_all add: at_seq_def)
  show ?case
  proof (cases "lim \<le> s")
    case True
    with less.prems(2) have "s = lim" by simp
    with less.prems(1) seq assms(5) show ?thesis
      by (subst catchUp_loop.simps) (auto simp: verify_def at_seq_def)
  next
    case False
    let ?n = "min (unat (lim - s)) 256"
    have range: "s < s + 1 + of_nat i \<and> s + 1 + of_nat i \<le> lim" if "i < ?n" for i
      using keys_in_range [OF False that] .
    from range less.prems(3) have
      "\<forall>i < ?n. \<exists>d. get (diffKey name (s + 1 + of_nat i)) = Some d \<and> package_of K e (s + 1 + of_nat i) d"
      by blast
    from apply_objs_follow [OF less.prems(1) this] obtain st1 where
      a: "apply_objs ke s (map (\<lambda>i. get (diffKey name (s + 1 + of_nat i))) [0..<?n]) st = Done (True, st1)"
      and st1: "at_seq K name e (s + of_nat ?n) st1" by blast
    have pos: "0 < ?n" using False by (auto simp: unat_gt_0)
    have next_s: "s < s + of_nat ?n \<and> s + of_nat ?n \<le> lim"
    proof -
      obtain m where m: "?n = Suc m" using pos gr0_conv_Suc by blast
      have "s + 1 + of_nat m = s + of_nat ?n" unfolding m by (simp add: ac_simps)
      moreover have "s < s + 1 + of_nat m \<and> s + 1 + of_nat m \<le> lim" by (rule range) (simp only: m lessI)
      ultimately show ?thesis by (simp only:)
    qed
    have "\<forall>s'. s + of_nat ?n < s' \<and> s' \<le> lim \<longrightarrow> (\<exists>d. get (diffKey name s') = Some d \<and> package_of K e s' d)"
      using next_s less.prems(3) by (meson order.strict_trans)
    from less.hyps [OF unat_step_less [OF False] st1 conjunct2 [OF next_s] this] obtain st2 where
      "catchUp_loop ke b lim hash st1 = Some (Done st2)" "at_seq K name e lim st2" by blast
    moreover have "bl_Objects b (keys_upto lim st) =
        Some (map (\<lambda>i. get (diffKey name (s + 1 + of_nat i))) [0..<?n])"
      using assms(3) seq nm by (simp add: keys_upto_def o_def)
    ultimately show ?thesis using False a seq by (subst catchUp_loop.simps) simp
  qed
qed

text \<open>
  The package a frame carries itself: of a diff one step ahead, when it decodes.  Every other frame
  that is ahead sends the mirror to the store.
\<close>

definition inline_package :: "live_set \<Rightarrow> frame \<Rightarrow> string option" where
  "inline_package st f =
     (if fr_Op f = opDiff \<and> fr_Inline f \<noteq> [] \<and> fr_Seq f = lv_seq st + 1 then b64_DecodeString (fr_Inline f) else None)"

text \<open>What the store must hold for a frame: the package of every number up to the announced one.\<close>

definition store_covers :: "keeper \<Rightarrow> keeper_env \<Rightarrow> live_set \<Rightarrow> frame \<Rightarrow> bool" where
  "store_covers K ke st f \<longleftrightarrow> (\<exists>b get. ke_blobs ke = Some b \<and> (\<forall>ks. bl_Objects b ks = Some (map get ks)) \<and>
     (\<forall>s. lv_seq st < s \<and> s \<le> fr_Seq f \<longrightarrow>
        (\<exists>d. get (diffKey (lv_name st) s) = Some d \<and> package_of K (lv_epoch st) s d)))"

text \<open>
  C33.  A list that follows its keeper catches up, whether a tick, a diff or another frame (but a resync)
  of its epoch announces the number, and however far behind it is.  A diff one step ahead that carries
  the keeper's package is applied from the frame alone, without the store.  Otherwise - a tick, a diff
  without a package or with one that does not decode, a number further ahead - the store must hold the
  keeper's packages up to the number and answer a read of several keys with one answer for each, and
  the hash of the frame must be empty or the keeper's at that number.  Then the handler returns, and
  the list is ready and exactly the keeper's at the number announced.
\<close>

theorem mirror_catches_up:
  assumes "follows K st" and "lv_ready st" and "fr_V f = 3" and "fr_Op f \<noteq> opResync"
    and "ParseUint (fr_Epoch f) 16 = Some e" and "of_nat e = lv_epoch st" and "lv_seq st \<le> fr_Seq f"
    and "case inline_package st f of
        Some d \<Rightarrow> package_of K (lv_epoch st) (fr_Seq f) d
      | None \<Rightarrow> (fr_Hash f = [] \<or> fr_Hash f = hexOf (cm_hash (kp_comp K (lv_epoch st) (fr_Seq f)))) \<and>
          (lv_seq st < fr_Seq f \<longrightarrow> store_covers K ke st f)"
  shows "\<exists>st'. onFrame ke now f st = Some (Done st') \<and> at_seq K (lv_name st) (lv_epoch st) (fr_Seq f) st'"
proof -
  let ?s = "st\<lparr>lv_lastSeen := now, lv_silent := False\<rparr>"
  have at: "at_seq K (lv_name st) (lv_epoch st) (lv_seq st) ?s"
    using assms(1,2) by (simp add: at_seq_def follows_def)
  note here = onFrame_def Let_def
  show ?thesis
  proof (cases "lv_seq st = fr_Seq f")
    case True
    then have "lv_seq st \<noteq> lv_seq st + 1" "inline_package st f = None" by (simp_all add: inline_package_def)
    with assms True at show ?thesis by (auto simp: here verify_def at_seq_def)
  next
    case False
    with assms(7) have ahead: "lv_seq st < fr_Seq f" by simp
    show ?thesis
    proof (cases "inline_package st f")
      case (Some d)
      then have f: "fr_Op f = opDiff" "fr_Inline f \<noteq> []" "fr_Seq f = lv_seq st + 1" "b64_DecodeString (fr_Inline f) = Some d"
        by (simp_all add: inline_package_def split: if_splits)
      from Some assms(8) f(3) have "package_of K (lv_epoch st) (lv_seq st + 1) d" by simp
      from applyPackage_follow [OF at this, of ke] obtain st' where
        "applyPackage ke d (lv_seq st + 1) ?s = Done (True, st')"
        "at_seq K (lv_name st) (lv_epoch st) (lv_seq st + 1) st'" by blast
      with assms(2-6) ahead f show ?thesis by (auto simp: here)
    next
      case None
      with assms(8) ahead have h: "fr_Hash f = [] \<or> fr_Hash f = hexOf (cm_hash (kp_comp K (lv_epoch st) (fr_Seq f)))"
        and c: "store_covers K ke st f" by simp_all
      from c obtain b get where b: "ke_blobs ke = Some b" "\<forall>ks. bl_Objects b ks = Some (map get ks)"
        "\<forall>s. lv_seq st < s \<and> s \<le> fr_Seq f \<longrightarrow>
          (\<exists>d. get (diffKey (lv_name st) s) = Some d \<and> package_of K (lv_epoch st) s d)"
        by (auto simp: store_covers_def)
      from catchUp_loop_follow [OF at assms(7) b(2,3) h, of ke] obtain st'
        where "catchUp ke (fr_Seq f) (fr_Hash f) ?s = Some (Done st')" "at_seq K (lv_name st) (lv_epoch st) (fr_Seq f) st'"
        using b(1) by (auto simp: catchUp_def)
      with assms(2-6) ahead None show ?thesis by (auto simp: here inline_package_def)
    qed
  qed
qed

subsection \<open>A concrete keeper\<close>

text \<open>One epoch whose list is empty up to number 3 and has one entry afterwards.\<close>

definition demo_entry :: pack_record where
  "demo_entry = \<lparr>pr_op = 1, pr_prefix = no_net, pr_value = ''bad'', pr_exp = 0, pr_reason = []\<rparr>"

definition demo_history :: keeper where
  "demo_history = \<lparr>kp_key = (\<lambda>e. list_key), kp_typ = (\<lambda>e. 2),
     kp_comp = (\<lambda>e s. if s \<le> 3 then newComposition else apply_entry list_key demo_entry newComposition)\<rparr>"

definition demo_pack_head :: pack_head where
  "demo_pack_head = \<lparr>ph_kind = 2, ph_typ = 2, ph_flags = 0, ph_epoch = 7, ph_seq = 4,
     ph_hash = cm_hash (kp_comp demo_history 7 4), ph_key = list_key, ph_count = 1\<rparr>"

definition demo_package :: string where
  "demo_package = pack demo_pack_head [demo_entry]"

definition demo_list :: live_set where
  "demo_list = (new_set ''bots'' 0)\<lparr>lv_ready := True, lv_epoch := 7, lv_seq := 3, lv_key := list_key, lv_typ := 2\<rparr>"

definition demo_store :: keeper_env where
  "demo_store = demo_env\<lparr>ke_blobs := Some \<lparr>bl_Object = (\<lambda>k. Some None),
     bl_Objects = (\<lambda>ks. Some (map (\<lambda>k. Some demo_package) ks))\<rparr>\<rparr>"

definition demo_frame :: frame where
  "demo_frame = no_frame\<lparr>fr_V := 3, fr_Op := opDiff, fr_Seq := 4, fr_Epoch := ''7''\<rparr>"

lemma demo_unpack:
  "unpack demo_package = Inr (demo_pack_head, [demo_entry])"
  unfolding demo_package_def
  by (rule unpack_pack_id [of _ _ "[]", simplified])
    (simp_all add: demo_pack_head_def head_ok_def list_key_def record_ok_def demo_entry_def in64_def)

lemma demo_honest: "honest_package demo_history
    demo_pack_head [demo_entry]"
  by (simp add: honest_package_def demo_pack_head_def demo_history_def comp_apply_def)

lemma demo_follows: "follows demo_history demo_list"
  by (simp add: follows_def demo_list_def demo_history_def new_set_def)

theorem mirror_follows_keeper_witness:
  "\<exists>st'. onFrame demo_store 5 demo_frame demo_list = Some (Done st') \<and> follows demo_history st'"
proof (rule mirror_follows_keeper [OF demo_follows])
  have "ph_kind demo_pack_head = kindPackage" by (simp add: demo_pack_head_def)
  then have "honest demo_history demo_package" by (simp add: honest_def demo_unpack demo_honest)
  then show "good_env (honest demo_history) demo_store" by (auto simp: good_env_def demo_store_def)
  show "good_frame (honest demo_history) demo_frame"
    by (simp add: good_frame_def demo_frame_def no_frame_def b64_DecodeString_def honest_def unpack_def)
  show "answers_all demo_store" by (auto simp: answers_all_def demo_store_def)
qed

text \<open>A tick one number ahead, with the package in the store.\<close>

theorem mirror_catches_up_witness:
  "\<exists>st'. onFrame demo_store 5 (demo_frame\<lparr>fr_Op := opTick\<rparr>) demo_list = Some (Done st') \<and>
     at_seq demo_history ''bots'' 7 4 st'"
proof -
  let ?b = "\<lparr>bl_Object = (\<lambda>k. Some None), bl_Objects = (\<lambda>ks. Some (map (\<lambda>k. Some demo_package) ks))\<rparr>"
  let ?f = "demo_frame\<lparr>fr_Op := opTick\<rparr>"
  have "package_of demo_history 7 4 demo_package"
    using demo_honest by (simp add: package_of_def demo_unpack demo_pack_head_def demo_history_def)
  moreover have "s = 4" if "3 < s" "s \<le> 4" for s :: u64
  proof -
    from that have "unat s = 4" by (simp add: word_less_nat_alt word_le_nat_alt)
    then show ?thesis by (metis of_nat_numeral of_nat_unat ucast_id)
  qed
  ultimately have pkg: "\<forall>s. 3 < s \<and> s \<le> 4 \<longrightarrow> package_of demo_history 7 s demo_package" by metis
  have st: "lv_ready demo_list" "lv_seq demo_list = 3" "lv_epoch demo_list = 7" "lv_name demo_list = ''bots''"
    by (simp_all add: demo_list_def new_set_def)
  have f: "fr_V ?f = 3" "fr_Op ?f = opTick" "fr_Hash ?f = []" "fr_Seq ?f = 4" "ParseUint (fr_Epoch ?f) 16 = Some 7"
    by (simp_all add: demo_frame_def no_frame_def ParseUint_def digit_val_def char_class_defs)
  have "ke_blobs demo_store = Some ?b" by (simp add: demo_store_def)
  then have "store_covers demo_history demo_store demo_list ?f"
    unfolding store_covers_def st f using pkg by (intro exI [of _ ?b] exI [of _ "\<lambda>k. Some demo_package"]) simp
  moreover have "inline_package demo_list ?f = None" by (simp add: inline_package_def)
  ultimately show ?thesis
    using mirror_catches_up [OF demo_follows st(1) f(1) _ f(5), of demo_store 5] by (simp add: st f)
qed

end
