(* ===== verification/Marker.thy ===== *)
theory Marker
  imports Policy
begin

text \<open>
  Markers (\<^verbatim>\<open>internal/policy/marker.go\<close>): strings with slots in braces, checked when a profile
  loads and filled from the cookies of a request.  The loops of the code cut the string at the
  byte positions of braces; the specification reads the marker once into literal text and slots.
\<close>

record seen =
  sn_Raw :: string
  sn_Value :: string

type_synonym seen_map = "string \<rightharpoonup> seen"

text \<open>Reading a missing cookie gives the zero \<open>Seen\<close>.\<close>

definition seen_get :: "seen_map \<Rightarrow> string \<Rightarrow> seen" where
  "seen_get m k = (case m k of None \<Rightarrow> \<lparr>sn_Raw = [], sn_Value = []\<rparr> | Some s \<Rightarrow> s)"

definition ownSlot :: "string \<Rightarrow> bool" where
  "ownSlot slot \<longleftrightarrow> slot = ''value'' \<or> slot = ''tag'' \<or> slot = ''name''"

abbreviation lbrace :: char where "lbrace \<equiv> CHR 0x7B"
abbreviation rbrace :: char where "rbrace \<equiv> CHR 0x7D"

datatype slot_err =
  SlotCloseFirst | SlotUnclosed | SlotNoCookie string | SlotNoValue string | SlotUnknown string

text \<open>One pass of the loop is one call; it stops because the rest of the marker gets shorter.\<close>

function CheckMarkerSlots :: "string \<Rightarrow> string \<Rightarrow> bool \<Rightarrow> profile \<Rightarrow> slot_err option" where
  "CheckMarkerSlots rest cookie valued p =
     (case IndexByte rest lbrace of
        None \<Rightarrow> if rbrace \<in> set rest then Some SlotCloseFirst else None
      | Some opn \<Rightarrow>
          if rbrace \<in> set (take opn rest) then Some SlotCloseFirst
          else case IndexByte (drop opn rest) rbrace of
            None \<Rightarrow> Some SlotUnclosed
          | Some cls \<Rightarrow>
              (let slot = take (cls - 1) (drop (opn + 1) rest)
               in if ownSlot slot \<and> cookie = [] then Some (SlotNoCookie slot)
                  else if ownSlot slot \<and> \<not> valued \<and> slot \<noteq> ''name'' then Some (SlotNoValue slot)
                  else if \<not> ownSlot slot \<and> profile_Cookie p slot = None then Some (SlotUnknown slot)
                  else CheckMarkerSlots (drop (opn + cls + 1) rest) cookie valued p))"
  by pat_completeness auto
termination
proof (relation "measure (\<lambda>(rest, _). length rest)", simp)
  fix rest :: string and cookie :: string and valued :: bool and p :: profile and opn cls x
  assume "IndexByte rest lbrace = Some opn"
  then have "rest \<noteq> []" by (auto simp: IndexByte_def split: if_splits)
  then show "((drop (opn + cls + 1) rest, cookie, valued, p), rest, cookie, valued, p)
      \<in> measure (\<lambda>(rest, _). length rest)"
    by (cases rest) auto
qed

function FillMarker :: "string \<Rightarrow> string \<Rightarrow> seen_map \<Rightarrow> string \<Rightarrow> string \<times> bool" where
  "FillMarker rest cookie seen b =
     (case IndexByte rest lbrace of
        None \<Rightarrow> (b @ rest, True)
      | Some opn \<Rightarrow>
          (case IndexByte (drop opn rest) rbrace of
             None \<Rightarrow> (b @ rest, True)
           | Some cls \<Rightarrow>
               (let slot = take (cls - 1) (drop (opn + 1) rest);
                    v = (if slot = ''value'' \<or> slot = ''tag'' then sn_Value (seen_get seen cookie)
                         else if slot = ''name'' then cookie
                         else sn_Value (seen_get seen slot))
                in if v = [] then ([], False)
                   else FillMarker (drop (opn + cls + 1) rest) cookie seen
                          (b @ take opn rest @ v))))"
  by pat_completeness auto
termination
proof (relation "measure (\<lambda>(rest, _). length rest)", simp)
  fix rest b :: string and cookie :: string and seen :: seen_map and opn cls x y
  assume "IndexByte rest lbrace = Some opn"
  then have "rest \<noteq> []" by (auto simp: IndexByte_def split: if_splits)
  then show "((drop (opn + cls + 1) rest, cookie, seen, b @ take opn rest @ y), rest, cookie, seen, b)
      \<in> measure (\<lambda>(rest, _). length rest)"
    by (cases rest) auto
qed

declare CheckMarkerSlots.simps [simp del] FillMarker.simps [simp del]

subsection \<open>Markers as pieces\<close>

datatype piece = Lit string | Slot string

text \<open>
  The reference reading of a marker, byte by byte: literal text outside braces, a slot between
  them; \<open>None\<close> for a brace without its pair.
\<close>

fun scan :: "string \<Rightarrow> bool \<Rightarrow> string \<Rightarrow> piece list option" where
  "scan acc False [] = Some [Lit acc]"
| "scan acc False (c # cs) =
     (if c = lbrace then map_option ((#) (Lit acc)) (scan [] True cs)
      else if c = rbrace then None else scan (acc @ [c]) False cs)"
| "scan acc True [] = None"
| "scan acc True (c # cs) =
     (if c = rbrace then map_option ((#) (Slot acc)) (scan [] False cs)
      else scan (acc @ [c]) True cs)"

definition pieces :: "string \<Rightarrow> piece list option" where
  "pieces m = scan [] False m"

definition slot_value :: "string \<Rightarrow> seen_map \<Rightarrow> string \<Rightarrow> string" where
  "slot_value cookie seen slot =
     (if slot = ''value'' \<or> slot = ''tag'' then sn_Value (seen_get seen cookie)
      else if slot = ''name'' then cookie
      else sn_Value (seen_get seen slot))"

fun piece_text :: "string \<Rightarrow> seen_map \<Rightarrow> piece \<Rightarrow> string" where
  "piece_text cookie seen (Lit s) = s"
| "piece_text cookie seen (Slot s) = slot_value cookie seen s"

fun slots :: "piece list \<Rightarrow> string list" where
  "slots [] = []"
| "slots (Lit s # ps) = slots ps"
| "slots (Slot s # ps) = s # slots ps"

definition fill_pieces :: "string \<Rightarrow> seen_map \<Rightarrow> piece list \<Rightarrow> string \<times> bool" where
  "fill_pieces cookie seen ps =
     (if list_all (\<lambda>s. slot_value cookie seen s \<noteq> []) (slots ps)
      then (concat (map (piece_text cookie seen) ps), True) else ([], False))"

text \<open>What the check of a loaded profile demands of one slot.\<close>

definition slot_ok :: "string \<Rightarrow> bool \<Rightarrow> profile \<Rightarrow> string \<Rightarrow> bool" where
  "slot_ok cookie valued p slot \<longleftrightarrow>
     (if ownSlot slot then cookie \<noteq> [] \<and> (valued \<or> slot = ''name'')
      else profile_Cookie p slot \<noteq> None)"

subsection \<open>The loops against the pieces\<close>

lemma cut_slot:
  assumes "lbrace \<notin> set a" "rbrace \<notin> set s"
  shows "IndexByte (a @ lbrace # s @ rbrace # r) lbrace = Some (length a)"
    and "IndexByte (drop (length a) (a @ lbrace # s @ rbrace # r)) rbrace = Some (Suc (length s))"
    and "take (Suc (length s) - 1) (drop (length a + 1) (a @ lbrace # s @ rbrace # r)) = s"
    and "drop (length a + Suc (length s) + 1) (a @ lbrace # s @ rbrace # r) = r"
proof -
  have "IndexByte ((lbrace # s) @ rbrace # r) rbrace = Some (length (lbrace # s))"
    by (rule IndexByte_split) (use assms(2) in simp)
  then show "IndexByte (drop (length a) (a @ lbrace # s @ rbrace # r)) rbrace = Some (Suc (length s))"
    by simp
qed (use assms in simp_all)

lemma FillMarker_slot:
  assumes "lbrace \<notin> set a" "rbrace \<notin> set s"
  shows "FillMarker (a @ lbrace # s @ rbrace # r) cookie seen b =
     (if slot_value cookie seen s = [] then ([], False)
      else FillMarker r cookie seen (b @ a @ slot_value cookie seen s))"
  using cut_slot [OF assms, of r]
  by (subst FillMarker.simps) (simp add: slot_value_def Let_def)

lemma CheckMarkerSlots_slot:
  assumes "lbrace \<notin> set a" "rbrace \<notin> set s"
  shows "CheckMarkerSlots (a @ lbrace # s @ rbrace # r) cookie valued p = None \<longleftrightarrow>
     rbrace \<notin> set a \<and> slot_ok cookie valued p s \<and> CheckMarkerSlots r cookie valued p = None"
  using cut_slot [OF assms, of r]
  by (subst CheckMarkerSlots.simps) (auto simp: slot_ok_def Let_def)

text \<open>A marker is literal text, or text, a slot and another marker, or has an open slot at its end.\<close>

lemma marker_cases:
  obtains (plain) "lbrace \<notin> set m"
  | (slot) a s r where "m = a @ lbrace # s @ rbrace # r" "lbrace \<notin> set a" "rbrace \<notin> set s"
  | (open_end) a s where "m = a @ lbrace # s" "lbrace \<notin> set a" "rbrace \<notin> set s"
proof (cases "lbrace \<in> set m")
  case False
  then show thesis by (rule plain)
next
  case True
  then obtain a t where m: "m = a @ lbrace # t" "lbrace \<notin> set a" by (metis split_list_first)
  show thesis
  proof (cases "rbrace \<in> set t")
    case True
    then obtain s r where "t = s @ rbrace # r" "rbrace \<notin> set s" by (metis split_list_first)
    with m show thesis using slot by simp
  next
    case False
    with m show thesis using open_end by blast
  qed
qed

lemma scan_text:
  "lbrace \<notin> set a \<Longrightarrow>
     scan acc False (a @ t) = (if rbrace \<in> set a then None else scan (acc @ a) False t)"
  by (induction a arbitrary: acc) auto

lemma scan_slot:
  "rbrace \<notin> set s \<Longrightarrow>
     scan acc True (s @ rbrace # r) = map_option ((#) (Slot (acc @ s))) (scan [] False r)"
  by (induction s arbitrary: acc) auto

lemma scan_open: "rbrace \<notin> set s \<Longrightarrow> scan acc True s = None"
  by (induction s arbitrary: acc) auto

lemma pieces_text: "lbrace \<notin> set m \<Longrightarrow> pieces m = (if rbrace \<in> set m then None else Some [Lit m])"
  using scan_text [of m "[]" "[]"] by (simp add: pieces_def)

lemma pieces_slot:
  "lbrace \<notin> set a \<Longrightarrow> rbrace \<notin> set s \<Longrightarrow>
     pieces (a @ lbrace # s @ rbrace # r) =
       (if rbrace \<in> set a then None
        else map_option (\<lambda>ps. Lit a # Slot s # ps) (pieces r))"
  by (simp add: pieces_def scan_text scan_slot option.map_comp comp_def)

lemma pieces_open:
  "lbrace \<notin> set a \<Longrightarrow> rbrace \<notin> set s \<Longrightarrow> pieces (a @ lbrace # s) = None"
  by (simp add: pieces_def scan_text scan_open)

lemma FillMarker_pieces:
  "pieces m = Some ps \<Longrightarrow>
     FillMarker m cookie seen b =
       (case fill_pieces cookie seen ps of (t, ok) \<Rightarrow> if ok then (b @ t, True) else ([], False))"
proof (induction "length m" arbitrary: m b ps rule: less_induct)
  case less
  show ?case
  proof (cases m rule: marker_cases)
    case plain
    with less.prems show ?thesis
      by (auto simp: FillMarker.simps IndexByte_def pieces_text fill_pieces_def split: if_splits)
  next
    case (open_end a s)
    with less.prems show ?thesis by (simp add: pieces_open)
  next
    case (slot a s r)
    with less.prems obtain qs where qs: "pieces r = Some qs" "ps = Lit a # Slot s # qs"
      by (auto simp: pieces_slot split: if_splits)
    have "length r < length m" by (simp add: slot)
    from less.hyps [OF this qs(1)] show ?thesis
      unfolding slot(1) FillMarker_slot [OF slot(2,3)]
      by (simp add: qs(2) fill_pieces_def)
  qed
qed

lemma CheckMarkerSlots_pieces:
  "CheckMarkerSlots m cookie valued p = None \<longleftrightarrow>
     (\<exists>ps. pieces m = Some ps \<and> list_all (slot_ok cookie valued p) (slots ps))"
proof (induction "length m" arbitrary: m rule: less_induct)
  case less
  show ?case
  proof (cases m rule: marker_cases)
    case plain
    then show ?thesis
      by (subst CheckMarkerSlots.simps) (auto simp: IndexByte_def pieces_text)
  next
    case (open_end a s)
    moreover from this have "CheckMarkerSlots (a @ lbrace # s) cookie valued p \<noteq> None"
      by (subst CheckMarkerSlots.simps) (auto simp: IndexByte_def)
    ultimately show ?thesis by (simp add: pieces_open)
  next
    case (slot a s r)
    have "length r < length m" by (simp add: slot)
    from less.hyps [OF this] show ?thesis
      unfolding slot(1) CheckMarkerSlots_slot [OF slot(2,3)] pieces_slot [OF slot(2,3)]
      by auto
  qed
qed

subsection \<open>Properties\<close>

text \<open>
  The check of a marker accepts exactly the markers whose braces pair up and whose slots
  can be filled: the slots of the rule's own cookie only in a rule that has a cookie (and, but for
  \<open>{name}\<close>, only where that cookie has a value), every other slot only for a declared cookie.
\<close>

theorem marker_check_spec:
  "CheckMarkerSlots m cookie valued p = None \<longleftrightarrow>
     (\<exists>ps. pieces m = Some ps \<and> list_all (slot_ok cookie valued p) (slots ps))"
  by (rule CheckMarkerSlots_pieces)

text \<open>
  A marker that passed the check is filled piece by piece: it is set exactly when every slot
  has a value in the request, and then each slot is replaced by its value and the rest of the
  string stays as it is.
\<close>

theorem checked_marker_fills:
  assumes "CheckMarkerSlots m cookie valued p = None"
  shows "\<exists>ps. pieces m = Some ps \<and>
     FillMarker m cookie seen [] =
       (if \<forall>s \<in> set (slots ps). slot_value cookie seen s \<noteq> []
        then (concat (map (piece_text cookie seen) ps), True) else ([], False))"
proof -
  from assms obtain ps where "pieces m = Some ps" by (auto simp: CheckMarkerSlots_pieces)
  then show ?thesis
    using FillMarker_pieces [of m ps cookie seen "[]"] by (auto simp: fill_pieces_def list_all_iff)
qed

theorem checked_marker_fills_witness:
  "\<exists>ps. pieces ''client_{uid}'' = Some ps \<and>
     FillMarker ''client_{uid}'' [] [''uid'' \<mapsto> \<lparr>sn_Raw = ''a1'', sn_Value = ''a1''\<rparr>] [] =
       (''client_a1'', True)"
proof -
  have c: "CheckMarkerSlots ''client_{uid}'' [] False (landing_profile False) = None"
    by (simp add: CheckMarkerSlots_pieces pieces_def slot_ok_def ownSlot_def profile_Cookie_def
        landing_profile_def src_cookie_def uid_cookie_def)
  show ?thesis
    using checked_marker_fills [OF c, of "[''uid'' \<mapsto> \<lparr>sn_Raw = ''a1'', sn_Value = ''a1''\<rparr>]"]
    by (simp add: pieces_def slot_value_def seen_get_def)
qed

end
