(* ===== verification/PolicyParse.thy ===== *)
theory PolicyParse
  imports Marker
begin

text \<open>
  The parser of profiles (\<^verbatim>\<open>internal/policy/policy.go\<close>): from the decoded YAML document to a
  \<open>profile\<close>, or the first error.  Decoding the YAML text is the job of the library; the parser
  starts from the decoded records \<open>file_profile\<close>, \<open>file_rule\<close>, \<open>file_action\<close>.
\<close>

subsection \<open>Vocabulary of actions\<close>

definition verbs :: "string list gomap" where
  "verbs =
     [DoChallenge \<mapsto> [ApplyRequest], DoThreshold \<mapsto> [ApplyRequest], DoSkip \<mapsto> [ApplyRequest],
      DoReauth \<mapsto> [ApplySession],
      DoNote \<mapsto> [ApplyRequest, ApplyIP, ApplyASN, ApplySession],
      DoMutate \<mapsto> [ApplyRequest],
      DoActive \<mapsto> [ApplyRequest, ApplyConn], DoPassive \<mapsto> [ApplyRequest, ApplyConn],
      DoOff \<mapsto> [ApplyRequest, ApplyConn], DoVote \<mapsto> [ApplyRequest, ApplyConn],
      DoAudit \<mapsto> [ApplyRequest, ApplyResponse], DoArchive \<mapsto> [ApplyRequest, ApplyResponse],
      DoMark \<mapsto> [ApplyRequest], DoScore \<mapsto> [ApplyRequest]]"

definition auditVerb :: "string \<Rightarrow> bool" where
  "auditVerb do \<longleftrightarrow> do = DoAudit \<or> do = DoArchive"

definition recordVerb :: "string \<Rightarrow> bool" where
  "recordVerb do \<longleftrightarrow> auditVerb do \<or> do = DoMark \<or> do = DoScore"

definition controlVerb :: "string \<Rightarrow> bool" where
  "controlVerb do \<longleftrightarrow> do \<in> {DoActive, DoPassive, DoVote, DoOff}"

definition codeRe :: "string \<Rightarrow> bool" where
  "codeRe = matches_name isUpper (\<lambda>c. isUpper c \<or> isDigit c \<or> c = CHR ''_'') 63"

definition counterRe :: "string \<Rightarrow> bool" where
  "counterRe = matches_name isAlnum
     (\<lambda>c. isAlnum c \<or> c = CHR ''.'' \<or> c = CHR ''_'' \<or> c = CHR ''-'') 63"

definition tagRe :: "string \<Rightarrow> bool" where
  "tagRe = matches_class (\<lambda>c. isAlnum c \<or> c = CHR ''_'' \<or> c = CHR ''-'') 1 128"

subsection \<open>The decoded document\<close>

record file_action =
  fa_To :: string
  fa_Do :: string
  fa_Apply :: string
  fa_Phase :: string
  fa_Code :: string
  fa_Delta :: "int option"
  fa_Value :: "int option"
  fa_Counter :: string
  fa_Group :: string
  fa_Set :: string
  fa_Marker :: string
  fa_TTL :: string
  fa_When :: "string list"
  fa_Headers :: "object_spec option"
  fa_Args :: "object_spec option"
  fa_Body :: "object_spec option"
  fa_List :: string
  fa_Write :: string
  fa_Op :: string
  fa_Cookie :: string

record file_match =
  fm_PathPrefix :: string
  fm_Suffixes :: "string list"
  fm_Static :: bool
  fm_Methods :: "string list"

record file_listed =
  fl_List :: string
  fl_Op :: string
  fl_Hash :: string
  fl_Static :: bool

record file_rule =
  fu_Name :: string
  fu_Match :: file_match
  fu_Phase :: string
  fu_Status :: "int list"
  fu_On :: string
  fu_Cookie :: string
  fu_Tags :: "string list"
  fu_NotTags :: "string list"
  fu_Listed :: "file_listed option"
  fu_At :: "int option"
  fu_Issue :: string
  fu_Drop :: string
  fu_If :: string
  fu_Unless :: string
  fu_Actions :: "file_action list"

text \<open>The conditions of a document are of any YAML type; the parser only counts them.\<close>

typedecl yaml_any

record file_profile =
  fp_Mode :: string
  fp_Conditions :: "yaml_any list"
  fp_Cookies :: "file_cookie list"
  fp_Rules :: "file_rule list"

subsection \<open>Errors\<close>

datatype action_err =
  WriteOnAction | ActionTTL cookie_err | ActionWhen when_err | ToEmpty | UnknownDo string
| ApplyNotAllowed string | PhaseNotControl | PhaseUnknown string | ConnNeedsFrame | BadCode string
| DeltaMissing | DeltaRange int | DeltaOnly | ScoreZero | ValueRange int | ScoreTo | CounterOnly
| BadCounter string | ValueOnly | NoGroup | BadGroup string | BadSet string | GroupSetOnly
| MarkTo | BadMarker marker_err | MarkerOnly | AuditTo | OffExtras | AuditExtras | ResponseArgs
| BadSpec spec_err | RecordOnly

datatype write_err =
  ListName string | CookieOnAddr | WriteNoCookie | WriteUndeclared string | WriteSubject string
| WriteExtras | RemoveTTL | WriteCode string | WriteOp string | WriteNoTTL | WriteTTL cookie_err
| WriteTTLShort

datatype rule_err =
  AtOnly | IfUnless | EmptySuffix | EmptyMethod | RulePhase string | RuleStatus int | StatusPhase
| IssueAndDrop | Undeclared string | TagsBoth | BadTag string | TagsNoCookie | TagsNever
| ListedName string | ListedOp string | ListedHash string | ListedNoCookie | OnNoCookie
| OnUnknown string | OnUnsigned | OnNoRenew | NilCookie | DoesNothing | RuleWrite write_err
| RuleAction action_err | RuleMarker slot_err | OverloadAt at_err | OverloadExtras
| OverloadNothing

datatype profile_err =
  ProfileYAML | ProfileMode string | ProfileConditions | ProfileCookie cookie_err
| CookieTwice string | ProfileRule rule_err

subsection \<open>Actions\<close>

definition checkPhaseAsk :: "string \<Rightarrow> string \<Rightarrow> string \<Rightarrow> action_err option" where
  "checkPhaseAsk do phase apply' =
     (if phase = [] then None
      else if \<not> controlVerb do then Some PhaseNotControl
      else if phase \<notin> {PhaseRequest, PhaseResponse, PhaseFrame} then Some (PhaseUnknown phase)
      else if apply' = ApplyConn \<and> phase \<noteq> PhaseFrame then Some ConnNeedsFrame
      else None)"

definition action_fields :: "file_action \<Rightarrow> action" where
  "action_fields fa =
     \<lparr>a_To = TrimSpace (fa_To fa), a_Do = TrimSpace (fa_Do fa), a_Apply = TrimSpace (fa_Apply fa),
      a_Phase = TrimSpace (fa_Phase fa), a_Code = TrimSpace (fa_Code fa), a_Delta = fa_Delta fa,
      a_Value = fa_Value fa, a_Counter = TrimSpace (fa_Counter fa),
      a_Marker = TrimSpace (fa_Marker fa), a_Group = TrimSpace (fa_Group fa),
      a_Set = TrimSpace (fa_Set fa), a_TTL = None, a_When = [], a_Headers = fa_Headers fa,
      a_Args = fa_Args fa, a_Body = fa_Body fa\<rparr>"

definition action_ttl :: "file_action \<Rightarrow> action_err + int option" where
  "action_ttl fa =
     (if TrimSpace (fa_TTL fa) \<noteq> []
      then (case parseTTL (fa_TTL fa) of
              Inl e \<Rightarrow> Inl (ActionTTL e) | Inr d \<Rightarrow> Inr (Some (quot d Second)))
      else Inr None)"

text \<open>The axis of an action: the only one of its verb, or the first one for a record verb.\<close>

definition action_apply :: "action \<Rightarrow> action_err + action" where
  "action_apply a =
     (if a_To a = [] \<and> \<not> recordVerb (a_Do a) then Inl ToEmpty
      else case verbs (a_Do a) of
        None \<Rightarrow> Inl (UnknownDo (a_Do a))
      | Some axes \<Rightarrow>
          (let a' = (if a_Apply a = [] \<and> (length axes = 1 \<or> recordVerb (a_Do a))
                     then a\<lparr>a_Apply := axes ! 0\<rparr> else a)
           in if \<not> list_ex (\<lambda>x. x = a_Apply a') axes then Inl (ApplyNotAllowed (a_Apply a'))
              else Inr a'))"

definition check_delta :: "action \<Rightarrow> action_err option" where
  "check_delta a =
     (if a_Do a = DoThreshold
      then (case a_Delta a of
              None \<Rightarrow> Some DeltaMissing
            | Some d \<Rightarrow> if d < - 100 \<or> d > 900 then Some (DeltaRange d) else None)
      else if a_Delta a \<noteq> None then Some DeltaOnly else None)"

definition check_value :: "action \<Rightarrow> action_err option" where
  "check_value a =
     (if a_Do a = DoScore then
        (if a_Value a = None \<or> a_Value a = Some 0 then Some ScoreZero
         else if the (a_Value a) < - 100 \<or> the (a_Value a) > 100
           then Some (ValueRange (the (a_Value a)))
         else if a_To a \<noteq> [] \<and> a_To a \<noteq> ''*'' then Some ScoreTo
         else if a_Counter a \<noteq> [] then Some CounterOnly
         else None)
      else if a_Do a = DoNote then
        (if a_Value a \<noteq> None \<and> (the (a_Value a) < - 100 \<or> the (a_Value a) > 100)
           then Some (ValueRange (the (a_Value a)))
         else if a_Counter a \<noteq> [] \<and> \<not> counterRe (a_Counter a) then Some (BadCounter (a_Counter a))
         else None)
      else if a_Value a \<noteq> None then Some ValueOnly
      else if a_Counter a \<noteq> [] then Some CounterOnly
      else None)"

definition check_mutate :: "action \<Rightarrow> action_err option" where
  "check_mutate a =
     (if a_Do a = DoMutate then
        (if a_Group a = [] then Some NoGroup
         else if \<not> counterRe (a_Group a) then Some (BadGroup (a_Group a))
         else if a_Set a \<noteq> ''on'' \<and> a_Set a \<noteq> ''off'' then Some (BadSet (a_Set a))
         else None)
      else if a_Group a \<noteq> [] \<or> (a_Set a \<noteq> [] \<and> \<not> auditVerb (a_Do a)) then Some GroupSetOnly
      else None)"

definition check_mark :: "action \<Rightarrow> action_err option" where
  "check_mark a =
     (if a_Do a = DoMark then
        (if a_To a \<noteq> [] \<and> a_To a \<noteq> ''*'' then Some MarkTo
         else map_option BadMarker (CheckMarker (a_Marker a)))
      else if a_Marker a \<noteq> [] then Some MarkerOnly else None)"

definition no_objects :: "action \<Rightarrow> bool" where
  "no_objects a \<longleftrightarrow> a_Headers a = None \<and> a_Args a = None \<and> a_Body a = None"

definition check_audit :: "action \<Rightarrow> action_err option" where
  "check_audit a =
     (let ttl = (case a_TTL a of None \<Rightarrow> 0 | Some n \<Rightarrow> n)
      in if auditVerb (a_Do a) then
           (if a_To a \<noteq> [] \<and> a_To a \<noteq> ''*'' then Some AuditTo
            else if a_Set a \<noteq> ''on'' \<and> a_Set a \<noteq> ''off'' then Some (BadSet (a_Set a))
            else if a_Set a = ''off'' \<and> (ttl \<noteq> 0 \<or> length (a_When a) \<noteq> 0 \<or> \<not> no_objects a)
              then Some OffExtras
            else if a_Do a = DoAudit \<and> (ttl \<noteq> 0 \<or> length (a_When a) \<noteq> 0) then Some AuditExtras
            else if a_Apply a = ApplyResponse \<and> a_Args a \<noteq> None then Some ResponseArgs
            else case CheckObjectSpec (a_Headers a) of
              Some e \<Rightarrow> Some (BadSpec e)
            | None \<Rightarrow> (case CheckObjectSpec (a_Args a) of
                Some e \<Rightarrow> Some (BadSpec e)
              | None \<Rightarrow> map_option BadSpec (CheckObjectSpec (a_Body a))))
         else if a_TTL a \<noteq> None \<or> length (a_When a) \<noteq> 0 \<or> \<not> no_objects a then Some RecordOnly
         else None)"

definition parseAction :: "unicode \<Rightarrow> file_action \<Rightarrow> action_err + action" where
  "parseAction u fa =
     (if TrimSpace (fa_Write fa) \<noteq> [] then Inl WriteOnAction
      else case action_ttl fa of
        Inl e \<Rightarrow> Inl e
      | Inr ttl \<Rightarrow>
      (case CheckArchiveWhen u (fa_When fa) of
        Inl e \<Rightarrow> Inl (ActionWhen e)
      | Inr when \<Rightarrow>
      (case action_apply ((action_fields fa)\<lparr>a_TTL := ttl, a_When := when\<rparr>) of
        Inl e \<Rightarrow> Inl e
      | Inr a \<Rightarrow>
      (case checkPhaseAsk (a_Do a) (a_Phase a) (a_Apply a) of
        Some e \<Rightarrow> Inl e
      | None \<Rightarrow>
      if a_Code a \<noteq> [] \<and> \<not> codeRe (a_Code a) then Inl (BadCode (a_Code a))
      else (case check_delta a of
        Some e \<Rightarrow> Inl e
      | None \<Rightarrow>
      (case check_value a of
        Some e \<Rightarrow> Inl e
      | None \<Rightarrow>
      (case check_mutate a of
        Some e \<Rightarrow> Inl e
      | None \<Rightarrow>
      (case check_mark a of
        Some e \<Rightarrow> Inl e
      | None \<Rightarrow>
      (case check_audit a of
        Some e \<Rightarrow> Inl e
      | None \<Rightarrow> Inr a)))))))))"

subsection \<open>List writes\<close>

definition write_fields :: "file_action \<Rightarrow> list_write" where
  "write_fields fa =
     \<lparr>w_List = TrimSpace (fa_List fa),
      w_Subject = (let s = TrimSpace (fa_Write fa) in if s = [] then WriteAddr else s),
      w_Op = (let o' = TrimSpace (fa_Op fa) in if o' = [] then OpAdd else o'),
      w_Cookie = TrimSpace (fa_Cookie fa), w_TTL = 0, w_Reason = TrimSpace (fa_Code fa)\<rparr>"

text \<open>The cookie of a write: none for an address, the rule's own by default for a value.\<close>

definition write_cookie :: "list_write \<Rightarrow> string \<Rightarrow> profile \<Rightarrow> write_err + list_write" where
  "write_cookie w rule_cookie p =
     (if w_Subject w \<in> {WriteAddr, WriteNet, WriteNetAll, WriteASN} then
        (if w_Cookie w \<noteq> [] then Inl CookieOnAddr else Inr w)
      else if w_Subject w \<in> {WriteValue, WriteCookie} then
        (let ck = (if w_Cookie w = [] then rule_cookie else w_Cookie w)
         in if ck = [] then Inl WriteNoCookie
            else if profile_Cookie p ck = None then Inl (WriteUndeclared ck)
            else Inr (w\<lparr>w_Cookie := ck\<rparr>))
      else Inl (WriteSubject (w_Subject w)))"

definition write_extras :: "file_action \<Rightarrow> bool" where
  "write_extras fa \<longleftrightarrow>
     TrimSpace (fa_Do fa) \<noteq> [] \<or> TrimSpace (fa_To fa) \<noteq> [] \<or> TrimSpace (fa_Apply fa) \<noteq> [] \<or>
     TrimSpace (fa_Phase fa) \<noteq> [] \<or> fa_Delta fa \<noteq> None \<or> fa_Value fa \<noteq> None \<or>
     TrimSpace (fa_Counter fa) \<noteq> [] \<or> TrimSpace (fa_Group fa) \<noteq> [] \<or> TrimSpace (fa_Set fa) \<noteq> [] \<or>
     TrimSpace (fa_Marker fa) \<noteq> [] \<or> length (fa_When fa) \<noteq> 0 \<or> fa_Headers fa \<noteq> None \<or>
     fa_Args fa \<noteq> None \<or> fa_Body fa \<noteq> None"

definition write_reason :: "list_write \<Rightarrow> write_err + list_write" where
  "write_reason w =
     (if w_Reason w = [] then Inr (w\<lparr>w_Reason := DefaultWriteReason\<rparr>)
      else if \<not> codeRe (w_Reason w) then Inl (WriteCode (w_Reason w))
      else Inr w)"

definition parseWrite ::
  "file_action \<Rightarrow> string \<Rightarrow> profile \<Rightarrow> write_err + list_write" where
  "parseWrite fa rule_cookie p =
     (let w0 = write_fields fa
      in if \<not> counterRe (w_List w0) then Inl (ListName (w_List w0))
         else case write_cookie w0 rule_cookie p of
           Inl e \<Rightarrow> Inl e
         | Inr w \<Rightarrow>
             if write_extras fa then Inl WriteExtras
             else if w_Op w = OpRemove then
               (if TrimSpace (fa_TTL fa) \<noteq> [] then Inl RemoveTTL else write_reason w)
             else if w_Op w \<noteq> OpAdd then Inl (WriteOp (w_Op w))
             else if TrimSpace (fa_TTL fa) = [] then Inl WriteNoTTL
             else case parseTTL (fa_TTL fa) of
               Inl e \<Rightarrow> Inl (WriteTTL e)
             | Inr ttl \<Rightarrow>
                 if ttl < Second then Inl WriteTTLShort
                 else write_reason (w\<lparr>w_TTL := ttl\<rparr>))"

subsection \<open>Rules\<close>

definition rule_start :: "nat \<Rightarrow> file_rule \<Rightarrow> rule" where
  "rule_start index fr =
     \<lparr>r_Name = (let n = TrimSpace (fu_Name fr)
                in if n = [] then ''rule-'' @ FormatInt (int index + 1) 10 else n),
      r_Match = \<lparr>m_PathPrefix = TrimSpace (fm_PathPrefix (fu_Match fr)), m_Suffixes = [],
                 m_Static = fm_Static (fu_Match fr), m_Methods = []\<rparr>,
      r_Phase = [], r_Status = [], r_On = [], r_Cookie = [], r_Tags = [], r_TagsNot = False,
      r_tagSet = None, r_Listed = None, r_Issue = [], r_Drop = [], r_Actions = [], r_Writes = [],
      r_Overload = False, r_At = 0\<rparr>"

definition parse_suffix :: "unicode \<Rightarrow> string \<Rightarrow> rule_err + string" where
  "parse_suffix u s0 =
     (let s = ToLower u (TrimSpace s0) in if s = [] then Inl EmptySuffix else Inr s)"

definition parse_method :: "unicode \<Rightarrow> string \<Rightarrow> rule_err + string" where
  "parse_method u m0 =
     (let m = ToUpper u (TrimSpace m0) in if m = [] then Inl EmptyMethod else Inr m)"

text \<open>\<open>parseListed\<close>, given the cookie of the rule.\<close>

definition parseListed :: "file_listed option \<Rightarrow> string \<Rightarrow> rule_err + list_check option" where
  "parseListed ofl rule_cookie =
     (case ofl of
        None \<Rightarrow> Inr None
      | Some fl \<Rightarrow>
          (let name = TrimSpace (fl_List fl); oper = TrimSpace (fl_Op fl);
               hash = TrimSpace (fl_Hash fl)
           in if \<not> counterRe name then Inl (ListedName name)
              else if oper \<notin> {[], ''in'', ''not_in'', ''not in''} then Inl (ListedOp (fl_Op fl))
              else if hash \<notin> {[], ''md5''} then Inl (ListedHash (fl_Hash fl))
              else if rule_cookie = [] then Inl ListedNoCookie
              else Inr (Some \<lparr>lc_List = name, lc_Not = oper \<in> {''not_in'', ''not in''},
                              lc_MD5 = (hash = ''md5''), lc_Static = fl_Static fl, lc_set = {}\<rparr>)))"

definition parse_tag :: "string \<Rightarrow> rule_err + string" where
  "parse_tag t0 = (let t = TrimSpace t0 in if \<not> tagRe t then Inl (BadTag t) else Inr t)"

text \<open>The phase and the statuses of a rule.\<close>

definition rule_scope :: "file_rule \<Rightarrow> rule \<Rightarrow> rule_err + rule" where
  "rule_scope fr rule =
     (let phase = TrimSpace (fu_Phase fr)
      in if phase \<notin> {[], PhaseRequest, PhaseResponse} then Inl (RulePhase phase)
         else case find (\<lambda>code. code < 100 \<or> code > 599) (fu_Status fr) of
           Some code \<Rightarrow> Inl (RuleStatus code)
         | None \<Rightarrow>
             if length (fu_Status fr) > 0 \<and> phase \<noteq> PhaseResponse then Inl StatusPhase
             else Inr (rule\<lparr>r_Phase := phase, r_Status := fu_Status fr\<rparr>))"

text \<open>What a rule issues and drops, and the cookie it is about.\<close>

definition rule_names :: "file_rule \<Rightarrow> profile \<Rightarrow> rule \<Rightarrow> rule_err + rule" where
  "rule_names fr p rule =
     (let issue = TrimSpace (fu_Issue fr); drp = TrimSpace (fu_Drop fr)
      in if issue \<noteq> [] \<and> drp \<noteq> [] then Inl IssueAndDrop
         else case find (\<lambda>n. n \<noteq> [] \<and> profile_Cookie p n = None) [issue, drp] of
           Some n \<Rightarrow> Inl (Undeclared n)
         | None \<Rightarrow>
             (let given = TrimSpace (fu_Cookie fr);
                  ck = (if given \<noteq> [] then given
                        else if issue \<noteq> [] then issue
                        else if drp \<noteq> [] then drp
                        else if length (p_Cookies p) = 1 then c_Name (p_Cookies p ! 0)
                        else [])
              in if ck \<noteq> [] \<and> profile_Cookie p ck = None then Inl (Undeclared ck)
                 else Inr (rule\<lparr>r_Issue := issue, r_Drop := drp, r_Cookie := ck,
                                r_On := TrimSpace (fu_On fr)\<rparr>)))"

definition rule_tags :: "file_rule \<Rightarrow> rule \<Rightarrow> rule_err + rule" where
  "rule_tags fr rule =
     (if length (fu_Tags fr) > 0 \<and> length (fu_NotTags fr) > 0 then Inl TagsBoth
      else (let neg = (length (fu_NotTags fr) > 0)
            in case mapE parse_tag (if neg then fu_NotTags fr else fu_Tags fr) of
                 Inl e \<Rightarrow> Inl e
               | Inr tags \<Rightarrow>
                   if length tags > 0 \<and> r_Cookie rule = [] then Inl TagsNoCookie
                   else if length tags > 0 \<and> r_On rule \<in> {StateAbsent, StateInvalid}
                     then Inl TagsNever
                   else Inr (rule\<lparr>r_Tags := tags, r_TagsNot := neg,
                                  r_tagSet := if length tags > 8 then Some (set tags) else None\<rparr>)))"

text \<open>The state a rule waits for.  A cookie that is not there would be a nil pointer.\<close>

definition check_on :: "profile \<Rightarrow> rule \<Rightarrow> rule_err option" where
  "check_on p rule =
     (if r_On rule = [] then None
      else if r_Cookie rule = [] then Some OnNoCookie
      else if \<not> list_ex (\<lambda>s. s = r_On rule) States then Some (OnUnknown (r_On rule))
      else case profile_Cookie p (r_Cookie rule) of
        None \<Rightarrow> Some NilCookie
      | Some c \<Rightarrow>
          if \<not> Signed c \<and> (r_On rule = StateInvalid \<or> r_On rule = StateExpired)
            then Some OnUnsigned
          else if r_On rule = StateExpired \<and> c_Renew c = 0 then Some OnNoRenew
          else None)"

definition parseRuleCookie :: "file_rule \<Rightarrow> rule \<Rightarrow> profile \<Rightarrow> rule_err + rule" where
  "parseRuleCookie fr rule p =
     (case rule_scope fr rule of
        Inl e \<Rightarrow> Inl e
      | Inr r1 \<Rightarrow>
      (case rule_names fr p r1 of
        Inl e \<Rightarrow> Inl e
      | Inr r2 \<Rightarrow>
      (case rule_tags fr r2 of
        Inl e \<Rightarrow> Inl e
      | Inr r3 \<Rightarrow>
      (case parseListed (fu_Listed fr) (r_Cookie r3) of
        Inl e \<Rightarrow> Inl e
      | Inr l \<Rightarrow>
      (let r4 = r3\<lparr>r_Listed := l\<rparr>
       in case check_on p r4 of Some e \<Rightarrow> Inl e | None \<Rightarrow> Inr r4)))))"

text \<open>
  The loop over the actions of a rule: a list write, or a request whose marker is checked
  (\<open>valued\<close>: the rule's cookie has a value when the rule fires).
\<close>

fun parse_asks ::
  "unicode \<Rightarrow> profile \<Rightarrow> string \<Rightarrow> bool \<Rightarrow> file_action list \<Rightarrow> rule \<Rightarrow> rule_err + rule" where
  "parse_asks u p ck valued [] rule = Inr rule"
| "parse_asks u p ck valued (fa # fas) rule =
     (if TrimSpace (fa_List fa) \<noteq> [] then
        (case parseWrite fa (r_Cookie rule) p of
           Inl e \<Rightarrow> Inl (RuleWrite e)
         | Inr w \<Rightarrow> parse_asks u p ck valued fas (rule\<lparr>r_Writes := r_Writes rule @ [w]\<rparr>))
      else
        (case parseAction u fa of
           Inl e \<Rightarrow> Inl (RuleAction e)
         | Inr a \<Rightarrow>
             (case CheckMarkerSlots (a_Marker a) ck valued p of
                Some e \<Rightarrow> Inl (RuleMarker e)
              | None \<Rightarrow> parse_asks u p ck valued fas
                  (rule\<lparr>r_Actions := r_Actions rule @ [\<lparr>ask_Action = a, ask_Cookie = ck\<rparr>]\<rparr>))))"

definition overload_extras :: "file_rule \<Rightarrow> bool" where
  "overload_extras fr \<longleftrightarrow>
     TrimSpace (fm_PathPrefix (fu_Match fr)) \<noteq> [] \<or> length (fm_Suffixes (fu_Match fr)) > 0 \<or>
     fm_Static (fu_Match fr) \<or> length (fm_Methods (fu_Match fr)) > 0 \<or>
     TrimSpace (fu_Phase fr) \<noteq> [] \<or> length (fu_Status fr) > 0 \<or> TrimSpace (fu_Cookie fr) \<noteq> [] \<or>
     length (fu_Tags fr) > 0 \<or> length (fu_NotTags fr) > 0 \<or> fu_Listed fr \<noteq> None \<or>
     TrimSpace (fu_Issue fr) \<noteq> [] \<or> TrimSpace (fu_Drop fr) \<noteq> [] \<or> TrimSpace (fu_If fr) \<noteq> [] \<or>
     TrimSpace (fu_Unless fr) \<noteq> []"

definition parseOverloadRule ::
  "unicode \<Rightarrow> file_rule \<Rightarrow> rule \<Rightarrow> profile \<Rightarrow> rule_err + rule" where
  "parseOverloadRule u fr rule p =
     (case overload_Check (fu_At fr) of
        Some e \<Rightarrow> Inl (OverloadAt e)
      | None \<Rightarrow>
          if overload_extras fr then Inl OverloadExtras
          else if length (fu_Actions fr) = 0 then Inl OverloadNothing
          else parse_asks u p [] False (fu_Actions fr)
                 (rule\<lparr>r_Overload := True, r_At := At (fu_At fr)\<rparr>))"

definition rule_valued :: "rule \<Rightarrow> bool" where
  "rule_valued rule \<longleftrightarrow>
     (r_On rule \<noteq> StateAbsent \<and> r_On rule \<noteq> StateInvalid) \<or> r_Issue rule = r_Cookie rule"

definition parseRule ::
  "unicode \<Rightarrow> nat \<Rightarrow> file_rule \<Rightarrow> profile \<Rightarrow> rule_err + rule" where
  "parseRule u index fr p =
     (let rule = rule_start index fr
      in if TrimSpace (fu_On fr) = overload_On then parseOverloadRule u fr rule p
         else if fu_At fr \<noteq> None then Inl AtOnly
         else if TrimSpace (fu_If fr) \<noteq> [] \<or> TrimSpace (fu_Unless fr) \<noteq> [] then Inl IfUnless
         else case mapE (parse_suffix u) (fm_Suffixes (fu_Match fr)) of
           Inl e \<Rightarrow> Inl e
         | Inr sfx \<Rightarrow>
         (case mapE (parse_method u) (fm_Methods (fu_Match fr)) of
           Inl e \<Rightarrow> Inl e
         | Inr mth \<Rightarrow>
         (case parseRuleCookie fr
                 (rule\<lparr>r_Match := (r_Match rule)\<lparr>m_Suffixes := sfx, m_Methods := mth\<rparr>\<rparr>) p of
           Inl e \<Rightarrow> Inl e
         | Inr r \<Rightarrow>
             if length (fu_Actions fr) = 0 \<and> r_Issue r = [] \<and> r_Drop r = [] then Inl DoesNothing
             else parse_asks u p (r_Cookie r) (rule_valued r) (fu_Actions fr) r)))"

subsection \<open>Profiles\<close>

fun parse_cookies :: "unicode \<Rightarrow> file_cookie list \<Rightarrow> profile \<Rightarrow> profile_err + profile" where
  "parse_cookies u [] p = Inr p"
| "parse_cookies u (fc # fcs) p =
     (case parseCookie u fc of
        Inl e \<Rightarrow> Inl (ProfileCookie e)
      | Inr c \<Rightarrow>
          if profile_Cookie p (c_Name c) \<noteq> None then Inl (CookieTwice (c_Name c))
          else parse_cookies u fcs (p\<lparr>p_Cookies := p_Cookies p @ [c]\<rparr>))"

fun parse_rules :: "unicode \<Rightarrow> nat \<Rightarrow> file_rule list \<Rightarrow> profile \<Rightarrow> profile_err + profile" where
  "parse_rules u i [] p = Inr p"
| "parse_rules u i (fr # frs) p =
     (case parseRule u i fr p of
        Inl e \<Rightarrow> Inl (ProfileRule e)
      | Inr r \<Rightarrow> parse_rules u (Suc i) frs (p\<lparr>p_Rules := p_Rules p @ [r]\<rparr>))"

definition profile_mode :: "file_profile \<Rightarrow> string" where
  "profile_mode f = (let m = TrimSpace (fp_Mode f) in if m = [] then ModeEnforce else m)"

definition policy_Parse ::
  "unicode \<Rightarrow> (string \<Rightarrow> file_profile option) \<Rightarrow> string \<Rightarrow> string \<Rightarrow> profile_err + profile" where
  "policy_Parse u unmarshal name raw =
     (case unmarshal raw of
        None \<Rightarrow> Inl ProfileYAML
      | Some f \<Rightarrow>
          (let mode = profile_mode f
           in if mode \<noteq> ModeEnforce \<and> mode \<noteq> ModeOff then Inl (ProfileMode mode)
              else if length (fp_Conditions f) > 0 then Inl ProfileConditions
              else case parse_cookies u (fp_Cookies f)
                     \<lparr>p_Name = name, p_Mode = mode, p_Cookies = [], p_Rules = []\<rparr> of
                Inl e \<Rightarrow> Inl e
              | Inr p \<Rightarrow> parse_rules u 0 (fp_Rules f) p))"

subsection \<open>Well-formed actions\<close>

definition valid_target :: "action \<Rightarrow> bool" where
  "valid_target a \<longleftrightarrow>
     (\<exists>axes. verbs (a_Do a) = Some axes \<and> a_Apply a \<in> set axes) \<and>
     (if recordVerb (a_Do a) then a_To a \<in> {[], ''*''} else a_To a \<noteq> []) \<and>
     (a_Phase a = [] \<or>
        controlVerb (a_Do a) \<and> a_Phase a \<in> {PhaseRequest, PhaseResponse, PhaseFrame} \<and>
        (a_Apply a = ApplyConn \<longrightarrow> a_Phase a = PhaseFrame)) \<and>
     (a_Code a = [] \<or> codeRe (a_Code a))"

definition valid_numbers :: "action \<Rightarrow> bool" where
  "valid_numbers a \<longleftrightarrow>
     (a_Delta a \<noteq> None \<longleftrightarrow> a_Do a = DoThreshold) \<and>
     (\<forall>d. a_Delta a = Some d \<longrightarrow> - 100 \<le> d \<and> d \<le> 900) \<and>
     (\<forall>v. a_Value a = Some v \<longrightarrow>
        a_Do a \<in> {DoNote, DoScore} \<and> - 100 \<le> v \<and> v \<le> 100 \<and> (a_Do a = DoScore \<longrightarrow> v \<noteq> 0)) \<and>
     (a_Do a = DoScore \<longrightarrow> a_Value a \<noteq> None) \<and>
     (a_Counter a = [] \<or> a_Do a = DoNote \<and> counterRe (a_Counter a))"

definition valid_names :: "action \<Rightarrow> bool" where
  "valid_names a \<longleftrightarrow>
     (if a_Do a = DoMutate then counterRe (a_Group a) else a_Group a = []) \<and>
     (if a_Do a = DoMutate \<or> auditVerb (a_Do a) then a_Set a \<in> {''on'', ''off''} else a_Set a = []) \<and>
     (if a_Do a = DoMark then CheckMarker (a_Marker a) = None else a_Marker a = [])"

definition valid_record :: "action \<Rightarrow> bool" where
  "valid_record a \<longleftrightarrow>
     (auditVerb (a_Do a) \<or> a_TTL a = None) \<and>
     (a_TTL a \<in> {None, Some 0} \<or> a_Do a = DoArchive \<and> a_Set a = ''on'') \<and>
     (a_When a = [] \<or> a_Do a = DoArchive \<and> a_Set a = ''on'') \<and>
     distinct (a_When a) \<and> set (a_When a) \<subseteq> {''allow'', ''deny''} \<and>
     (no_objects a \<or> auditVerb (a_Do a) \<and> a_Set a = ''on'') \<and>
     (a_Apply a = ApplyResponse \<longrightarrow> a_Args a = None) \<and>
     CheckObjectSpec (a_Headers a) = None \<and> CheckObjectSpec (a_Args a) = None \<and>
     CheckObjectSpec (a_Body a) = None"

definition valid_action :: "action \<Rightarrow> bool" where
  "valid_action a \<longleftrightarrow> valid_target a \<and> valid_numbers a \<and> valid_names a \<and> valid_record a"

lemma do_distinct [simp]:
  "recordVerb DoAudit" "recordVerb DoArchive" "recordVerb DoMark" "recordVerb DoScore"
  "\<not> auditVerb DoMutate" "\<not> auditVerb DoMark" "\<not> auditVerb DoScore" "auditVerb DoAudit"
  "auditVerb DoArchive"
  by (simp_all add: recordVerb_def auditVerb_def)

lemma auditVerb_record: "auditVerb d \<Longrightarrow> recordVerb d"
  by (simp add: recordVerb_def)

lemma CheckArchiveWhen_Inr:
  assumes "CheckArchiveWhen u ws = Inr out"
  shows "distinct out" and "set out \<subseteq> {''allow'', ''deny''}"
  using assms by (auto simp: CheckArchiveWhen_def ArchiveWhen_def split: if_splits)

lemma action_apply_Inr:
  assumes "action_apply a0 = Inr a"
  shows "a = a0\<lparr>a_Apply := a_Apply a\<rparr>" and "a_To a \<noteq> [] \<or> recordVerb (a_Do a)"
    and "\<exists>axes. verbs (a_Do a) = Some axes \<and> a_Apply a \<in> set axes"
  using assms by (auto simp: action_apply_def Let_def list_ex_iff split: if_splits option.splits)

lemma checkPhaseAsk_None:
  "checkPhaseAsk do phase ap = None \<longleftrightarrow>
     phase = [] \<or> controlVerb do \<and> phase \<in> {PhaseRequest, PhaseResponse, PhaseFrame} \<and>
       (ap = ApplyConn \<longrightarrow> phase = PhaseFrame)"
  by (auto simp: checkPhaseAsk_def)

lemma check_numbers_valid:
  "check_delta a = None \<Longrightarrow> check_value a = None \<Longrightarrow> valid_numbers a"
  by (auto simp: check_delta_def check_value_def valid_numbers_def split: if_splits option.splits)

lemma check_record_to:
  assumes "check_value a = None" "check_mark a = None" "check_audit a = None" "recordVerb (a_Do a)"
  shows "a_To a \<in> {[], ''*''}"
  using assms
  by (auto simp: recordVerb_def check_value_def check_mark_def check_audit_def Let_def
      split: if_splits)

lemma check_names_valid:
  assumes "check_mutate a = None" "check_mark a = None" "check_audit a = None"
  shows "valid_names a"
  using assms
  by (auto simp: valid_names_def check_mutate_def check_mark_def check_audit_def Let_def
      split: if_splits)

lemma check_audit_valid:
  assumes "check_audit a = None" and "distinct (a_When a)" and "set (a_When a) \<subseteq> {''allow'', ''deny''}"
  shows "valid_record a"
proof (cases "auditVerb (a_Do a)")
  case True
  with assms show ?thesis
    by (auto simp: valid_record_def check_audit_def Let_def auditVerb_def
        split: if_splits option.splits)
next
  case False
  with assms show ?thesis
    by (auto simp: valid_record_def check_audit_def Let_def no_objects_def CheckObjectSpec_def)
qed

lemma parseAction_checks:
  assumes "parseAction u fa = Inr a"
  obtains ttl wh where
    "CheckArchiveWhen u (fa_When fa) = Inr wh"
    and "action_apply ((action_fields fa)\<lparr>a_TTL := ttl, a_When := wh\<rparr>) = Inr a"
    and "checkPhaseAsk (a_Do a) (a_Phase a) (a_Apply a) = None"
    and "a_Code a = [] \<or> codeRe (a_Code a)"
    and "check_delta a = None" and "check_value a = None" and "check_mutate a = None"
    and "check_mark a = None" and "check_audit a = None"
  using assms by (auto simp: parseAction_def)

lemma parseAction_valid_aux:
  assumes "parseAction u fa = Inr a"
  shows "valid_action a"
  using assms
proof (rule parseAction_checks)
  fix ttl wh
  assume wh: "CheckArchiveWhen u (fa_When fa) = Inr wh"
    and ap: "action_apply ((action_fields fa)\<lparr>a_TTL := ttl, a_When := wh\<rparr>) = Inr a"
    and ph: "checkPhaseAsk (a_Do a) (a_Phase a) (a_Apply a) = None"
    and code: "a_Code a = [] \<or> codeRe (a_Code a)"
    and chk: "check_delta a = None" "check_value a = None" "check_mutate a = None"
      "check_mark a = None" "check_audit a = None"
  have wn: "a_When a = wh" by (subst action_apply_Inr(1) [OF ap]) simp
  have "valid_target a"
    using action_apply_Inr(2,3) [OF ap] ph code check_record_to [OF chk(2,4,5)]
    by (auto simp: valid_target_def checkPhaseAsk_None)
  moreover have "valid_record a"
    using check_audit_valid [OF chk(5)] CheckArchiveWhen_Inr [OF wh] wn by simp
  ultimately show ?thesis
    using check_numbers_valid [OF chk(1,2)] check_names_valid [OF chk(3,4,5)]
    by (simp add: valid_action_def)
qed

subsection \<open>Well-formed list writes\<close>

definition valid_write :: "profile \<Rightarrow> list_write \<Rightarrow> bool" where
  "valid_write p w \<longleftrightarrow>
     counterRe (w_List w) \<and>
     (if w_Subject w \<in> {WriteValue, WriteCookie} then profile_Cookie p (w_Cookie w) \<noteq> None
      else w_Subject w \<in> {WriteAddr, WriteNet, WriteNetAll, WriteASN} \<and> w_Cookie w = []) \<and>
     (w_Op w = OpRemove \<and> w_TTL w = 0 \<or> w_Op w = OpAdd \<and> Second \<le> w_TTL w) \<and>
     codeRe (w_Reason w)"

lemma codeRe_default: "codeRe DefaultWriteReason"
  by (simp add: codeRe_def matches_name_def matches_class_def char_class_defs)

lemma write_reason_Inr:
  assumes "write_reason w = Inr w'"
  shows "w' = w\<lparr>w_Reason := w_Reason w'\<rparr>" and "codeRe (w_Reason w')"
  using assms codeRe_default by (auto simp: write_reason_def split: if_splits)

lemma write_cookie_Inr:
  assumes "write_cookie w ck p = Inr w'"
  shows "w' = w\<lparr>w_Cookie := w_Cookie w'\<rparr>"
    and "if w_Subject w' \<in> {WriteValue, WriteCookie} then profile_Cookie p (w_Cookie w') \<noteq> None
      else w_Subject w' \<in> {WriteAddr, WriteNet, WriteNetAll, WriteASN} \<and> w_Cookie w' = []"
  using assms by (auto simp: write_cookie_def Let_def split: if_splits)

lemma parseWrite_checks:
  assumes "parseWrite fa ck p = Inr w"
  obtains w1 ttl where "counterRe (TrimSpace (fa_List fa))"
    and "write_cookie (write_fields fa) ck p = Inr w1"
    and "write_reason (w1\<lparr>w_TTL := ttl\<rparr>) = Inr w"
    and "w_Op w1 = OpRemove \<and> ttl = 0 \<or> w_Op w1 = OpAdd \<and> Second \<le> ttl"
proof -
  from assms obtain w1 where w1: "counterRe (TrimSpace (fa_List fa))"
    "write_cookie (write_fields fa) ck p = Inr w1"
    and rem: "w_Op w1 = OpRemove \<Longrightarrow> write_reason w1 = Inr w"
    and add: "w_Op w1 \<noteq> OpRemove \<Longrightarrow> w_Op w1 = OpAdd \<and>
        (\<exists>ttl. write_reason (w1\<lparr>w_TTL := ttl\<rparr>) = Inr w \<and> Second \<le> ttl)"
    by (auto simp: parseWrite_def Let_def write_fields_def not_less split: if_splits)
  have "w_TTL w1 = 0"
    by (subst write_cookie_Inr(1) [OF w1(2)]) (simp add: write_fields_def)
  then have "w1 = w1\<lparr>w_TTL := 0\<rparr>" by simp
  with w1 rem add show thesis
    by (cases "w_Op w1 = OpRemove") (metis that)+
qed

lemma parseWrite_valid_aux:
  assumes "parseWrite fa ck p = Inr w"
  shows "valid_write p w"
  using assms
proof (rule parseWrite_checks)
  fix w1 ttl
  assume name: "counterRe (TrimSpace (fa_List fa))"
    and ck: "write_cookie (write_fields fa) ck p = Inr w1"
    and rs: "write_reason (w1\<lparr>w_TTL := ttl\<rparr>) = Inr w"
    and op: "w_Op w1 = OpRemove \<and> ttl = 0 \<or> w_Op w1 = OpAdd \<and> Second \<le> ttl"
  have w: "w = w1\<lparr>w_TTL := ttl, w_Reason := w_Reason w\<rparr>" using write_reason_Inr(1) [OF rs] by simp
  have "w_List w1 = TrimSpace (fa_List fa)"
    by (subst write_cookie_Inr(1) [OF ck]) (simp add: write_fields_def)
  with name op write_cookie_Inr(2) [OF ck] write_reason_Inr(2) [OF rs] show ?thesis
    by (subst w) (auto simp: valid_write_def split: if_splits)
qed

subsection \<open>Well-formed rules and profiles\<close>

definition wf_ask :: "profile \<Rightarrow> string \<Rightarrow> bool \<Rightarrow> ask \<Rightarrow> bool" where
  "wf_ask p ck valued k \<longleftrightarrow>
     valid_action (ask_Action k) \<and> ask_Cookie k = ck \<and>
     CheckMarkerSlots (a_Marker (ask_Action k)) ck valued p = None"

definition wf_names :: "profile \<Rightarrow> rule \<Rightarrow> bool" where
  "wf_names p r \<longleftrightarrow>
     r_Phase r \<in> {[], PhaseRequest, PhaseResponse} \<and>
     (\<forall>code \<in> set (r_Status r). 100 \<le> code \<and> code \<le> 599) \<and>
     (r_Status r \<noteq> [] \<longrightarrow> r_Phase r = PhaseResponse) \<and>
     (r_Issue r = [] \<or> r_Drop r = []) \<and>
     (\<forall>n \<in> {r_Issue r, r_Drop r, r_Cookie r}. n = [] \<or> profile_Cookie p n \<noteq> None) \<and>
     (r_Cookie r = [] \<longrightarrow> r_Issue r = [] \<and> r_Drop r = [])"

definition wf_tags :: "rule \<Rightarrow> bool" where
  "wf_tags r \<longleftrightarrow>
     (\<forall>t \<in> set (r_Tags r). tagRe t) \<and>
     (\<forall>s. r_tagSet r = Some s \<longrightarrow> s = set (r_Tags r)) \<and>
     (r_Tags r \<noteq> [] \<longrightarrow> r_Cookie r \<noteq> [] \<and> r_On r \<notin> {StateAbsent, StateInvalid})"

definition wf_listed :: "rule \<Rightarrow> bool" where
  "wf_listed r \<longleftrightarrow>
     (\<forall>l. r_Listed r = Some l \<longrightarrow> counterRe (lc_List l) \<and> r_Cookie r \<noteq> [])"

definition wf_on :: "profile \<Rightarrow> rule \<Rightarrow> bool" where
  "wf_on p r \<longleftrightarrow>
     r_On r = [] \<or>
     r_On r \<in> set States \<and>
     (\<exists>c. profile_Cookie p (r_Cookie r) = Some c \<and>
        (r_On r \<in> {StateInvalid, StateExpired} \<longrightarrow> Signed c) \<and>
        (r_On r = StateExpired \<longrightarrow> c_Renew c \<noteq> 0))"

definition wf_plain_rule :: "profile \<Rightarrow> rule \<Rightarrow> bool" where
  "wf_plain_rule p r \<longleftrightarrow> wf_names p r \<and> wf_tags r \<and> wf_listed r \<and> wf_on p r"

definition wf_overload_rule :: "rule \<Rightarrow> bool" where
  "wf_overload_rule r \<longleftrightarrow>
     AtMin \<le> r_At r \<and> r_At r \<le> AtMax \<and> r_Issue r = [] \<and> r_Drop r = [] \<and> r_Cookie r = [] \<and>
     r_Listed r = None"

definition wf_rule :: "profile \<Rightarrow> rule \<Rightarrow> bool" where
  "wf_rule p r \<longleftrightarrow>
     (if r_Overload r then wf_overload_rule r else wf_plain_rule p r) \<and>
     (r_Issue r \<noteq> [] \<or> r_Drop r \<noteq> [] \<or> r_Actions r \<noteq> [] \<or> r_Writes r \<noteq> []) \<and>
     (\<forall>k \<in> set (r_Actions r). wf_ask p (r_Cookie r) (\<not> r_Overload r \<and> rule_valued r) k) \<and>
     (\<forall>w \<in> set (r_Writes r). valid_write p w)"

definition wf_profile :: "unicode \<Rightarrow> profile \<Rightarrow> bool" where
  "wf_profile u p \<longleftrightarrow>
     p_Mode p \<in> {ModeEnforce, ModeOff} \<and>
     distinct (map c_Name (p_Cookies p)) \<and> (\<forall>c \<in> set (p_Cookies p). wf_cookie u c) \<and>
     (\<forall>r \<in> set (p_Rules p). wf_rule p r)"

lemma profile_Cookie_in: "profile_Cookie p n = Some c \<Longrightarrow> c \<in> set (p_Cookies p)"
  by (auto simp: profile_Cookie_def find_Some_iff)

lemma profile_Cookie_cong: "p_Cookies q = p_Cookies p \<Longrightarrow> profile_Cookie q = profile_Cookie p"
  by (simp add: profile_Cookie_def fun_eq_iff)

lemma wf_rule_cong:
  assumes "p_Cookies q = p_Cookies p"
  shows "wf_rule q r = wf_rule p r"
proof -
  have ck: "profile_Cookie q = profile_Cookie p" using assms by (rule profile_Cookie_cong)
  then have "slot_ok c v q = slot_ok c v p" for c v by (simp add: slot_ok_def fun_eq_iff)
  then have "CheckMarkerSlots m c v q = None \<longleftrightarrow> CheckMarkerSlots m c v p = None" for m c v
    by (simp add: CheckMarkerSlots_pieces)
  with ck show ?thesis
    by (simp add: wf_rule_def wf_plain_rule_def wf_names_def wf_on_def wf_ask_def valid_write_def)
qed

subsection \<open>The parser keeps them\<close>

lemma rule_scope_Inr:
  "rule_scope fr rule = Inr r \<Longrightarrow>
     r = rule\<lparr>r_Phase := r_Phase r, r_Status := r_Status r\<rparr> \<and>
     r_Phase r \<in> {[], PhaseRequest, PhaseResponse} \<and>
     (\<forall>code \<in> set (r_Status r). 100 \<le> code \<and> code \<le> 599) \<and>
     (r_Status r \<noteq> [] \<longrightarrow> r_Phase r = PhaseResponse)"
  by (auto simp: rule_scope_def Let_def find_None_iff not_less)

lemma rule_names_Inr:
  assumes "rule_names fr p rule = Inr r"
  shows "r = rule\<lparr>r_Issue := r_Issue r, r_Drop := r_Drop r, r_Cookie := r_Cookie r,
                  r_On := TrimSpace (fu_On fr)\<rparr>"
    and "r_Issue r = [] \<or> r_Drop r = []"
    and "\<forall>n \<in> {r_Issue r, r_Drop r, r_Cookie r}. n = [] \<or> profile_Cookie p n \<noteq> None"
    and "r_Cookie r = [] \<longrightarrow> r_Issue r = [] \<and> r_Drop r = []"
  using assms
  by (auto simp: rule_names_def Let_def split: if_splits)

lemma parse_tag_Inr: "parse_tag t0 = Inr t \<longleftrightarrow> t = TrimSpace t0 \<and> tagRe t"
  by (auto simp: parse_tag_def Let_def)

lemma rule_tags_Inr:
  assumes "rule_tags fr rule = Inr r"
  shows "r = rule\<lparr>r_Tags := r_Tags r, r_TagsNot := r_TagsNot r, r_tagSet := r_tagSet r\<rparr>"
    and "wf_tags r"
proof -
  from assms show "r = rule\<lparr>r_Tags := r_Tags r, r_TagsNot := r_TagsNot r, r_tagSet := r_tagSet r\<rparr>"
    by (auto simp: rule_tags_def Let_def)
  from assms obtain raw tags where tags: "mapE parse_tag raw = Inr tags" "r_Tags r = tags"
    and rest: "r_tagSet r = (if length tags > 8 then Some (set tags) else None)"
      "r_Cookie r = r_Cookie rule" "r_On r = r_On rule"
      "tags \<noteq> [] \<longrightarrow> r_Cookie rule \<noteq> [] \<and> r_On rule \<notin> {StateAbsent, StateInvalid}"
    by (auto simp: rule_tags_def Let_def)
  from mapE_Inr_set [OF tags(1)] have "\<forall>t \<in> set tags. tagRe t" by (auto simp: parse_tag_Inr)
  with tags rest show "wf_tags r" by (auto simp: wf_tags_def split: if_splits)
qed

lemma parseListed_Inr:
  "parseListed ofl ck = Inr (Some l) \<Longrightarrow> counterRe (lc_List l) \<and> ck \<noteq> []"
  by (auto simp: parseListed_def Let_def split: option.splits if_splits)

lemma check_on_None: "check_on p r = None \<Longrightarrow> wf_on p r"
  by (auto simp: check_on_def wf_on_def list_ex_iff split: if_splits option.splits)

lemma parseRuleCookie_Inr:
  assumes "parseRuleCookie fr rule p = Inr r"
  shows "wf_plain_rule p r"
    and "r_Overload r = r_Overload rule" and "r_Actions r = r_Actions rule"
    and "r_Writes r = r_Writes rule" and "r_Name r = r_Name rule"
proof -
  from assms obtain r1 r2 r3 l where
    1: "rule_scope fr rule = Inr r1" and 2: "rule_names fr p r1 = Inr r2" and
    3: "rule_tags fr r2 = Inr r3" and 4: "parseListed (fu_Listed fr) (r_Cookie r3) = Inr l" and
    r: "r = r3\<lparr>r_Listed := l\<rparr>" and 5: "check_on p r = None"
    by (auto simp: parseRuleCookie_def Let_def)
  note e1 = rule_scope_Inr [OF 1] and e2 = rule_names_Inr [OF 2] and e3 = rule_tags_Inr [OF 3]
  from e1 obtain ph st where r1: "r1 = rule\<lparr>r_Phase := ph, r_Status := st\<rparr>" by blast
  from e2(1) obtain i d c where r2: "r2 = r1\<lparr>r_Issue := i, r_Drop := d, r_Cookie := c,
      r_On := TrimSpace (fu_On fr)\<rparr>" by blast
  from e3(1) obtain t n s where r3: "r3 = r2\<lparr>r_Tags := t, r_TagsNot := n, r_tagSet := s\<rparr>" by blast
  have "wf_names p r" using e1 e2(2-4) by (simp add: wf_names_def r r3 r2)
  moreover have "wf_tags r" using e3(2) by (simp add: wf_tags_def r)
  moreover have "wf_listed r" using parseListed_Inr [of "fu_Listed fr" "r_Cookie r3"] 4
    by (auto simp: wf_listed_def r)
  ultimately show "wf_plain_rule p r"
    using check_on_None [OF 5] by (simp add: wf_plain_rule_def)
  show "r_Overload r = r_Overload rule" "r_Actions r = r_Actions rule" "r_Writes r = r_Writes rule"
    "r_Name r = r_Name rule"
    by (simp_all add: r r3 r2 r1)
qed

lemma parse_asks_Inr:
  assumes "parse_asks u p ck valued fas rule = Inr r"
  shows "\<exists>ks ws. r = rule\<lparr>r_Actions := r_Actions rule @ ks, r_Writes := r_Writes rule @ ws\<rparr> \<and>
     (\<forall>k \<in> set ks. wf_ask p ck valued k) \<and> (\<forall>w \<in> set ws. valid_write p w) \<and>
     (fas \<noteq> [] \<longrightarrow> ks \<noteq> [] \<or> ws \<noteq> [])"
  using assms
proof (induction fas arbitrary: rule)
  case Nil
  then show ?case by (intro exI [of _ "[]"]) simp
next
  case (Cons fa fas)
  show ?case
  proof (cases "TrimSpace (fa_List fa) \<noteq> []")
    case True
    with Cons.prems obtain w where w: "parseWrite fa (r_Cookie rule) p = Inr w"
      and r: "parse_asks u p ck valued fas (rule\<lparr>r_Writes := r_Writes rule @ [w]\<rparr>) = Inr r"
      by auto
    from Cons.IH [OF r] obtain ks ws where
      "r = rule\<lparr>r_Actions := r_Actions rule @ ks, r_Writes := r_Writes rule @ w # ws\<rparr>"
      "\<forall>k \<in> set ks. wf_ask p ck valued k" "\<forall>w \<in> set ws. valid_write p w"
      by auto
    with parseWrite_valid_aux [OF w] show ?thesis
      by (intro exI [of _ ks] exI [of _ "w # ws"]) simp
  next
    case False
    with Cons.prems obtain a where a: "parseAction u fa = Inr a"
      and m: "CheckMarkerSlots (a_Marker a) ck valued p = None"
      and r: "parse_asks u p ck valued fas
        (rule\<lparr>r_Actions := r_Actions rule @ [\<lparr>ask_Action = a, ask_Cookie = ck\<rparr>]\<rparr>) = Inr r"
      by auto
    from Cons.IH [OF r] obtain ks ws where
      "r = rule\<lparr>r_Actions := r_Actions rule @ \<lparr>ask_Action = a, ask_Cookie = ck\<rparr> # ks,
               r_Writes := r_Writes rule @ ws\<rparr>"
      "\<forall>k \<in> set ks. wf_ask p ck valued k" "\<forall>w \<in> set ws. valid_write p w"
      by auto
    with parseAction_valid_aux [OF a] m show ?thesis
      by (intro exI [of _ "\<lparr>ask_Action = a, ask_Cookie = ck\<rparr> # ks"] exI [of _ ws])
        (simp add: wf_ask_def)
  qed
qed

lemma rule_valued_cong:
  "rule_valued (r\<lparr>r_Actions := ks, r_Writes := ws\<rparr>) = rule_valued r"
  by (simp add: rule_valued_def)

lemma wf_plain_rule_asks:
  "wf_plain_rule p (r\<lparr>r_Actions := ks, r_Writes := ws\<rparr>) = wf_plain_rule p r"
  by (simp add: wf_plain_rule_def wf_names_def wf_tags_def wf_listed_def wf_on_def)

lemma parseOverloadRule_wf:
  assumes "parseOverloadRule u fr (rule_start i fr) p = Inr r"
  shows "wf_rule p r"
proof -
  from assms have "overload_Check (fu_At fr) = None" "fu_Actions fr \<noteq> []"
    and r: "parse_asks u p [] False (fu_Actions fr)
      ((rule_start i fr)\<lparr>r_Overload := True, r_At := At (fu_At fr)\<rparr>) = Inr r"
    by (auto simp: parseOverloadRule_def split: if_splits)
  then show ?thesis
    using parse_asks_Inr [OF r] overload_Check_At [of "fu_At fr"]
    by (auto simp: wf_rule_def wf_overload_rule_def rule_start_def)
qed

lemma parseRule_wf:
  assumes "parseRule u i fr p = Inr r"
  shows "wf_rule p r"
proof (cases "TrimSpace (fu_On fr) = overload_On")
  case True
  with assms parseOverloadRule_wf show ?thesis by (auto simp: parseRule_def Let_def)
next
  case False
  with assms obtain m r0 where
    r0: "parseRuleCookie fr ((rule_start i fr)\<lparr>r_Match := m\<rparr>) p = Inr r0"
    and does: "fu_Actions fr \<noteq> [] \<or> r_Issue r0 \<noteq> [] \<or> r_Drop r0 \<noteq> []"
    and r: "parse_asks u p (r_Cookie r0) (rule_valued r0) (fu_Actions fr) r0 = Inr r"
    by (auto simp: parseRule_def Let_def)
  note w0 = parseRuleCookie_Inr [OF r0]
  from parse_asks_Inr [OF r] obtain ks ws where
    r': "r = r0\<lparr>r_Actions := r_Actions r0 @ ks, r_Writes := r_Writes r0 @ ws\<rparr>"
    and ks: "\<forall>k \<in> set ks. wf_ask p (r_Cookie r0) (rule_valued r0) k"
      "\<forall>w \<in> set ws. valid_write p w" "fu_Actions fr \<noteq> [] \<longrightarrow> ks \<noteq> [] \<or> ws \<noteq> []"
    by blast
  from w0(2-4) have "\<not> r_Overload r0" "r_Actions r0 = []" "r_Writes r0 = []"
    by (simp_all add: rule_start_def)
  with ks does w0(1) show ?thesis
    by (auto simp: wf_rule_def r' wf_plain_rule_asks rule_valued_cong)
qed

lemma parse_cookies_wf:
  assumes "parse_cookies u fcs p = Inr q"
    and "distinct (map c_Name (p_Cookies p))" and "\<forall>c \<in> set (p_Cookies p). wf_cookie u c"
  shows "distinct (map c_Name (p_Cookies q)) \<and> (\<forall>c \<in> set (p_Cookies q). wf_cookie u c) \<and>
    p_Mode q = p_Mode p \<and> p_Rules q = p_Rules p \<and> p_Name q = p_Name p"
  using assms
proof (induction fcs arbitrary: p)
  case (Cons fc fcs)
  then obtain c where c: "parseCookie u fc = Inr c" "profile_Cookie p (c_Name c) = None"
    and q: "parse_cookies u fcs (p\<lparr>p_Cookies := p_Cookies p @ [c]\<rparr>) = Inr q"
    by auto
  from c(2) have "c_Name c \<notin> c_Name ` set (p_Cookies p)"
    by (auto simp: profile_Cookie_def find_None_iff)
  with Cons.IH [OF q] Cons.prems(2,3) parseCookie_wf_aux [OF c(1)] show ?case by simp
qed simp

lemma parse_rules_wf:
  assumes "parse_rules u i frs p = Inr q" and "\<forall>r \<in> set (p_Rules p). wf_rule p r"
  shows "(\<forall>r \<in> set (p_Rules q). wf_rule q r) \<and> p_Cookies q = p_Cookies p \<and> p_Mode q = p_Mode p \<and>
    p_Name q = p_Name p \<and> length (p_Rules q) = length (p_Rules p) + length frs"
  using assms
proof (induction frs arbitrary: i p)
  case (Cons fr frs)
  then obtain r where r: "parseRule u i fr p = Inr r"
    and q: "parse_rules u (Suc i) frs (p\<lparr>p_Rules := p_Rules p @ [r]\<rparr>) = Inr q"
    by auto
  have "wf_rule (p\<lparr>p_Rules := p_Rules p @ [r]\<rparr>) x = wf_rule p x" for x
    by (rule wf_rule_cong) simp
  with Cons.IH [OF q] Cons.prems(2) parseRule_wf [OF r] show ?case by simp
qed simp

lemma policy_Parse_wf_aux:
  assumes "policy_Parse u unmarshal name raw = Inr p"
  shows "wf_profile u p" and "p_Name p = name"
proof -
  from assms obtain f q where m: "profile_mode f = ModeEnforce \<or> profile_mode f = ModeOff"
    and q: "parse_cookies u (fp_Cookies f)
      \<lparr>p_Name = name, p_Mode = profile_mode f, p_Cookies = [], p_Rules = []\<rparr> = Inr q"
    and p: "parse_rules u 0 (fp_Rules f) q = Inr p"
    by (simp add: policy_Parse_def Let_def) metis
  from parse_cookies_wf [OF q] have c: "distinct (map c_Name (p_Cookies q))"
    "\<forall>c \<in> set (p_Cookies q). wf_cookie u c" "p_Mode q = profile_mode f" "p_Rules q = []" "p_Name q = name"
    by simp_all
  from parse_rules_wf [OF p] c m show "wf_profile u p" "p_Name p = name"
    by (simp_all add: wf_profile_def)
qed

subsection \<open>Refused documents\<close>

lemma parseRule_if_unless:
  assumes "TrimSpace (fu_If fr) \<noteq> [] \<or> TrimSpace (fu_Unless fr) \<noteq> []"
  shows "\<exists>e. parseRule u i fr p = Inl e"
proof -
  from assms have "overload_extras fr" by (auto simp: overload_extras_def)
  with assms show ?thesis
    by (auto simp: parseRule_def parseOverloadRule_def Let_def split: option.splits)
qed

lemma parse_rules_refuses:
  assumes "fr \<in> set frs" and "\<And>i p. \<exists>e. parseRule u i fr p = Inl e"
  shows "\<exists>e. parse_rules u i frs p = Inl e"
  using assms(1)
proof (induction frs arbitrary: i p)
  case (Cons x frs)
  then show ?case
  proof (cases "x = fr")
    case True
    with assms(2) [of i p] show ?thesis by auto
  next
    case False
    with Cons show ?thesis by (auto split: sum.splits)
  qed
qed simp

subsection \<open>Properties\<close>

text \<open>
  C19.  Every profile the parser accepts is well formed: a known mode, cookie names declared once
  with well-formed declarations, and rules that name declared cookies only, issue or drop but not
  both, wait only for states their cookie can have, carry valid actions and writes and markers
  whose slots can be filled.
\<close>

theorem policy_Parse_wf:
  assumes "policy_Parse u unmarshal name raw = Inr p"
  shows "wf_profile u p \<and> p_Name p = name"
  using policy_Parse_wf_aux [OF assms] by simp

text \<open>
  Every action the parser accepts is valid: a known verb on an axis of that verb, addressed
  to an inspector unless it writes the record, numbers in their ranges and only on the verbs that
  take them, a marker only (and always) on \<open>mark\<close>, a time to live and a \<open>when\<close> only on an archive
  that is switched on.
\<close>

theorem parseAction_valid:
  assumes "parseAction u fa = Inr a"
  shows "valid_target a \<and> valid_numbers a \<and> valid_names a \<and> valid_record a"
  using parseAction_valid_aux [OF assms] by (simp add: valid_action_def)

text \<open>
  A document that carries conditions, or a rule with \<open>if\<close> or \<open>unless\<close>, never loads: its rules
  are not quietly widened.
\<close>

theorem conditions_refused:
  assumes "unmarshal raw = Some f"
    and "fp_Conditions f \<noteq> [] \<or>
      (\<exists>fr \<in> set (fp_Rules f). TrimSpace (fu_If fr) \<noteq> [] \<or> TrimSpace (fu_Unless fr) \<noteq> [])"
  shows "\<exists>e. policy_Parse u unmarshal name raw = Inl e"
proof (cases "fp_Conditions f = []")
  case False
  with assms(1) show ?thesis by (auto simp: policy_Parse_def Let_def)
next
  case True
  with assms(2) obtain fr where "fr \<in> set (fp_Rules f)"
    "TrimSpace (fu_If fr) \<noteq> [] \<or> TrimSpace (fu_Unless fr) \<noteq> []" by blast
  then have "\<exists>e. parse_rules u 0 (fp_Rules f) p = Inl e" for p
    using parse_rules_refuses parseRule_if_unless by metis
  with assms(1) show ?thesis
    by (auto simp: policy_Parse_def Let_def split: sum.splits)
qed

lemma hasTag_wf: "wf_rule p r \<Longrightarrow> \<not> r_Overload r \<Longrightarrow> hasTag r v \<longleftrightarrow> v \<in> set (r_Tags r)"
  by (auto simp: wf_rule_def wf_plain_rule_def wf_tags_def hasTag_def hasString_def list_ex_iff
      split: option.splits)

text \<open>
  What a parsed profile collects is well formed whatever the request is: the cookies to issue
  and to drop are declared in the profile, every action is valid and its marker's slots were
  checked, every write is valid; the names to drop are exactly those the fired rules drop.
\<close>

theorem collected_wf:
  assumes "policy_Parse u unmarshal name raw = Inr p"
  shows "set (out_Issue (profile_Collect u p t)) \<union> set (out_Drop (profile_Collect u p t))
           \<subseteq> set (p_Cookies p) \<and>
         (\<forall>k \<in> set (out_Actions (profile_Collect u p t)). valid_action (ask_Action k)) \<and>
         (\<forall>w \<in> set (out_Writes (profile_Collect u p t)). valid_write p w) \<and>
         c_Name ` set (out_Drop (profile_Collect u p t)) = r_Drop ` fired_rules u p t - {[]}"
proof -
  let ?f = "filter (selected u t) (p_Rules p)"
  from assms have wf: "\<forall>r \<in> set (p_Rules p). wf_rule p r"
    using policy_Parse_wf_aux(1) by (simp add: wf_profile_def)
  have named: "set (named_cookies p ns) \<subseteq> set (p_Cookies p)" for ns
    by (auto simp: named_cookies_def dest: profile_Cookie_in)
  have "\<forall>r \<in> set ?f. r_Drop r = [] \<or> profile_Cookie p (r_Drop r) \<noteq> None"
    using wf by (fastforce simp: wf_rule_def wf_overload_rule_def wf_plain_rule_def wf_names_def
        split: if_splits)
  then have "c_Name ` set (named_cookies p (map r_Drop ?f)) = r_Drop ` fired_rules u p t - {[]}"
    unfolding name_set_named by (auto simp: fired_rules_def)
  moreover from wf have "\<forall>k \<in> set (concat (map r_Actions ?f)). valid_action (ask_Action k)"
    "\<forall>w \<in> set (concat (map r_Writes ?f)). valid_write p w"
    by (auto simp: wf_rule_def wf_ask_def)
  ultimately show ?thesis
    using named [of "map r_Issue ?f"] named [of "map r_Drop ?f"]
    by (auto simp: collect_refines collect_spec_def Let_def)
qed

subsection \<open>Witnesses\<close>

definition mark_action :: file_action where
  "mark_action =
     \<lparr>fa_To = [], fa_Do = ''mark'', fa_Apply = [], fa_Phase = [], fa_Code = [], fa_Delta = None,
      fa_Value = None, fa_Counter = [], fa_Group = [], fa_Set = [], fa_Marker = ''client_{value}'',
      fa_TTL = [], fa_When = [], fa_Headers = None, fa_Args = None, fa_Body = None, fa_List = [],
      fa_Write = [], fa_Op = [], fa_Cookie = []\<rparr>"

definition number_rule :: "string \<Rightarrow> file_rule" where
  "number_rule cond =
     \<lparr>fu_Name = ''number'',
      fu_Match = \<lparr>fm_PathPrefix = ''/'', fm_Suffixes = [], fm_Static = False, fm_Methods = []\<rparr>,
      fu_Phase = [], fu_Status = [], fu_On = ''absent'', fu_Cookie = [], fu_Tags = [],
      fu_NotTags = [], fu_Listed = None, fu_At = None, fu_Issue = ''uid'', fu_Drop = [],
      fu_If = cond, fu_Unless = [], fu_Actions = [mark_action]\<rparr>"

definition number_file :: "string \<Rightarrow> file_profile" where
  "number_file cond = \<lparr>fp_Mode = [], fp_Conditions = [], fp_Cookies = [demo_file_cookie],
     fp_Rules = [number_rule cond]\<rparr>"

definition marked :: action where
  "marked =
     \<lparr>a_To = [], a_Do = DoMark, a_Apply = ApplyRequest, a_Phase = [], a_Code = [], a_Delta = None,
      a_Value = None, a_Counter = [], a_Marker = ''client_{value}'', a_Group = [], a_Set = [],
      a_TTL = None, a_When = [], a_Headers = None, a_Args = None, a_Body = None\<rparr>"

definition number_profile :: profile where
  "number_profile =
     \<lparr>p_Name = ''shop'', p_Mode = ModeEnforce, p_Cookies = [uid_cookie],
      p_Rules = [(plain_rule ''number'' ''/'' ''uid'' [])
        \<lparr>r_On := StateAbsent, r_Actions := [\<lparr>ask_Action = marked, ask_Cookie = ''uid''\<rparr>]\<rparr>]\<rparr>"

lemma mark_parses: "parseAction u mark_action = Inr marked"
  by (simp add: parseAction_def mark_action_def marked_def action_ttl_def CheckArchiveWhen_def
      action_apply_def action_fields_def TrimSpace_all_solid solid_def verbs_def checkPhaseAsk_def
      check_delta_def check_value_def check_mutate_def check_mark_def check_audit_def no_objects_def
      CheckMarker_def MarkerMax_def control_def Let_def)

lemma number_rule_parses:
  "parseRule u 0 (number_rule []) \<lparr>p_Name = ''shop'', p_Mode = ModeEnforce,
      p_Cookies = [uid_cookie], p_Rules = []\<rparr> = Inr (p_Rules number_profile ! 0)"
proof -
  have "CheckMarkerSlots ''client_{value}'' ''uid'' True p = None" for p
    by (simp add: CheckMarkerSlots_pieces pieces_def slot_ok_def ownSlot_def)
  moreover have "fa_List mark_action = []" "a_Marker marked = ''client_{value}''"
    by (simp_all add: mark_action_def marked_def)
  moreover have "profile_Cookie \<lparr>p_Name = n, p_Mode = m, p_Cookies = [uid_cookie], p_Rules = rs\<rparr>
      ''uid'' = Some uid_cookie" for n m rs
    by (simp add: profile_Cookie_def uid_cookie_def)
  ultimately show ?thesis
    by (simp add: parseRule_def number_rule_def rule_start_def TrimSpace_all_solid solid_def
        parseRuleCookie_def rule_scope_def rule_names_def rule_tags_def parseListed_def check_on_def
        States_def rule_valued_def mark_parses number_profile_def plain_rule_def Let_def)
qed

lemma number_parses:
  "policy_Parse ascii_only (\<lambda>_. Some (number_file [])) ''shop'' raw = Inr number_profile"
  using number_rule_parses [of ascii_only]
  by (simp add: policy_Parse_def profile_mode_def number_file_def demo_parse profile_Cookie_def
      number_profile_def)

theorem policy_Parse_wf_witness: "wf_profile ascii_only number_profile"
  using policy_Parse_wf [OF number_parses [of "[]"]] by simp

theorem parseAction_valid_witness: "valid_names marked \<and> a_Marker marked \<noteq> []"
  using parseAction_valid [OF mark_parses [of ascii_only]] by (simp add: marked_def)

theorem conditions_refused_witness:
  "\<exists>e. policy_Parse ascii_only (\<lambda>_. Some (number_file ''device'')) ''shop'' [] = Inl e"
  by (rule conditions_refused [where f = "number_file ''device''"])
    (simp_all add: number_file_def number_rule_def TrimSpace_all_solid solid_def)

theorem collected_wf_witness:
  "set (out_Issue (profile_Collect ascii_only number_profile logout_target)) \<subseteq> {uid_cookie}"
proof -
  have "p_Cookies number_profile = [uid_cookie]" by (simp add: number_profile_def)
  then show ?thesis
    using collected_wf [OF number_parses [of "[]"], of logout_target] by simp
qed

end
