(* ===== verification/ProfileStore.thy ===== *)
theory ProfileStore
  imports PolicyParse "HOL-Library.AList" "HOL-Library.List_Lexorder" "HOL-Library.Char_ord"
begin

text \<open>
  Loading profiles from a directory and the store that serves them (\<^verbatim>\<open>LoadDir\<close> and
  \<^verbatim>\<open>profileName\<close> of \<^verbatim>\<open>internal/policy/policy.go\<close>, the static lists of
  \<^verbatim>\<open>listed.go\<close>, \<^verbatim>\<open>store.go\<close>).  The file system is an argument (record \<open>filesys\<close>);
  a path is the list of the components that \<open>filepath.Join\<close> puts together.  The store is shared by
  the goroutine that watches the directory and by the one that applies new generations; their
  interleavings are the relation \<open>sys_step\<close>, where the file system may change between steps.
\<close>

subsection \<open>Files\<close>

type_synonym path = "string list"

record dir_entry =
  de_Name :: string
  de_IsDir :: bool

record filesys =
  fs_ReadDir :: "path \<Rightarrow> dir_entry list option"
  fs_ReadFile :: "path \<Rightarrow> string option"
  fs_Stat :: "path \<Rightarrow> (int \<times> int) option"

abbreviation ListsDir :: string where "ListsDir \<equiv> ''.lists''"

text \<open>A map from names to profiles, in a list so that it can be enumerated.\<close>

type_synonym snapshot = "(string \<times> profile) list"

definition profileName :: "unicode \<Rightarrow> dir_entry \<Rightarrow> string option" where
  "profileName u e =
     (if de_IsDir e \<or> HasPrefix (de_Name e) ''.'' \<or> HasPrefix (de_Name e) ''_'' then None
      else (let (name, found) =
                  (case CutSuffix (de_Name e) ''.yaml'' of
                     (n, True) \<Rightarrow> (n, True)
                   | (n, False) \<Rightarrow> CutSuffix (de_Name e) ''.yml'')
            in if \<not> found \<or> name = [] then None else Some (ToLower u name)))"

definition Names :: "snapshot \<Rightarrow> string list" where
  "Names m = sort (map fst m)"

subsection \<open>Static lists\<close>

datatype load_err = ReadFailed path | BadProfile profile_err | ListMissing string | ListTooLong string

definition scan_max :: nat where "scan_max = 1024 * 1024"

text \<open>
  \<open>readList\<close>: the trimmed lines of a file.  A line that does not fit the buffer of the scanner
  together with its end is an error.
\<close>

definition list_values :: "string \<Rightarrow> string set" where
  "list_values raw = set (filter (\<lambda>v. v \<noteq> []) (map TrimSpace (Split raw (CHR 0x0A))))"

definition readList :: "filesys \<Rightarrow> path \<Rightarrow> string \<Rightarrow> load_err + string set" where
  "readList fs path name =
     (case fs_ReadFile fs path of
        None \<Rightarrow> Inl (ListMissing name)
      | Some raw \<Rightarrow>
          if list_ex (\<lambda>line. length line \<ge> scan_max) (Split raw (CHR 0x0A))
          then Inl (ListTooLong name) else Inr (list_values raw))"

definition list_path :: "path \<Rightarrow> string \<Rightarrow> path" where
  "list_path dir l = dir @ [ListsDir, l @ ''.txt'']"

type_synonym set_cache = "string \<rightharpoonup> string set"

text \<open>The inner loop of \<open>loadStatic\<close> over the rules of a profile, with the lists read so far.\<close>

fun static_rules ::
  "filesys \<Rightarrow> path \<Rightarrow> rule list \<Rightarrow> set_cache \<Rightarrow> load_err + (rule list \<times> set_cache)" where
  "static_rules fs dir [] sets = Inr ([], sets)"
| "static_rules fs dir (r # rs) sets =
     (case r_Listed r of
        None \<Rightarrow> (case static_rules fs dir rs sets of
                  Inl e \<Rightarrow> Inl e | Inr (rs', sets') \<Rightarrow> Inr (r # rs', sets'))
      | Some l \<Rightarrow>
          if \<not> lc_Static l then
            (case static_rules fs dir rs sets of
               Inl e \<Rightarrow> Inl e | Inr (rs', sets') \<Rightarrow> Inr (r # rs', sets'))
          else
            (case (case sets (lc_List l) of
                     Some s \<Rightarrow> Inr s
                   | None \<Rightarrow> readList fs (list_path dir (lc_List l)) (lc_List l)) of
               Inl e \<Rightarrow> Inl e
             | Inr s \<Rightarrow>
                 (case static_rules fs dir rs (sets(lc_List l \<mapsto> s)) of
                    Inl e \<Rightarrow> Inl e
                  | Inr (rs', sets') \<Rightarrow>
                      Inr (r\<lparr>r_Listed := Some (l\<lparr>lc_set := s\<rparr>)\<rparr> # rs', sets'))))"

text \<open>The outer loop, over the names in their order.\<close>

fun static_profiles ::
  "filesys \<Rightarrow> path \<Rightarrow> string list \<Rightarrow> snapshot \<Rightarrow> set_cache \<Rightarrow> load_err + snapshot" where
  "static_profiles fs dir [] m sets = Inr m"
| "static_profiles fs dir (n # ns) m sets =
     (case map_of m n of
        None \<Rightarrow> static_profiles fs dir ns m sets
      | Some p \<Rightarrow>
          (case static_rules fs dir (p_Rules p) sets of
             Inl e \<Rightarrow> Inl e
           | Inr (rs, sets') \<Rightarrow>
               static_profiles fs dir ns (AList.update n (p\<lparr>p_Rules := rs\<rparr>) m) sets'))"

definition loadStatic :: "filesys \<Rightarrow> path \<Rightarrow> snapshot \<Rightarrow> load_err + snapshot" where
  "loadStatic fs dir m = static_profiles fs dir (Names m) m Map.empty"

type_synonym yaml = "string \<Rightarrow> file_profile option"

fun load_entries ::
  "unicode \<Rightarrow> yaml \<Rightarrow> filesys \<Rightarrow> path \<Rightarrow> dir_entry list \<Rightarrow> snapshot \<Rightarrow> load_err + snapshot" where
  "load_entries u y fs dir [] out = Inr out"
| "load_entries u y fs dir (e # es) out =
     (case profileName u e of
        None \<Rightarrow> load_entries u y fs dir es out
      | Some name \<Rightarrow>
          (case fs_ReadFile fs (dir @ [de_Name e]) of
             None \<Rightarrow> Inl (ReadFailed (dir @ [de_Name e]))
           | Some raw \<Rightarrow>
               (case policy_Parse u y name raw of
                  Inl err \<Rightarrow> Inl (BadProfile err)
                | Inr p \<Rightarrow> load_entries u y fs dir es (AList.update name p out))))"

definition LoadDir :: "unicode \<Rightarrow> yaml \<Rightarrow> filesys \<Rightarrow> path \<Rightarrow> load_err + snapshot" where
  "LoadDir u y fs dir =
     (case fs_ReadDir fs dir of
        None \<Rightarrow> Inl (ReadFailed dir)
      | Some entries \<Rightarrow>
          (case load_entries u y fs dir entries [] of
             Inl e \<Rightarrow> Inl e
           | Inr out \<Rightarrow> loadStatic fs dir out))"

subsection \<open>The store\<close>

definition fingerprint_names :: "unicode \<Rightarrow> filesys \<Rightarrow> path \<Rightarrow> dir_entry list \<Rightarrow> path list" where
  "fingerprint_names u fs dir entries =
     map (\<lambda>e. [de_Name e]) (filter (\<lambda>e. profileName u e \<noteq> None) entries) @
     (case fs_ReadDir fs (dir @ [ListsDir]) of
        None \<Rightarrow> []
      | Some es \<Rightarrow> map (\<lambda>e. [ListsDir, de_Name e]) (filter (\<lambda>e. \<not> de_IsDir e) es))"

definition path_text :: "path \<Rightarrow> string" where
  "path_text p = concat (case p of [] \<Rightarrow> [] | x # xs \<Rightarrow> x # map (\<lambda>c. ''/'' @ c) xs)"

definition nul :: string where "nul = [CHR 0x00]"

definition print_line :: "filesys \<Rightarrow> path \<Rightarrow> path \<Rightarrow> unit + string" where
  "print_line fs dir name =
     (case fs_Stat fs (dir @ name) of
        None \<Rightarrow> Inl ()
      | Some (sz, mtime) \<Rightarrow>
          Inr (path_text name @ nul @ FormatInt sz 10 @ nul @ FormatInt mtime 10 @ nul))"

definition fingerprint :: "unicode \<Rightarrow> filesys \<Rightarrow> path \<Rightarrow> string option" where
  "fingerprint u fs dir =
     (case fs_ReadDir fs dir of
        None \<Rightarrow> None
      | Some entries \<Rightarrow>
          (case mapE (print_line fs dir)
                  (sort_key path_text (fingerprint_names u fs dir entries)) of
             Inl _ \<Rightarrow> None
           | Inr ls \<Rightarrow> Some (hex_encode (sha256 (concat ls)))))"

definition print_or_empty :: "unicode \<Rightarrow> filesys \<Rightarrow> path \<Rightarrow> string" where
  "print_or_empty u fs dir = (case fingerprint u fs dir of None \<Rightarrow> [] | Some s \<Rightarrow> s)"

text \<open>
  \<open>st_loads\<close> is \<open>None\<close> until a callback is registered, then the snapshots it was called with.
\<close>

record store_state =
  st_dir :: path
  st_print :: string
  st_current :: snapshot
  st_loads :: "snapshot list option"

definition NewStore :: "unicode \<Rightarrow> yaml \<Rightarrow> filesys \<Rightarrow> path \<Rightarrow> load_err + store_state" where
  "NewStore u y fs dir =
     (case LoadDir u y fs dir of
        Inl e \<Rightarrow> Inl e
      | Inr m \<Rightarrow> Inr \<lparr>st_dir = dir, st_print = print_or_empty u fs dir, st_current = m,
                      st_loads = None\<rparr>)"

definition OnLoad :: "store_state \<Rightarrow> store_state" where
  "OnLoad s = s\<lparr>st_loads := Some [st_current s]\<rparr>"

definition store_swap :: "snapshot \<Rightarrow> store_state \<Rightarrow> store_state" where
  "store_swap m s =
     s\<lparr>st_current := m,
       st_loads := (case st_loads s of None \<Rightarrow> None | Some ls \<Rightarrow> Some (ls @ [m]))\<rparr>"

definition setPrint :: "path \<Rightarrow> string \<Rightarrow> store_state \<Rightarrow> store_state" where
  "setPrint dir prt s = (if st_dir s = dir then s\<lparr>st_print := prt\<rparr> else s)"

definition ReloadFrom ::
  "unicode \<Rightarrow> yaml \<Rightarrow> filesys \<Rightarrow> path \<Rightarrow> store_state \<Rightarrow> (load_err + unit) \<times> store_state" where
  "ReloadFrom u y fs dir s =
     (case LoadDir u y fs dir of
        Inl e \<Rightarrow> (Inl e, s)
      | Inr m \<Rightarrow>
          (Inr (), store_swap m (s\<lparr>st_dir := dir, st_print := print_or_empty u fs dir\<rparr>)))"

text \<open>One turn of \<open>Watch\<close> that nothing interrupts.\<close>

definition watch_tick :: "unicode \<Rightarrow> yaml \<Rightarrow> filesys \<Rightarrow> store_state \<Rightarrow> store_state" where
  "watch_tick u y fs s =
     (let dir = st_dir s
      in case fingerprint u fs dir of
           None \<Rightarrow> s
         | Some prt \<Rightarrow>
             if prt = st_print s then s
             else case LoadDir u y fs dir of
               Inl e \<Rightarrow> setPrint dir prt s
             | Inr m \<Rightarrow> store_swap m (setPrint dir prt s))"

fun snapshot_datasets :: "snapshot \<Rightarrow> string list \<Rightarrow> string list \<Rightarrow> string list" where
  "snapshot_datasets m [] out = out"
| "snapshot_datasets m (n # ns) out =
     snapshot_datasets m ns
       (case map_of m n of
          None \<Rightarrow> out
        | Some p \<Rightarrow> foldl (\<lambda>acc ds. if ds \<in> set acc then acc else acc @ [ds]) out (profile_Datasets p))"

definition snapshot_Datasets :: "snapshot \<Rightarrow> string list" where
  "snapshot_Datasets m = snapshot_datasets m (Names m) []"

subsection \<open>Interleavings\<close>

text \<open>
  The goroutine of \<open>Watch\<close> and the one that calls \<open>ReloadFrom\<close>, cut at every access to the shared
  store.  Each step reads the file system as it is then.
\<close>

datatype watcher =
  WIdle | WDir path | WPrint path string | WLoad path string | WFailed path string
| WLoaded path string snapshot | WSwap snapshot

datatype applier = AIdle | ALoaded path snapshot | APrint path string snapshot | ASwap snapshot

record sys =
  sys_store :: store_state
  sys_w :: watcher
  sys_a :: applier

inductive sys_step :: "unicode \<Rightarrow> yaml \<Rightarrow> sys \<Rightarrow> sys \<Rightarrow> bool" for u y where
  w_dir: "sys_w s = WIdle \<Longrightarrow> sys_step u y s (s\<lparr>sys_w := WDir (st_dir (sys_store s))\<rparr>)"
| w_no_print: "sys_w s = WDir d \<Longrightarrow> fingerprint u fs d = None \<Longrightarrow> sys_step u y s (s\<lparr>sys_w := WIdle\<rparr>)"
| w_print: "sys_w s = WDir d \<Longrightarrow> fingerprint u fs d = Some prt \<Longrightarrow>
    sys_step u y s (s\<lparr>sys_w := WPrint d prt\<rparr>)"
| w_compare: "sys_w s = WPrint d prt \<Longrightarrow>
    sys_step u y s (s\<lparr>sys_w :=
      if prt = st_print (sys_store s) \<and> d = st_dir (sys_store s) then WIdle else WLoad d prt\<rparr>)"
| w_fail: "sys_w s = WLoad d prt \<Longrightarrow> LoadDir u y fs d = Inl e \<Longrightarrow>
    sys_step u y s (s\<lparr>sys_w := WFailed d prt\<rparr>)"
| w_keep: "sys_w s = WFailed d prt \<Longrightarrow>
    sys_step u y s (s\<lparr>sys_w := WIdle, sys_store := setPrint d prt (sys_store s)\<rparr>)"
| w_load: "sys_w s = WLoad d prt \<Longrightarrow> LoadDir u y fs d = Inr m \<Longrightarrow>
    sys_step u y s (s\<lparr>sys_w := WLoaded d prt m\<rparr>)"
| w_set: "sys_w s = WLoaded d prt m \<Longrightarrow>
    sys_step u y s (s\<lparr>sys_w := WSwap m, sys_store := setPrint d prt (sys_store s)\<rparr>)"
| w_swap: "sys_w s = WSwap m \<Longrightarrow>
    sys_step u y s (s\<lparr>sys_w := WIdle, sys_store := store_swap m (sys_store s)\<rparr>)"
| a_load: "sys_a s = AIdle \<Longrightarrow> LoadDir u y fs d = Inr m \<Longrightarrow>
    sys_step u y s (s\<lparr>sys_a := ALoaded d m\<rparr>)"
| a_print: "sys_a s = ALoaded d m \<Longrightarrow>
    sys_step u y s (s\<lparr>sys_a := APrint d (print_or_empty u fs d) m\<rparr>)"
| a_set: "sys_a s = APrint d prt m \<Longrightarrow>
    sys_step u y s (s\<lparr>sys_a := ASwap m, sys_store := (sys_store s)\<lparr>st_dir := d, st_print := prt\<rparr>\<rparr>)"
| a_swap: "sys_a s = ASwap m \<Longrightarrow>
    sys_step u y s (s\<lparr>sys_a := AIdle, sys_store := store_swap m (sys_store s)\<rparr>)"

inductive sys_reach :: "unicode \<Rightarrow> yaml \<Rightarrow> sys \<Rightarrow> sys \<Rightarrow> bool" for u y s0 where
  here: "sys_reach u y s0 s0"
| step: "sys_reach u y s0 s \<Longrightarrow> sys_step u y s s' \<Longrightarrow> sys_reach u y s0 s'"

lemmas sys_go = sys_reach.step sys_reach.here

subsection \<open>Loading keeps profiles well formed\<close>

text \<open>
  What loading promises of a profile: it is well formed, carries its own name, and its static
  checks hold the values of the list files.
\<close>

definition wf_snapshot :: "unicode \<Rightarrow> snapshot \<Rightarrow> bool" where
  "wf_snapshot u m \<longleftrightarrow>
     distinct (map fst m) \<and> (\<forall>n p. map_of m n = Some p \<longrightarrow> wf_profile u p \<and> p_Name p = n)"

definition static_from :: "filesys \<Rightarrow> path \<Rightarrow> rule \<Rightarrow> bool" where
  "static_from fs dir r \<longleftrightarrow>
     (\<forall>l. r_Listed r = Some l \<and> lc_Static l \<longrightarrow>
        (\<exists>raw. fs_ReadFile fs (list_path dir (lc_List l)) = Some raw \<and> lc_set l = list_values raw))"

text \<open>Two rules that differ in the contents of a static list only.\<close>

definition same_rule :: "rule \<Rightarrow> rule \<Rightarrow> bool" where
  "same_rule r r' \<longleftrightarrow>
     (\<exists>lo. r' = r\<lparr>r_Listed := lo\<rparr> \<and>
        (lo = r_Listed r \<or> (\<exists>l s. r_Listed r = Some l \<and> lo = Some (l\<lparr>lc_set := s\<rparr>))))"

definition cache_from :: "filesys \<Rightarrow> path \<Rightarrow> set_cache \<Rightarrow> bool" where
  "cache_from fs dir sets \<longleftrightarrow>
     (\<forall>n s. sets n = Some s \<longrightarrow>
        (\<exists>raw. fs_ReadFile fs (list_path dir n) = Some raw \<and> s = list_values raw))"

lemma same_rule_refl [simp]: "same_rule r r"
  by (auto simp: same_rule_def intro!: exI [of _ "r_Listed r"])

lemma same_rule_wf:
  assumes "same_rule r r'" and "wf_rule p r"
  shows "wf_rule p r'"
proof -
  from assms(1) obtain lo where r': "r' = r\<lparr>r_Listed := lo\<rparr>"
    and lo: "lo = r_Listed r \<or> (\<exists>l s. r_Listed r = Some l \<and> lo = Some (l\<lparr>lc_set := s\<rparr>))"
    by (auto simp: same_rule_def)
  from lo have "wf_listed r \<Longrightarrow> wf_listed r'" "r_Listed r = None \<Longrightarrow> lo = None"
    by (auto simp: wf_listed_def r')
  moreover have "wf_names p r' = wf_names p r" "wf_tags r' = wf_tags r" "wf_on p r' = wf_on p r"
    "rule_valued r' = rule_valued r"
    by (simp_all add: r' wf_names_def wf_tags_def wf_on_def rule_valued_def)
  ultimately have "wf_plain_rule p r \<Longrightarrow> wf_plain_rule p r'"
    "wf_overload_rule r \<Longrightarrow> wf_overload_rule r'"
    by (simp_all add: wf_plain_rule_def wf_overload_rule_def r')
  with assms(2) \<open>rule_valued r' = rule_valued r\<close> show ?thesis
    by (simp add: wf_rule_def r' split: if_splits)
qed

lemma readList_Inr:
  "readList fs path n = Inr s \<Longrightarrow> \<exists>raw. fs_ReadFile fs path = Some raw \<and> s = list_values raw"
  by (auto simp: readList_def split: if_splits)

lemma static_rules_Inr:
  assumes "static_rules fs dir rs sets = Inr (rs', sets')" and "cache_from fs dir sets"
  shows "list_all2 same_rule rs rs' \<and> (\<forall>r \<in> set rs'. static_from fs dir r) \<and> cache_from fs dir sets'"
  using assms
proof (induction rs arbitrary: sets rs' sets')
  case (Cons r rs)
  show ?case
  proof (cases "\<exists>l. r_Listed r = Some l \<and> lc_Static l")
    case False
    with Cons.prems obtain rs1 where "static_rules fs dir rs sets = Inr (rs1, sets')" "rs' = r # rs1"
      by (auto split: option.splits if_splits)
    with Cons.IH [of sets rs1 sets'] Cons.prems False show ?thesis
      by (auto simp: static_from_def)
  next
    case True
    then obtain l where l: "r_Listed r = Some l" "lc_Static l" by blast
    with Cons.prems obtain s rs1 where
      s: "(case sets (lc_List l) of Some s \<Rightarrow> Inr s
           | None \<Rightarrow> readList fs (list_path dir (lc_List l)) (lc_List l)) = Inr s"
      and rs1: "static_rules fs dir rs (sets(lc_List l \<mapsto> s)) = Inr (rs1, sets')"
      and rs': "rs' = r\<lparr>r_Listed := Some (l\<lparr>lc_set := s\<rparr>)\<rparr> # rs1"
      by auto
    from s Cons.prems(2) have raw: "\<exists>raw. fs_ReadFile fs (list_path dir (lc_List l)) = Some raw \<and>
        s = list_values raw"
      by (auto simp: cache_from_def split: option.splits dest: readList_Inr)
    with Cons.prems(2) have "cache_from fs dir (sets(lc_List l \<mapsto> s))"
      by (simp add: cache_from_def)
    from Cons.IH [OF rs1 this] raw l rs' show ?thesis
      by (auto simp: same_rule_def static_from_def)
  qed
qed simp

definition static_done :: "filesys \<Rightarrow> path \<Rightarrow> snapshot \<Rightarrow> string \<Rightarrow> bool" where
  "static_done fs dir m n \<longleftrightarrow>
     (\<forall>p. map_of m n = Some p \<longrightarrow> (\<forall>r \<in> set (p_Rules p). static_from fs dir r))"

lemma wf_snapshot_update:
  assumes "wf_snapshot u m" and "wf_profile u p" and "p_Name p = n"
  shows "wf_snapshot u (AList.update n p m)"
  using assms by (auto simp: wf_snapshot_def distinct_update update_conv')

lemma wf_snapshot_lookup: "wf_snapshot u m \<Longrightarrow> map_of m n = Some p \<Longrightarrow> wf_profile u p \<and> p_Name p = n"
  by (simp add: wf_snapshot_def)

lemma same_rules_wf:
  assumes "list_all2 same_rule (p_Rules p) rs" and "wf_profile u p"
  shows "wf_profile u (p\<lparr>p_Rules := rs\<rparr>)"
proof -
  have "wf_rule (p\<lparr>p_Rules := rs\<rparr>) r" if "r \<in> set rs" for r
  proof -
    from that assms(1) obtain r0 where "r0 \<in> set (p_Rules p)" "same_rule r0 r"
      by (metis in_set_conv_nth list_all2_conv_all_nth)
    with assms(2) have "wf_rule p r" by (auto simp: wf_profile_def intro: same_rule_wf)
    then show ?thesis by (subst wf_rule_cong [of _ p]) simp_all
  qed
  with assms(2) show ?thesis by (simp add: wf_profile_def)
qed

lemma static_profiles_Inr:
  assumes "static_profiles fs dir ns m sets = Inr m'" and "wf_snapshot u m"
    and "cache_from fs dir sets"
  shows "wf_snapshot u m' \<and> dom (map_of m') = dom (map_of m) \<and>
    (\<forall>n. n \<in> set ns \<or> static_done fs dir m n \<longrightarrow> static_done fs dir m' n)"
  using assms
proof (induction ns arbitrary: m sets)
  case (Cons n ns)
  show ?case
  proof (cases "map_of m n")
    case None
    then have "static_profiles fs dir ns m sets = Inr m'" "static_done fs dir m n"
      using Cons.prems(1) by (simp_all add: static_done_def)
    with Cons.IH [of m sets] Cons.prems(2,3) show ?thesis by simp
  next
    case (Some p)
    with Cons.prems(1) obtain rs sets' where rs: "static_rules fs dir (p_Rules p) sets = Inr (rs, sets')"
      and m': "static_profiles fs dir ns (AList.update n (p\<lparr>p_Rules := rs\<rparr>) m) sets' = Inr m'"
      by (auto split: sum.splits prod.splits)
    note st = static_rules_Inr [OF rs Cons.prems(3)]
    have "wf_snapshot u (AList.update n (p\<lparr>p_Rules := rs\<rparr>) m)"
      using Cons.prems(2) st wf_snapshot_lookup [OF Cons.prems(2) Some]
      by (intro wf_snapshot_update) (simp_all add: same_rules_wf)
    note step = Cons.IH [OF m' this conjunct2 [OF conjunct2 [OF st]], unfolded update_conv']
    then have ih: "wf_snapshot u m'"
      "dom (map_of m') = dom ((map_of m)(n \<mapsto> p\<lparr>p_Rules := rs\<rparr>))"
      "\<forall>k. k \<in> set ns \<or> static_done fs dir (AList.update n (p\<lparr>p_Rules := rs\<rparr>) m) k \<longrightarrow>
         static_done fs dir m' k"
      by blast+
    have "static_done fs dir (AList.update n (p\<lparr>p_Rules := rs\<rparr>) m) k"
      if "k = n \<or> static_done fs dir m k" for k
      using that st by (auto simp: static_done_def update_conv')
    with ih Some show ?thesis by (simp add: insert_absorb domI)
  qed
qed simp

lemma load_entries_Inr:
  "load_entries u y fs dir es m = Inr m' \<Longrightarrow> wf_snapshot u m \<Longrightarrow> wf_snapshot u m'"
proof (induction es arbitrary: m)
  case (Cons e es)
  show ?case
  proof (cases "profileName u e")
    case None
    with Cons show ?thesis by simp
  next
    case (Some name)
    with Cons.prems obtain raw p where p: "policy_Parse u y name raw = Inr p"
      and m': "load_entries u y fs dir es (AList.update name p m) = Inr m'"
      by auto
    have "wf_snapshot u (AList.update name p m)"
      using Cons.prems(2) policy_Parse_wf_aux [OF p] by (rule wf_snapshot_update)
    with Cons.IH [OF m'] show ?thesis .
  qed
qed simp

lemma LoadDir_Inr:
  assumes "LoadDir u y fs dir = Inr m"
  shows "wf_snapshot u m" and "static_done fs dir m n"
proof -
  from assms obtain es m0 where m0: "load_entries u y fs dir es [] = Inr m0"
    and m: "static_profiles fs dir (Names m0) m0 Map.empty = Inr m"
    by (auto simp: LoadDir_def loadStatic_def)
  have "wf_snapshot u m0" by (rule load_entries_Inr [OF m0]) (simp add: wf_snapshot_def)
  from static_profiles_Inr [OF m this] have st: "wf_snapshot u m" "dom (map_of m) = dom (map_of m0)"
    "n \<in> set (Names m0) \<longrightarrow> static_done fs dir m n"
    by (simp_all add: cache_from_def)
  then show "wf_snapshot u m" by simp
  have "set (Names m0) = dom (map_of m0)" by (simp add: Names_def dom_map_of_conv_image_fst)
  with st show "static_done fs dir m n" by (cases "n \<in> dom (map_of m)") (auto simp: static_done_def)
qed

text \<open>Where a loaded profile comes from: a file of the directory, with the static lists filled in.\<close>

definition refilled :: "profile \<Rightarrow> profile \<Rightarrow> bool" where
  "refilled p0 p \<longleftrightarrow> p = p0\<lparr>p_Rules := p_Rules p\<rparr> \<and> list_all2 same_rule (p_Rules p0) (p_Rules p)"

lemma same_rule_trans: "same_rule r r' \<Longrightarrow> same_rule r' r'' \<Longrightarrow> same_rule r r''"
  unfolding same_rule_def by (rule exI [of _ "r_Listed r''"]) (auto; blast)

lemma refilled_refl [simp]: "refilled p p"
  by (simp add: refilled_def list_all2_refl)

lemma refilled_trans:
  assumes "refilled p0 p" and "list_all2 same_rule (p_Rules p) rs"
  shows "refilled p0 (p\<lparr>p_Rules := rs\<rparr>)"
proof -
  have "list_all2 same_rule (p_Rules p0) rs"
    using list_all2_trans [of same_rule same_rule same_rule] same_rule_trans assms by (auto simp: refilled_def)
  moreover have "p\<lparr>p_Rules := rs\<rparr> = p0\<lparr>p_Rules := rs\<rparr>"
    using assms(1) by (cases p0, cases p) (simp add: refilled_def)
  ultimately show ?thesis by (simp add: refilled_def)
qed

lemma static_profiles_refilled:
  assumes "static_profiles fs dir ns m sets = Inr m'" and "cache_from fs dir sets" and "map_of m' k = Some p"
  shows "\<exists>p0. map_of m k = Some p0 \<and> refilled p0 p"
  using assms
proof (induction ns arbitrary: m sets)
  case (Cons n ns)
  show ?case
  proof (cases "map_of m n")
    case None
    with Cons show ?thesis by auto
  next
    case (Some q)
    with Cons.prems(1) obtain rs sets' where rs: "static_rules fs dir (p_Rules q) sets = Inr (rs, sets')"
      and m': "static_profiles fs dir ns (AList.update n (q\<lparr>p_Rules := rs\<rparr>) m) sets' = Inr m'"
      by (auto split: sum.splits prod.splits)
    note st = static_rules_Inr [OF rs Cons.prems(2)]
    from Cons.IH [OF m' _ Cons.prems(3)] st obtain p0 where
      p0: "map_of (AList.update n (q\<lparr>p_Rules := rs\<rparr>) m) k = Some p0" "refilled p0 p" by blast
    show ?thesis
    proof (cases "k = n")
      case True
      with p0 have eq: "p0 = q\<lparr>p_Rules := rs\<rparr>" by (simp add: update_conv')
      have "refilled q (p0\<lparr>p_Rules := p_Rules p\<rparr>)" unfolding eq
        using refilled_trans [OF refilled_trans [OF refilled_refl conjunct1 [OF st]], of "p_Rules p"] p0(2)
        by (simp add: eq refilled_def)
      moreover have "p0\<lparr>p_Rules := p_Rules p\<rparr> = p" using p0(2) by (simp add: refilled_def)
      ultimately show ?thesis using True Some by simp
    qed (use p0 in \<open>simp add: update_conv'\<close>)
  qed
qed simp

lemma load_entries_from:
  assumes "load_entries u y fs dir es out = Inr m" and "map_of m k = Some p"
  shows "map_of out k = Some p \<or> (\<exists>e \<in> set es. \<exists>raw. profileName u e = Some k \<and>
    fs_ReadFile fs (dir @ [de_Name e]) = Some raw \<and> policy_Parse u y k raw = Inr p)"
  using assms
proof (induction es arbitrary: out)
  case (Cons e es)
  show ?case
  proof (cases "profileName u e")
    case None
    with Cons show ?thesis by auto
  next
    case (Some n)
    with Cons.prems(1) obtain raw q where q: "fs_ReadFile fs (dir @ [de_Name e]) = Some raw"
      "policy_Parse u y n raw = Inr q" "load_entries u y fs dir es (AList.update n q out) = Inr m"
      by (auto split: option.splits sum.splits)
    from Cons.IH [OF q(3) Cons.prems(2)] Some q show ?thesis
      by (cases "k = n") (auto simp: update_conv')
  qed
qed simp

lemma LoadDir_content:
  assumes "LoadDir u y fs dir = Inr m" and "fs_ReadDir fs dir = Some es" and "map_of m k = Some p"
  obtains e raw p0 where "e \<in> set es" "profileName u e = Some k" "fs_ReadFile fs (dir @ [de_Name e]) = Some raw"
    "policy_Parse u y k raw = Inr p0" "refilled p0 p" "\<forall>r \<in> set (p_Rules p). static_from fs dir r"
proof -
  from assms obtain m0 where m0: "load_entries u y fs dir es [] = Inr m0"
    and m: "static_profiles fs dir (Names m0) m0 Map.empty = Inr m"
    by (auto simp: LoadDir_def loadStatic_def)
  from static_profiles_refilled [OF m _ assms(3)] obtain p0 where p0: "map_of m0 k = Some p0" "refilled p0 p"
    by (auto simp: cache_from_def)
  from load_entries_from [OF m0 p0(1)] p0(2) LoadDir_Inr(2) [OF assms(1), of k] assms(3) show thesis
    by (auto simp: static_done_def intro: that)
qed

subsection \<open>The invariant of the interleavings\<close>

definition snapshots_of :: "sys \<Rightarrow> snapshot set" where
  "snapshots_of s =
     {st_current (sys_store s)} \<union> set (case st_loads (sys_store s) of None \<Rightarrow> [] | Some ls \<Rightarrow> ls) \<union>
     (case sys_w s of WLoaded d prt m \<Rightarrow> {m} | WSwap m \<Rightarrow> {m} | _ \<Rightarrow> {}) \<union>
     (case sys_a s of ALoaded d m \<Rightarrow> {m} | APrint d prt m \<Rightarrow> {m} | ASwap m \<Rightarrow> {m} | AIdle \<Rightarrow> {})"

lemma sys_step_snapshots:
  assumes "sys_step u y s s'" and "\<forall>m \<in> snapshots_of s. wf_snapshot u m"
  shows "\<forall>m \<in> snapshots_of s'. wf_snapshot u m"
  using assms
  by (induction rule: sys_step.induct)
    (auto simp: snapshots_of_def store_swap_def setPrint_def dest: LoadDir_Inr(1)
      split: option.splits if_splits)

lemma sys_reach_snapshots:
  assumes "sys_reach u y s0 s" and "\<forall>m \<in> snapshots_of s0. wf_snapshot u m"
  shows "\<forall>m \<in> snapshots_of s. wf_snapshot u m"
  using assms by (induction rule: sys_reach.induct) (auto dest: sys_step_snapshots)

subsection \<open>Turns that nothing interrupts\<close>

lemma watch_tick_again:
  assumes "fingerprint u fs (st_dir s) = Some prt"
  shows "watch_tick u y fs (watch_tick u y fs s) = watch_tick u y fs s"
  using assms
  by (auto simp: watch_tick_def setPrint_def store_swap_def Let_def split: sum.splits)

definition idle :: "store_state \<Rightarrow> sys" where
  "idle s = \<lparr>sys_store = s, sys_w = WIdle, sys_a = AIdle\<rparr>"

text \<open>
  The store loses an update when the watcher has loaded the old directory and the applier
  switches to the new one before the watcher swaps.
\<close>

lemma stale_run:
  assumes "st_dir s = d1" and "fingerprint u fs d1 = Some p1" and "p1 \<noteq> st_print s"
    and "LoadDir u y fs d1 = Inr m1" and "LoadDir u y fs d2 = Inr m2"
    and "fingerprint u fs d2 = Some p2"
  shows "sys_reach u y (idle s)
    (idle (store_swap m1 (store_swap m2 ((setPrint d1 p1 s)\<lparr>st_dir := d2, st_print := p2\<rparr>))))"
proof -
  let ?W = "\<lambda>st w a. \<lparr>sys_store = st, sys_w = w, sys_a = a\<rparr>"
  let ?s1 = "setPrint d1 p1 s"
  let ?s2 = "?s1\<lparr>st_dir := d2, st_print := p2\<rparr>"
  have "sys_reach u y (idle s) (?W s (WDir d1) AIdle)"
    using sys_step.w_dir [of "idle s" u y] assms(1) by (auto simp: idle_def intro: sys_go)
  then have "sys_reach u y (idle s) (?W s (WPrint d1 p1) AIdle)"
    using sys_step.w_print [of "?W s (WDir d1) AIdle" d1 u fs p1 y] assms(2) by (auto intro: sys_go)
  then have "sys_reach u y (idle s) (?W s (WLoad d1 p1) AIdle)"
    using sys_step.w_compare [of "?W s (WPrint d1 p1) AIdle" d1 p1 u y] assms(3)
    by (auto intro: sys_go)
  then have "sys_reach u y (idle s) (?W s (WLoaded d1 p1 m1) AIdle)"
    using sys_step.w_load [of "?W s (WLoad d1 p1) AIdle" d1 p1 u y fs m1] assms(4)
    by (auto intro: sys_go)
  then have "sys_reach u y (idle s) (?W ?s1 (WSwap m1) AIdle)"
    using sys_step.w_set [of "?W s (WLoaded d1 p1 m1) AIdle" d1 p1 m1 u y] by (auto intro: sys_go)
  then have "sys_reach u y (idle s) (?W ?s1 (WSwap m1) (ALoaded d2 m2))"
    using sys_step.a_load [of "?W ?s1 (WSwap m1) AIdle" u y fs d2 m2] assms(5) by (auto intro: sys_go)
  then have "sys_reach u y (idle s) (?W ?s1 (WSwap m1) (APrint d2 p2 m2))"
    using sys_step.a_print [of "?W ?s1 (WSwap m1) (ALoaded d2 m2)" d2 m2 u y fs] assms(6)
    by (auto simp: print_or_empty_def intro: sys_go)
  then have "sys_reach u y (idle s) (?W ?s2 (WSwap m1) (ASwap m2))"
    using sys_step.a_set [of "?W ?s1 (WSwap m1) (APrint d2 p2 m2)" d2 p2 m2 u y]
    by (auto intro: sys_go)
  then have "sys_reach u y (idle s) (?W (store_swap m2 ?s2) (WSwap m1) AIdle)"
    using sys_step.a_swap [of "?W ?s2 (WSwap m1) (ASwap m2)" m2 u y] by (auto intro: sys_go)
  then show ?thesis
    using sys_step.w_swap [of "?W (store_swap m2 ?s2) (WSwap m1) AIdle" m1 u y]
    by (auto simp: idle_def intro: sys_go)
qed

subsection \<open>Properties\<close>

text \<open>
  What a directory loads to is well formed: every name maps to a well-formed profile that
  carries the name, and the set of every static list check holds exactly the non-empty trimmed
  lines of its file.
\<close>

theorem LoadDir_wf:
  assumes "LoadDir u y fs dir = Inr m" and "map_of m n = Some p"
  shows "wf_profile u p \<and> p_Name p = n \<and> (\<forall>r \<in> set (p_Rules p). static_from fs dir r)"
  using LoadDir_Inr [OF assms(1)] assms(2) by (auto simp: wf_snapshot_def static_done_def)

lemma served_wf:
  assumes "NewStore u y fs dir = Inr s0" and "sys_reach u y (idle (OnLoad s0)) s" and "m \<in> snapshots_of s"
  shows "wf_snapshot u m"
proof -
  from assms(1) have "\<forall>m \<in> snapshots_of (idle (OnLoad s0)). wf_snapshot u m"
    by (auto simp: NewStore_def snapshots_of_def idle_def OnLoad_def dest: LoadDir_Inr(1))
  from sys_reach_snapshots [OF assms(2) this] assms(3) show ?thesis by blast
qed

text \<open>
  C20.  However the watcher and the applier interleave, and whatever happens to the files in
  between, the snapshot being served and every snapshot handed to the load callback is well
  formed: a directory that fails to load never reaches the handler.
\<close>

theorem served_snapshots_wf:
  assumes "NewStore u y fs dir = Inr s0" and "sys_reach u y (idle (OnLoad s0)) s"
  shows "wf_snapshot u (st_current (sys_store s)) \<and>
         (\<forall>ls. st_loads (sys_store s) = Some ls \<longrightarrow> (\<forall>m \<in> set ls. wf_snapshot u m))"
  using served_wf [OF assms] by (auto simp: snapshots_of_def)

text \<open>
  A turn of the watcher that nothing interrupts either leaves the store alone, or records the
  new fingerprint; it serves what the directory loads to when that loads, keeps the previous
  snapshot when it does not, and a second turn over the same files changes nothing.
\<close>

theorem watch_tick_spec:
  assumes "fingerprint u fs (st_dir s) = Some prt"
  shows "st_dir (watch_tick u y fs s) = st_dir s \<and> st_print (watch_tick u y fs s) = prt \<and>
         st_current (watch_tick u y fs s) =
           (case LoadDir u y fs (st_dir s) of
              Inl e \<Rightarrow> st_current s
            | Inr m \<Rightarrow> if prt = st_print s then st_current s else m) \<and>
         watch_tick u y fs (watch_tick u y fs s) = watch_tick u y fs s"
  using assms watch_tick_again [OF assms]
  by (auto simp: watch_tick_def setPrint_def store_swap_def Let_def split: sum.splits)

text \<open>
  The switch to a new directory can be lost.  When the watcher has already loaded the old
  directory, it may swap its snapshot in after \<open>ReloadFrom\<close> has switched: the store then names the
  new directory and its fingerprint, serves the profiles of the old one, and no later turn of the
  watcher over the same files corrects it.
\<close>

theorem reload_can_be_lost:
  assumes "st_dir s = d1" and "fingerprint u fs d1 = Some p1" and "p1 \<noteq> st_print s"
    and "LoadDir u y fs d1 = Inr m1" and "LoadDir u y fs d2 = Inr m2"
    and "fingerprint u fs d2 = Some p2"
  shows "\<exists>s'. sys_reach u y (idle s) (idle s') \<and> st_dir s' = d2 \<and> st_print s' = p2 \<and>
              st_current s' = m1 \<and> watch_tick u y fs s' = s'"
  by (rule exI, intro conjI, rule stale_run [OF assms])
    (use assms(6) in \<open>simp_all add: store_swap_def watch_tick_def\<close>)

subsection \<open>Witnesses\<close>

text \<open>Two directories: the first is empty, the second holds one profile.\<close>

definition two_dirs :: filesys where
  "two_dirs =
     \<lparr>fs_ReadDir = [[''a''] \<mapsto> [], [''b''] \<mapsto> [\<lparr>de_Name = ''shop.yaml'', de_IsDir = False\<rparr>]],
      fs_ReadFile = [[''b'', ''shop.yaml''] \<mapsto> ''profile''],
      fs_Stat = [[''b'', ''shop.yaml''] \<mapsto> (7, 1700000000)]\<rparr>"

abbreviation number_yaml :: yaml where "number_yaml \<equiv> (\<lambda>_. Some (number_file []))"

lemma profileName_shop:
  "profileName ascii_only \<lparr>de_Name = ''shop.yaml'', de_IsDir = False\<rparr> = Some ''shop''"
  by (simp add: profileName_def CutSuffix_def text_eval ToLower_def ascii_def lower1_def)

lemma two_dirs_a: "LoadDir u number_yaml two_dirs [''a''] = Inr []"
  by (simp add: LoadDir_def two_dirs_def loadStatic_def Names_def)

lemma two_dirs_b: "LoadDir ascii_only number_yaml two_dirs [''b''] = Inr [(''shop'', number_profile)]"
proof -
  have "static_rules fs dir (p_Rules number_profile) sets = Inr (p_Rules number_profile, sets)"
    for fs dir sets
    by (simp add: number_profile_def plain_rule_def)
  then show ?thesis
    by (simp add: LoadDir_def two_dirs_def profileName_shop number_parses loadStatic_def Names_def)
qed

lemma sha256_nonempty: "sha256 m \<noteq> []"
  using length_sha256 [of m] by (metis list.size(3) zero_neq_numeral)

lemma two_dirs_prints:
  "\<exists>p1. fingerprint ascii_only two_dirs [''a''] = Some p1 \<and> p1 \<noteq> []"
  "\<exists>p2. fingerprint ascii_only two_dirs [''b''] = Some p2"
proof -
  show "\<exists>p1. fingerprint ascii_only two_dirs [''a''] = Some p1 \<and> p1 \<noteq> []"
    by (simp add: fingerprint_def two_dirs_def fingerprint_names_def sha256_nonempty)
  show "\<exists>p2. fingerprint ascii_only two_dirs [''b''] = Some p2"
    by (simp add: fingerprint_def two_dirs_def fingerprint_names_def profileName_shop print_line_def)
qed

theorem LoadDir_wf_witness: "wf_profile ascii_only number_profile \<and> p_Name number_profile = ''shop''"
  using LoadDir_wf [OF two_dirs_b, of "''shop''" number_profile] by simp

theorem served_snapshots_wf_witness:
  "\<exists>s0. NewStore ascii_only number_yaml two_dirs [''b''] = Inr s0 \<and>
        wf_snapshot ascii_only (st_current (sys_store (idle (OnLoad s0))))"
  using served_snapshots_wf [of ascii_only number_yaml two_dirs "[''b'']" _ "idle (OnLoad _)"]
    two_dirs_b
  by (auto simp: NewStore_def intro: sys_reach.here)

theorem watch_tick_spec_witness:
  "\<exists>prt. st_print (watch_tick ascii_only number_yaml two_dirs
      \<lparr>st_dir = [''b''], st_print = [], st_current = [], st_loads = None\<rparr>) = prt \<and> prt \<noteq> []"
proof -
  obtain prt where prt: "fingerprint ascii_only two_dirs [''b''] = Some prt"
    using two_dirs_prints(2) by blast
  then have "prt \<noteq> []" by (auto simp: fingerprint_def sha256_nonempty split: option.splits sum.splits)
  then show ?thesis
    using prt watch_tick_spec [of ascii_only two_dirs "\<lparr>st_dir = [''b''], st_print = [],
      st_current = [], st_loads = None\<rparr>" prt number_yaml] by simp
qed

theorem reload_can_be_lost_witness:
  "\<exists>s'. sys_reach ascii_only number_yaml
          (idle \<lparr>st_dir = [''a''], st_print = [], st_current = [], st_loads = None\<rparr>) (idle s') \<and>
        st_dir s' = [''b''] \<and> st_current s' = [] \<and>
        watch_tick ascii_only number_yaml two_dirs s' = s'"
proof -
  obtain p1 where p1: "fingerprint ascii_only two_dirs [''a''] = Some p1" "p1 \<noteq> []"
    using two_dirs_prints(1) by blast
  obtain p2 where p2: "fingerprint ascii_only two_dirs [''b''] = Some p2"
    using two_dirs_prints(2) by blast
  show ?thesis
    using reload_can_be_lost [of "\<lparr>st_dir = [''a''], st_print = [], st_current = [], st_loads = None\<rparr>",
        OF _ p1(1) _ two_dirs_a two_dirs_b p2] p1(2)
    by auto
qed

end
