(* ===== verification/Body.thy ===== *)
theory Body
  imports Protocol GoCrypto
begin

text \<open>
  Objects of a request in the external store (\<^verbatim>\<open>internal/body/body.go\<close>, \<^verbatim>\<open>redis.go\<close>):
  loading one object or several at once, decryption and the check of the digest.  The Redis client
  (\<open>redis_client\<close>), the key source and AES-GCM decryption are arguments.
\<close>

subsection \<open>Data\<close>

record body =
  bd_Data :: string
  bd_Truncated :: bool
  bd_Unavailable :: string
  bd_Fault :: bool
  bd_SHA256 :: string

definition no_body :: body where
  "no_body = \<lparr>bd_Data = [], bd_Truncated = False, bd_Unavailable = [], bd_Fault = False, bd_SHA256 = []\<rparr>"

definition Available :: "body \<Rightarrow> bool" where
  "Available b \<longleftrightarrow> bd_Unavailable b = []"

definition Failed :: "body \<Rightarrow> bool" where
  "Failed b \<longleftrightarrow> bd_Fault b"

definition faulty :: "string \<Rightarrow> body" where
  "faulty why = no_body\<lparr>bd_Unavailable := why, bd_Fault := True\<rparr>"

abbreviation unavailableNoStore :: string where "unavailableNoStore \<equiv> ''store_unconfigured''"
abbreviation unavailableStoreError :: string where "unavailableStoreError \<equiv> ''store_error''"
abbreviation unavailableUnknownDrv :: string where "unavailableUnknownDrv \<equiv> ''unknown_driver''"
abbreviation unavailableDecryptFail :: string where "unavailableDecryptFail \<equiv> ''decrypt_failed''"
abbreviation unavailableDigestFail :: string where "unavailableDigestFail \<equiv> ''digest_mismatch''"

datatype store_err = ErrUnknownDriver | StoreFailed

text \<open>\<open>bs_GetMany\<close> is \<open>None\<close> for a store that is not a \<open>MultiStore\<close>; a missing value is \<open>None\<close>.\<close>

record body_store =
  bs_Get :: "string \<Rightarrow> string \<Rightarrow> string \<Rightarrow> store_err + string"
  bs_GetMany :: "(string \<Rightarrow> string \<Rightarrow> string list \<Rightarrow> store_err + string option list) option"

text \<open>The keys by their identifier, and AES-GCM: key, nonce and sealed bytes to the plain ones.\<close>

record loader =
  ld_store :: "body_store option"
  ld_keys :: "(string \<Rightarrow> string option) option"
  ld_gcm :: "string \<Rightarrow> string \<Rightarrow> string \<Rightarrow> string option"

subsection \<open>One object\<close>

text \<open>
  \<open>decrypt\<close>: \<open>None\<close> is an error.  The GCM of the library panics on a nonce that is not 12 bytes.
\<close>

definition decrypt :: "loader \<Rightarrow> enc \<Rightarrow> string \<Rightarrow> string option may_panic" where
  "decrypt l e raw =
     (case ld_keys l of
        None \<Rightarrow> Done None
      | Some keys \<Rightarrow>
          if e_Alg e \<noteq> ''aes-256-gcm'' then Done None
          else case keys (e_KID e) of
            None \<Rightarrow> Done None
          | Some key \<Rightarrow>
              if length key \<notin> {16, 24, 32} then Done None
              else case b64_DecodeString (e_Nonce e) of
                None \<Rightarrow> Done None
              | Some nonce \<Rightarrow>
                  if length nonce \<noteq> 12 then Panics else Done (ld_gcm l key nonce raw))"

definition want_digest :: "locator \<Rightarrow> string" where
  "want_digest loc =
     (if l_ProcessedSHA256 loc \<noteq> [] then l_ProcessedSHA256 loc
      else if l_Truncated loc then [] else l_SHA256 loc)"

definition check_digest :: "locator \<Rightarrow> string \<Rightarrow> body" where
  "check_digest loc raw =
     (let digest = hex_encode (sha256 raw); want = want_digest loc
      in if want \<noteq> [] \<and> want \<noteq> digest then faulty unavailableDigestFail
         else \<lparr>bd_Data = raw, bd_Truncated = l_Truncated loc, bd_Unavailable = [],
               bd_Fault = False, bd_SHA256 = digest\<rparr>)"

definition loader_finish :: "loader \<Rightarrow> locator \<Rightarrow> string \<Rightarrow> body may_panic" where
  "loader_finish l loc raw =
     (case l_Enc loc of
        None \<Rightarrow> Done (check_digest loc raw)
      | Some e \<Rightarrow>
          (case decrypt l e raw of
             Panics \<Rightarrow> Panics
           | Done None \<Rightarrow> Done (faulty unavailableDecryptFail)
           | Done (Some plain) \<Rightarrow> Done (check_digest loc plain)))"

definition loader_Load :: "loader \<Rightarrow> locator option \<Rightarrow> body may_panic" where
  "loader_Load l oloc =
     (case oloc of
        None \<Rightarrow> Done no_body
      | Some loc \<Rightarrow>
          if l_Unavailable loc \<noteq> [] then Done (no_body\<lparr>bd_Unavailable := l_Unavailable loc\<rparr>)
          else if l_Driver loc \<noteq> [] then
            (case ld_store l of
               None \<Rightarrow> Done (faulty unavailableNoStore)
             | Some st \<Rightarrow>
                 (case bs_Get st (l_Driver loc) (l_Store loc) (l_Key loc) of
                    Inl ErrUnknownDriver \<Rightarrow> Done (faulty unavailableUnknownDrv)
                  | Inl StoreFailed \<Rightarrow> Done (faulty unavailableStoreError)
                  | Inr raw \<Rightarrow> loader_finish l loc raw))
          else Done no_body)"

subsection \<open>Several objects\<close>

record batch =
  ba_out :: "body list"
  ba_keys :: "string list"
  ba_at :: "nat list"
  ba_driver :: string
  ba_store :: string
  ba_batched :: bool

definition set_out :: "nat \<Rightarrow> body may_panic \<Rightarrow> batch \<Rightarrow> batch may_panic" where
  "set_out i m b =
     (case m of Panics \<Rightarrow> Panics | Done x \<Rightarrow> Done (b\<lparr>ba_out := (ba_out b)[i := x]\<rparr>))"

text \<open>The loop that loads what cannot be batched and collects the keys of the rest.\<close>

fun scan_locs :: "loader \<Rightarrow> nat \<Rightarrow> locator option list \<Rightarrow> batch \<Rightarrow> batch may_panic" where
  "scan_locs l i [] b = Done b"
| "scan_locs l i (oloc # locs) b =
     (let alone = (case set_out i (loader_Load l oloc) b of
                     Panics \<Rightarrow> Panics | Done b' \<Rightarrow> scan_locs l (Suc i) locs b')
      in case oloc of
           None \<Rightarrow> alone
         | Some loc \<Rightarrow>
             if l_Unavailable loc \<noteq> [] \<or> l_Driver loc = [] then alone
             else if ba_batched b \<and> (l_Driver loc \<noteq> ba_driver b \<or> l_Store loc \<noteq> ba_store b) then alone
             else scan_locs l (Suc i) locs
                    (b\<lparr>ba_driver := l_Driver loc, ba_store := l_Store loc, ba_batched := True,
                       ba_keys := ba_keys b @ [l_Key loc], ba_at := ba_at b @ [i]\<rparr>))"

fun load_at :: "loader \<Rightarrow> locator option list \<Rightarrow> nat list \<Rightarrow> body list \<Rightarrow> body list may_panic" where
  "load_at l locs [] out = Done out"
| "load_at l locs (i # is) out =
     (case loader_Load l (locs ! i) of
        Panics \<Rightarrow> Panics | Done x \<Rightarrow> load_at l locs is (out[i := x]))"

text \<open>The answers of \<open>GetMany\<close> in their places; an answer that is not there is an index panic.\<close>

fun finish_at ::
  "loader \<Rightarrow> locator option list \<Rightarrow> nat list \<Rightarrow> string option list \<Rightarrow> body list \<Rightarrow> body list may_panic" where
  "finish_at l locs [] raws out = Done out"
| "finish_at l locs (i # is) [] out = Panics"
| "finish_at l locs (i # is) (None # raws) out =
     finish_at l locs is raws (out[i := faulty unavailableStoreError])"
| "finish_at l locs (i # is) (Some raw # raws) out =
     (case locs ! i of
        None \<Rightarrow> Panics
      | Some loc \<Rightarrow>
          (case loader_finish l loc raw of
             Panics \<Rightarrow> Panics | Done x \<Rightarrow> finish_at l locs is raws (out[i := x])))"

definition LoadMany :: "loader \<Rightarrow> locator option list \<Rightarrow> body list may_panic" where
  "LoadMany l locs =
     (let out0 = replicate (length locs) no_body
      in case (case ld_store l of None \<Rightarrow> None | Some st \<Rightarrow> bs_GetMany st) of
           None \<Rightarrow> load_at l locs [0..<length locs] out0
         | Some getmany \<Rightarrow>
             (case scan_locs l 0 locs \<lparr>ba_out = out0, ba_keys = [], ba_at = [], ba_driver = [],
                                       ba_store = [], ba_batched = False\<rparr> of
                Panics \<Rightarrow> Panics
              | Done b \<Rightarrow>
                  if length (ba_keys b) < 2 then load_at l locs (ba_at b) (ba_out b)
                  else (case getmany (ba_driver b) (ba_store b) (ba_keys b) of
                          Inl ErrUnknownDriver \<Rightarrow>
                            Done (foldl (\<lambda>out i. out[i := faulty unavailableUnknownDrv])
                                    (ba_out b) (ba_at b))
                        | Inl StoreFailed \<Rightarrow>
                            Done (foldl (\<lambda>out i. out[i := faulty unavailableStoreError])
                                    (ba_out b) (ba_at b))
                        | Inr raws \<Rightarrow> finish_at l locs (ba_at b) raws (ba_out b))))"

subsection \<open>The Redis store\<close>

record redis_client =
  rc_Get :: "string \<Rightarrow> string option"
  rc_MGet :: "string list \<Rightarrow> string option list option"

definition redis_Get :: "redis_client \<Rightarrow> string \<Rightarrow> string \<Rightarrow> string \<Rightarrow> store_err + string" where
  "redis_Get c driver store key =
     (if driver \<noteq> ''redis'' then Inl ErrUnknownDriver
      else case rc_Get c key of None \<Rightarrow> Inl StoreFailed | Some raw \<Rightarrow> Inr raw)"

definition redis_GetMany ::
  "redis_client \<Rightarrow> string \<Rightarrow> string \<Rightarrow> string list \<Rightarrow> store_err + string option list" where
  "redis_GetMany c driver store keys =
     (if driver \<noteq> ''redis'' then Inl ErrUnknownDriver
      else if length keys = 0 then Inr []
      else case rc_MGet c keys of
        None \<Rightarrow> Inl StoreFailed
      | Some vals \<Rightarrow> if length vals \<noteq> length keys then Inl StoreFailed else Inr vals)"

definition redis_store :: "redis_client \<Rightarrow> body_store" where
  "redis_store c = \<lparr>bs_Get = redis_Get c, bs_GetMany = Some (redis_GetMany c)\<rparr>"

subsection \<open>Loading one by one, as a specification\<close>

text \<open>A partial answer: the places of \<open>S\<close> hold what loading alone gives.\<close>

definition ok_out :: "loader \<Rightarrow> locator option list \<Rightarrow> nat set \<Rightarrow> body list \<Rightarrow> bool" where
  "ok_out l locs S out \<longleftrightarrow>
     length out = length locs \<and>
     (\<forall>i \<in> S. i < length locs \<longrightarrow> loader_Load l (locs ! i) = Done (out ! i))"

lemma ok_out_upd:
  "ok_out l locs S out \<Longrightarrow> loader_Load l (locs ! i) = Done x \<Longrightarrow> ok_out l locs (insert i S) (out[i := x])"
  by (cases "i < length out") (auto simp: ok_out_def nth_list_update)

lemma ok_out_all: "ok_out l locs S out \<Longrightarrow> {..<length locs} \<subseteq> S \<Longrightarrow> mapP (loader_Load l) locs = Done out"
  by (rule mapP_Done) (auto simp: ok_out_def)

lemma load_at_ok:
  assumes "ok_out l locs S out" and "{..<length locs} \<subseteq> S \<union> set is" and "set is \<subseteq> {..<length locs}"
  shows "load_at l locs is out = mapP (loader_Load l) locs"
  using assms
proof (induction "is" arbitrary: S out)
  case Nil
  then show ?case by (simp add: ok_out_all)
next
  case (Cons i "is")
  show ?case
  proof (cases "loader_Load l (locs ! i)")
    case Panics
    moreover from Cons.prems(3) have "locs ! i \<in> set locs" by simp
    ultimately show ?thesis by (simp add: mapP_Panics)
  next
    case (Done x)
    with Cons.IH [OF ok_out_upd [OF Cons.prems(1) Done]] Cons.prems(2,3) show ?thesis by auto
  qed
qed

text \<open>What the batch collects: placed objects of one driver and one store.\<close>

definition batched :: "locator option list \<Rightarrow> string \<Rightarrow> string \<Rightarrow> nat \<Rightarrow> bool" where
  "batched locs driver store i \<longleftrightarrow>
     i < length locs \<and>
     (\<exists>loc. locs ! i = Some loc \<and> l_Unavailable loc = [] \<and> l_Driver loc \<noteq> [] \<and>
            l_Driver loc = driver \<and> l_Store loc = store)"

definition scan_inv :: "loader \<Rightarrow> locator option list \<Rightarrow> nat \<Rightarrow> batch \<Rightarrow> bool" where
  "scan_inv l locs i b \<longleftrightarrow>
     ok_out l locs ({..<i} - set (ba_at b)) (ba_out b) \<and>
     (\<forall>j \<in> set (ba_at b). batched locs (ba_driver b) (ba_store b) j) \<and>
     ba_keys b = map (\<lambda>j. l_Key (the (locs ! j))) (ba_at b) \<and>
     (ba_batched b \<longleftrightarrow> ba_at b \<noteq> []) \<and> set (ba_at b) \<subseteq> {..<i}"

lemma scan_alone:
  assumes "scan_inv l locs i b" and "loader_Load l (locs ! i) = Done x"
  shows "scan_inv l locs (Suc i) (b\<lparr>ba_out := (ba_out b)[i := x]\<rparr>)"
proof -
  from assms(1) have "{..<Suc i} - set (ba_at b) = insert i ({..<i} - set (ba_at b))"
    by (auto simp: scan_inv_def)
  with assms ok_out_upd [of l locs "{..<i} - set (ba_at b)" "ba_out b" i x] show ?thesis
    by (auto simp: scan_inv_def)
qed

lemma scan_batch:
  assumes "scan_inv l locs i b" and "i < length locs" and "locs ! i = Some loc"
    and "l_Unavailable loc = []" and "l_Driver loc \<noteq> []"
    and "ba_batched b \<longrightarrow> l_Driver loc = ba_driver b \<and> l_Store loc = ba_store b"
  shows "scan_inv l locs (Suc i)
    (b\<lparr>ba_driver := l_Driver loc, ba_store := l_Store loc, ba_batched := True,
       ba_keys := ba_keys b @ [l_Key loc], ba_at := ba_at b @ [i]\<rparr>)"
proof -
  note inv = assms(1) [unfolded scan_inv_def]
  have "{..<Suc i} - set (ba_at b @ [i]) = {..<i} - set (ba_at b)" by auto
  moreover have "batched locs (l_Driver loc) (l_Store loc) j" if "j \<in> set (ba_at b @ [i])" for j
  proof (cases "j = i")
    case True
    with assms(2-5) show ?thesis by (simp add: batched_def)
  next
    case False
    with that inv have "ba_batched b" "batched locs (ba_driver b) (ba_store b) j" by auto
    with assms(6) show ?thesis by simp
  qed
  ultimately show ?thesis using inv assms(3) by (simp add: scan_inv_def) auto
qed

lemma scan_locs_inv:
  assumes "scan_inv l locs i b" and "i + length ls = length locs" and "ls = drop i locs"
  shows "case scan_locs l i ls b of
           Panics \<Rightarrow> \<exists>x \<in> set locs. loader_Load l x = Panics
         | Done b' \<Rightarrow> scan_inv l locs (length locs) b'"
  using assms
proof (induction ls arbitrary: i b)
  case (Cons ol ls)
  from Cons.prems(2) have "i < length locs" by simp
  then have i: "i < length locs" "locs ! i = ol" "ls = drop (Suc i) locs"
    using Cons_nth_drop_Suc [of i locs] Cons.prems(3) by (metis list.inject)+
  have alone: "case (case set_out i (loader_Load l ol) b of
                 Panics \<Rightarrow> Panics | Done b' \<Rightarrow> scan_locs l (Suc i) ls b') of
           Panics \<Rightarrow> \<exists>x \<in> set locs. loader_Load l x = Panics
         | Done b' \<Rightarrow> scan_inv l locs (length locs) b'"
  proof (cases "loader_Load l ol")
    case Panics
    with i show ?thesis by (auto simp: set_out_def)
  next
    case (Done x)
    with Cons.IH [OF scan_alone [OF Cons.prems(1)]] Cons.prems(2) i show ?thesis
      by (simp add: set_out_def)
  qed
  show ?case
  proof (cases "\<exists>loc. ol = Some loc \<and> l_Unavailable loc = [] \<and> l_Driver loc \<noteq> [] \<and>
      (ba_batched b \<longrightarrow> l_Driver loc = ba_driver b \<and> l_Store loc = ba_store b)")
    case True
    then obtain loc where loc: "ol = Some loc" "l_Unavailable loc = []" "l_Driver loc \<noteq> []"
      "ba_batched b \<longrightarrow> l_Driver loc = ba_driver b \<and> l_Store loc = ba_store b" by blast
    with Cons.IH [OF scan_batch [OF Cons.prems(1) i(1)]] Cons.prems(2) i show ?thesis
      by (auto simp: Let_def)
  next
    case False
    with alone show ?thesis by (auto simp: Let_def split: option.splits)
  qed
qed (auto simp: scan_inv_def ok_out_def)

lemma Load_batched:
  assumes "batched locs ''redis'' store i" and "ld_store l = Some (redis_store c)"
  shows "loader_Load l (locs ! i) =
    (case rc_Get c (l_Key (the (locs ! i))) of
       None \<Rightarrow> Done (faulty unavailableStoreError)
     | Some raw \<Rightarrow> loader_finish l (the (locs ! i)) raw)"
  using assms by (auto simp: batched_def loader_Load_def redis_store_def redis_Get_def split: option.splits)

lemma finish_at_ok:
  assumes "ld_store l = Some (redis_store c)" and "ok_out l locs S out"
    and "\<forall>i \<in> set is. batched locs ''redis'' store i" and "{..<length locs} \<subseteq> S \<union> set is"
    and "raws = map (\<lambda>i. rc_Get c (l_Key (the (locs ! i)))) is"
  shows "finish_at l locs is raws out = mapP (loader_Load l) locs"
  using assms
proof (induction "is" arbitrary: S out raws)
  case Nil
  then show ?case by (simp add: ok_out_all)
next
  case (Cons i "is")
  then have b: "batched locs ''redis'' store i" by simp
  then obtain loc where loc: "locs ! i = Some loc" "locs ! i \<in> set locs"
    by (auto simp: batched_def) (metis nth_mem)
  note load = Load_batched [OF b Cons.prems(1)]
  show ?case
  proof (cases "loader_Load l (locs ! i)")
    case Panics
    with load loc Cons.prems(5) show ?thesis
      by (simp add: mapP_Panics split: option.splits)
  next
    case (Done x)
    from Cons.IH [OF Cons.prems(1) ok_out_upd [OF Cons.prems(2) Done]] Cons.prems(3,4)
    have "finish_at l locs is (map (\<lambda>i. rc_Get c (l_Key (the (locs ! i)))) is) (out[i := x]) =
        mapP (loader_Load l) locs" by auto
    with load Done loc Cons.prems(5) show ?thesis by (simp split: option.splits)
  qed
qed

lemma unknown_at_ok:
  assumes "ld_store l = Some (redis_store c)" and "ok_out l locs S out"
    and "\<forall>i \<in> set is. batched locs driver store i" and "driver \<noteq> ''redis''"
    and "{..<length locs} \<subseteq> S \<union> set is"
  shows "Done (foldl (\<lambda>out i. out[i := faulty unavailableUnknownDrv]) out is) =
    mapP (loader_Load l) locs"
  using assms
proof (induction "is" arbitrary: S out)
  case Nil
  then show ?case by (simp add: ok_out_all)
next
  case (Cons i "is")
  then have "loader_Load l (locs ! i) = Done (faulty unavailableUnknownDrv)"
    by (auto simp: batched_def loader_Load_def redis_store_def redis_Get_def)
  from Cons.IH [OF Cons.prems(1) ok_out_upd [OF Cons.prems(2) this]] Cons.prems show ?case by auto
qed

subsection \<open>Properties\<close>

text \<open>What the code relies on from a reachable Redis: \<open>MGET\<close> answers what \<open>GET\<close> answers key by key.\<close>

definition redis_consistent :: "redis_client \<Rightarrow> bool" where
  "redis_consistent c \<longleftrightarrow> (\<forall>ks. rc_MGet c ks = Some (map (rc_Get c) ks))"

text \<open>
  C35.  The batched load is an optimisation only: with a Redis that answers \<open>MGET\<close> as it answers
  \<open>GET\<close>, \<open>LoadMany\<close> returns what loading every object alone returns, in the same places.
\<close>

theorem LoadMany_eq_Load:
  assumes "ld_store l = Some (redis_store c)" and "redis_consistent c"
  shows "LoadMany l locs = mapP (loader_Load l) locs"
proof -
  let ?b0 = "\<lparr>ba_out = replicate (length locs) no_body, ba_keys = [], ba_at = [], ba_driver = [],
    ba_store = [], ba_batched = False\<rparr>"
  have "scan_inv l locs 0 ?b0" by (simp add: scan_inv_def ok_out_def)
  from scan_locs_inv [OF this, of locs] have scan: "case scan_locs l 0 locs ?b0 of
      Panics \<Rightarrow> \<exists>x \<in> set locs. loader_Load l x = Panics
    | Done b' \<Rightarrow> scan_inv l locs (length locs) b'" by simp
  have many: "bs_GetMany (redis_store c) = Some (redis_GetMany c)" by (simp add: redis_store_def)
  show ?thesis
  proof (cases "scan_locs l 0 locs ?b0")
    case Panics
    with scan assms(1) many show ?thesis by (auto simp: LoadMany_def Let_def mapP_Panics)
  next
    case (Done b)
    with scan have inv: "scan_inv l locs (length locs) b" by simp
    then have ok: "ok_out l locs ({..<length locs} - set (ba_at b)) (ba_out b)"
      and bat: "\<forall>j \<in> set (ba_at b). batched locs (ba_driver b) (ba_store b) j"
      and keys: "ba_keys b = map (\<lambda>j. l_Key (the (locs ! j))) (ba_at b)"
      and at: "set (ba_at b) \<subseteq> {..<length locs}"
      by (simp_all add: scan_inv_def)
    have cover: "{..<length locs} \<subseteq> {..<length locs} - set (ba_at b) \<union> set (ba_at b)" by auto
    consider (few) "length (ba_keys b) < 2"
      | (unknown) "2 \<le> length (ba_keys b)" "ba_driver b \<noteq> ''redis''"
      | (redis) "2 \<le> length (ba_keys b)" "ba_driver b = ''redis''" by linarith
    then show ?thesis
    proof cases
      case few
      with Done assms(1) many load_at_ok [OF ok cover at] show ?thesis by (simp add: LoadMany_def)
    next
      case unknown
      with Done assms(1) many unknown_at_ok [OF assms(1) ok bat unknown(2) cover] show ?thesis
        by (simp add: LoadMany_def redis_GetMany_def)
    next
      case redis
      have "redis_GetMany c ''redis'' (ba_store b) (ba_keys b) =
          Inr (map (\<lambda>i. rc_Get c (l_Key (the (locs ! i)))) (ba_at b))"
        using redis assms(2) keys by (auto simp: redis_GetMany_def redis_consistent_def)
      with Done assms(1) many redis
        finish_at_ok [OF assms(1) ok _ cover refl, of "ba_store b"] bat
      show ?thesis by (simp add: LoadMany_def)
    qed
  qed
qed

text \<open>
  Objects are authentic: when \<open>Load\<close> returns data that is available, the digest it reports is
  the SHA-256 of that data, and it is the digest the request announced (of the processed object
  when there is one, and unless the object was truncated).
\<close>

theorem Load_digest:
  assumes "loader_Load l (Some loc) = Done b" and "Available b" and "l_Driver loc \<noteq> []"
  shows "bd_SHA256 b = hex_encode (sha256 (bd_Data b)) \<and>
         (l_ProcessedSHA256 loc \<noteq> [] \<longrightarrow> bd_SHA256 b = l_ProcessedSHA256 loc) \<and>
         (l_ProcessedSHA256 loc = [] \<and> \<not> l_Truncated loc \<and> l_SHA256 loc \<noteq> [] \<longrightarrow>
            bd_SHA256 b = l_SHA256 loc)"
proof -
  have "\<not> Available (faulty why) \<or> why = []" for why by (simp add: Available_def faulty_def)
  with assms obtain raw where b: "b = check_digest loc raw"
    by (auto simp: loader_Load_def loader_finish_def Available_def no_body_def faulty_def
        split: if_splits option.splits sum.splits store_err.splits may_panic.splits)
  with assms(2) have "want_digest loc = [] \<or> want_digest loc = hex_encode (sha256 raw)"
    and "bd_Data b = raw" "bd_SHA256 b = hex_encode (sha256 raw)"
    by (auto simp: check_digest_def Let_def Available_def faulty_def split: if_splits)
  then show ?thesis by (auto simp: want_digest_def split: if_splits)
qed

text \<open>Without a source of keys an encrypted object is an error and nothing panics.\<close>

lemma Load_no_panic: "ld_keys l = None \<Longrightarrow> loader_Load l oloc \<noteq> Panics"
  by (auto simp: loader_Load_def loader_finish_def decrypt_def
      split: option.splits sum.splits store_err.splits)

subsection \<open>Witnesses\<close>

definition demo_client :: redis_client where
  "demo_client = (let m = [''h'' \<mapsto> ''[]'', ''a'' \<mapsto> ''x=1'']
     in \<lparr>rc_Get = m, rc_MGet = (\<lambda>ks. Some (map m ks))\<rparr>)"

definition demo_loader :: loader where
  "demo_loader = \<lparr>ld_store = Some (redis_store demo_client), ld_keys = None, ld_gcm = (\<lambda>_ _ _. None)\<rparr>"

definition placed_at :: "string \<Rightarrow> locator" where
  "placed_at key =
     \<lparr>l_Store = [], l_Driver = ''redis'', l_Key = key, l_Unavailable = [], l_Size = 0,
      l_DeclaredSize = 0, l_SHA256 = [], l_ProcessedSHA256 = [], l_Transformed = False,
      l_Complete = True, l_Truncated = False, l_Encoding = [], l_ExpiresAt = 0, l_Hint = [],
      l_Enc = None\<rparr>"

theorem LoadMany_eq_Load_witness:
  "LoadMany demo_loader [Some (placed_at ''h''), Some (placed_at ''missing'')] =
     mapP (loader_Load demo_loader) [Some (placed_at ''h''), Some (placed_at ''missing'')]"
  by (rule LoadMany_eq_Load [of _ demo_client])
    (simp_all add: demo_loader_def redis_consistent_def demo_client_def Let_def)

theorem Load_digest_witness:
  "\<exists>b. loader_Load demo_loader (Some (placed_at ''a'')) = Done b \<and>
       bd_SHA256 b = hex_encode (sha256 ''x=1'')"
proof -
  have "loader_Load demo_loader (Some (placed_at ''a'')) = Done (check_digest (placed_at ''a'') ''x=1'')"
    by (simp add: loader_Load_def demo_loader_def placed_at_def redis_store_def redis_Get_def
        demo_client_def loader_finish_def Let_def)
  moreover have "Available (check_digest (placed_at ''a'') ''x=1'')"
    "bd_Data (check_digest (placed_at ''a'') ''x=1'') = ''x=1''" "l_Driver (placed_at ''a'') \<noteq> []"
    by (simp_all add: check_digest_def want_digest_def placed_at_def Available_def Let_def)
  ultimately show ?thesis
    using Load_digest [of demo_loader "placed_at ''a''"] by auto
qed

end
