(* ===== verification/Source.thy ===== *)
theory Source
  imports Body Cookie
begin

text \<open>
  The data of one request (\<^verbatim>\<open>cmd/inspector/source.go\<close>): headers, cookies and arguments are
  loaded when first asked for and kept.  The environment of a source holds what it reads from
  outside: the loaded objects, the JSON decoder of the header block, and the order in which Go
  happens to iterate over the map of standard headers.
\<close>

subsection \<open>Data\<close>

definition stdHeaders :: "(string \<times> string) list" where
  "stdHeaders =
     [(''user_agent'', ''user_agent''), (''referer'', ''referer''), (''x_forwarded_for'', ''xff''),
      (''accept_language'', ''accept_language''), (''origin'', ''origin''),
      (''content_type'', ''content_type''), (''accept'', ''accept'')]"

text \<open>A source loads its headers once and its arguments once: one answer for each.\<close>

record source_env =
  en_uni :: unicode
  en_load :: "locator \<Rightarrow> body"
  en_pairs :: "string \<Rightarrow> header list option"
  en_order :: "(string \<times> string) list"

record source =
  sr_req :: request
  sr_headers :: "pair list"
  sr_headersOK :: bool
  sr_headersDone :: bool
  sr_cookies :: "pair list"
  sr_cookiesDone :: bool
  sr_cookiesOK :: bool
  sr_args :: "pair list"
  sr_argsOK :: bool
  sr_argsDone :: bool
  sr_raw :: string
  sr_rawOK :: bool
  sr_rawDone :: bool
  sr_Fault :: bool
  sr_Why :: string

definition newSource :: "request \<Rightarrow> source" where
  "newSource req =
     \<lparr>sr_req = req, sr_headers = [], sr_headersOK = False, sr_headersDone = False, sr_cookies = [],
      sr_cookiesDone = False, sr_cookiesOK = False, sr_args = [], sr_argsOK = False,
      sr_argsDone = False, sr_raw = [], sr_rawOK = False, sr_rawDone = False, sr_Fault = False,
      sr_Why = []\<rparr>"

definition request_store :: "request \<Rightarrow> store" where
  "request_store req =
     (case rq_RequestStore req of
        None \<Rightarrow> rq_Store req
      | Some st \<Rightarrow> if rq_Phase req = PhaseRequest then rq_Store req else st)"

definition source_store :: "source \<Rightarrow> store" where
  "source_store s = request_store (sr_req s)"

definition HeadersPlaced :: "source \<Rightarrow> bool" where
  "HeadersPlaced s \<longleftrightarrow> s_Headers (source_store s) \<noteq> None"

subsection \<open>Arguments\<close>

definition hex_val :: "char \<Rightarrow> nat" where
  "hex_val c =
     (if isDigit c then byte_of c - 48 else if isLower c then byte_of c - 87 else byte_of c - 55)"

text \<open>\<open>url.QueryUnescape\<close>: \<open>None\<close> for a percent sign without two hexadecimal digits.\<close>

fun QueryUnescape :: "string \<Rightarrow> string option" where
  "QueryUnescape [] = Some []"
| "QueryUnescape (c # s) =
     (if c = CHR ''%'' then
        (case s of
           a # b # r \<Rightarrow>
             if hexdigit a \<and> hexdigit b
             then map_option ((#) (chr (16 * hex_val a + hex_val b))) (QueryUnescape r) else None
         | _ \<Rightarrow> None)
      else if c = CHR ''+'' then map_option ((#) (CHR '' '')) (QueryUnescape s)
      else map_option ((#) c) (QueryUnescape s))"

definition unescaped :: "string \<Rightarrow> string" where
  "unescaped s = (case QueryUnescape s of None \<Rightarrow> s | Some t \<Rightarrow> t)"

definition arg_pairs :: "string \<Rightarrow> pair list" where
  "arg_pairs raw =
     concat (map (\<lambda>item.
       if item = [] then []
       else (case Cut item (CHR ''='') of (name, value, found) \<Rightarrow>
               if unescaped name = [] then [] else [(unescaped name, unescaped value)]))
       (Split raw (CHR ''&'')))"

definition rawArgs :: "source_env \<Rightarrow> source \<Rightarrow> (string \<times> bool) \<times> source" where
  "rawArgs e s =
     (if sr_rawDone s then ((sr_raw s, sr_rawOK s), s)
      else (let s1 = s\<lparr>sr_rawDone := True\<rparr>
            in if h_ArgsSize (rq_HTTP (sr_req s)) = 0 then (([], True), s1\<lparr>sr_rawOK := True\<rparr>)
               else case s_Args (source_store s) of
                 None \<Rightarrow> (([], False), s1)
               | Some loc \<Rightarrow>
                   (let b = en_load e loc
                    in if Failed b then
                         (([], False), s1\<lparr>sr_Fault := True, sr_Why := ''args: '' @ bd_Unavailable b\<rparr>)
                       else if \<not> Available b then (([], False), s1)
                       else ((bd_Data b, True), s1\<lparr>sr_raw := bd_Data b, sr_rawOK := True\<rparr>))))"

definition source_Args :: "source_env \<Rightarrow> source \<Rightarrow> (pair list \<times> bool) \<times> source" where
  "source_Args e s =
     (if sr_argsDone s then ((sr_args s, sr_argsOK s), s)
      else (case rawArgs e (s\<lparr>sr_argsDone := True\<rparr>) of ((raw, ok), s1) \<Rightarrow>
              if \<not> ok then (([], False), s1)
              else ((arg_pairs raw, True), s1\<lparr>sr_argsOK := True, sr_args := arg_pairs raw\<rparr>)))"

subsection \<open>Headers and cookies\<close>

definition varsAsHeaders :: "source_env \<Rightarrow> request \<Rightarrow> pair list \<times> bool" where
  "varsAsHeaders e req =
     (case rq_Vars req of
        None \<Rightarrow> ([], False)
      | Some vars \<Rightarrow>
          (concat (map (\<lambda>(header, field).
             case vars field of Some v \<Rightarrow> if v \<noteq> [] then [(header, v)] else [] | None \<Rightarrow> [])
             (en_order e)), True))"

definition source_Headers :: "source_env \<Rightarrow> source \<Rightarrow> (pair list \<times> bool) \<times> source" where
  "source_Headers e s =
     (if sr_headersDone s then ((sr_headers s, sr_headersOK s), s)
      else (let s1 = s\<lparr>sr_headersDone := True\<rparr>
            in case s_Headers (source_store s) of
                 None \<Rightarrow>
                   (let r = varsAsHeaders e (sr_req s)
                    in (r, s1\<lparr>sr_headers := fst r, sr_headersOK := snd r\<rparr>))
               | Some loc \<Rightarrow>
                   (let b = en_load e loc
                    in if Failed b then
                         (([], False), s1\<lparr>sr_Fault := True, sr_Why := ''headers: '' @ bd_Unavailable b\<rparr>)
                       else if \<not> Available b \<or> length (bd_Data b) = 0 then (([], False), s1)
                       else case en_pairs e (bd_Data b) of
                         None \<Rightarrow>
                           (([], False), s1\<lparr>sr_Fault := True,
                              sr_Why := ''headers: blob is not an array of pairs''\<rparr>)
                       | Some pairs \<Rightarrow>
                           ((pairs, True), s1\<lparr>sr_headers := pairs, sr_headersOK := True\<rparr>))))"

definition unquoted :: "string \<Rightarrow> string" where
  "unquoted v =
     (if length v \<ge> 2 \<and> v ! 0 = quote_char \<and> v ! (length v - 1) = quote_char
      then take (length v - 2) (drop 1 v) else v)"

definition cookie_item :: "string \<Rightarrow> pair list" where
  "cookie_item item =
     (case Cut item (CHR ''='') of (name, value, found) \<Rightarrow>
        if \<not> found then []
        else if TrimSpace name = [] then []
        else [(TrimSpace name, unquoted (TrimSpace value))])"

definition cookie_pairs :: "unicode \<Rightarrow> pair list \<Rightarrow> pair list" where
  "cookie_pairs u headers =
     concat (map (\<lambda>(name, value).
       if \<not> EqualFold u name ''cookie'' then []
       else concat (map cookie_item (Split value (CHR '';'')))) headers)"

definition source_Cookies :: "source_env \<Rightarrow> source \<Rightarrow> (pair list \<times> bool) \<times> source" where
  "source_Cookies e s =
     (if sr_cookiesDone s then ((sr_cookies s, sr_cookiesOK s), s)
      else (case source_Headers e (s\<lparr>sr_cookiesDone := True\<rparr>) of ((headers, ok), s1) \<Rightarrow>
              if \<not> ok then (([], False), s1)
              else (let cs = cookie_pairs (en_uni e) headers
                    in ((cs, True), s1\<lparr>sr_cookiesOK := True, sr_cookies := cs\<rparr>))))"

subsection \<open>Fields and variables\<close>

definition source_Field :: "source_env \<Rightarrow> string \<Rightarrow> source \<Rightarrow> string \<times> source" where
  "source_Field e name s =
     (let h = rq_HTTP (sr_req s)
      in if name = ''uri'' then (h_URI h, s)
         else if name = ''request_uri'' then
           (if h_ArgsSize h = 0 then (h_URI h, s)
            else (case rawArgs e s of ((raw, ok), s1) \<Rightarrow>
                    (if ok \<and> raw \<noteq> [] then h_URI h @ ''?'' @ raw else h_URI h, s1)))
         else if name = ''host'' then (h_Host h, s)
         else if name = ''request_method'' then (h_Method h, s)
         else if name = ''scheme'' then (h_Scheme h, s)
         else if name = ''remote_addr'' then (cn_ClientIP (rq_Conn (sr_req s)), s)
         else ([], s))"

definition source_Var :: "string \<Rightarrow> source \<Rightarrow> (string \<times> bool) \<times> source" where
  "source_Var name s =
     (case rq_Vars (sr_req s) of
        None \<Rightarrow> (([], False), s)
      | Some vars \<Rightarrow> ((case vars name of None \<Rightarrow> ([], False) | Some v \<Rightarrow> (v, True)), s))"

definition request_ops :: "source_env \<Rightarrow> source source_ops" where
  "request_ops e =
     \<lparr>src_Field = source_Field e, src_Var = source_Var, src_Headers = source_Headers e,
      src_Cookies = source_Cookies e, src_Args = source_Args e\<rparr>"

subsection \<open>What the cache stands for\<close>

definition fresh :: "source \<Rightarrow> source" where
  "fresh s = newSource (sr_req s)"

definition src_view :: "source_env \<Rightarrow> source \<Rightarrow> view" where
  "src_view e s =
     \<lparr>v_Field = (\<lambda>n. fst (source_Field e n (fresh s))), v_Var = (\<lambda>n. fst (source_Var n (fresh s))),
      v_Headers = fst (source_Headers e (fresh s)), v_Cookies = fst (source_Cookies e (fresh s)),
      v_Args = fst (source_Args e (fresh s))\<rparr>"

definition inv_raw :: "source_env \<Rightarrow> source \<Rightarrow> bool" where
  "inv_raw e s \<longleftrightarrow>
     (sr_raw s, sr_rawOK s) = (if sr_rawDone s then fst (rawArgs e (fresh s)) else ([], False))"

definition inv_headers :: "source_env \<Rightarrow> source \<Rightarrow> bool" where
  "inv_headers e s \<longleftrightarrow>
     (sr_headers s, sr_headersOK s) =
       (if sr_headersDone s then fst (source_Headers e (fresh s)) else ([], False))"

definition inv_cookies :: "source_env \<Rightarrow> source \<Rightarrow> bool" where
  "inv_cookies e s \<longleftrightarrow>
     (sr_cookies s, sr_cookiesOK s) =
       (if sr_cookiesDone s then fst (source_Cookies e (fresh s)) else ([], False))"

definition inv_args :: "source_env \<Rightarrow> source \<Rightarrow> bool" where
  "inv_args e s \<longleftrightarrow>
     (sr_args s, sr_argsOK s) =
       (if sr_argsDone s then fst (source_Args e (fresh s)) else ([], False))"

definition src_inv :: "source_env \<Rightarrow> source \<Rightarrow> bool" where
  "src_inv e s \<longleftrightarrow> inv_raw e s \<and> inv_headers e s \<and> inv_cookies e s \<and> inv_args e s"

lemmas src_inv_defs = src_inv_def inv_raw_def inv_headers_def inv_cookies_def inv_args_def

lemma fresh_req [simp]: "sr_req (fresh s) = sr_req s" "source_store (fresh s) = source_store s"
  by (simp_all add: fresh_def newSource_def source_store_def)

lemma fresh_flags [simp]:
  "\<not> sr_rawDone (fresh s)" "\<not> sr_headersDone (fresh s)" "\<not> sr_cookiesDone (fresh s)"
  "\<not> sr_argsDone (fresh s)"
  by (simp_all add: fresh_def newSource_def)

lemma fresh_cong: "sr_req s = sr_req t \<Longrightarrow> fresh s = fresh t"
  by (simp add: fresh_def)

lemma newSource_inv: "src_inv e (newSource req)"
  by (simp add: src_inv_defs newSource_def)

text \<open>Each query returns what a fresh source returns and changes its own fields only.\<close>

lemma rawArgs_step:
  assumes "inv_raw e s"
  shows "\<exists>f w. rawArgs e s =
    (fst (rawArgs e (fresh s)),
     s\<lparr>sr_rawDone := True, sr_raw := fst (fst (rawArgs e (fresh s))),
       sr_rawOK := snd (fst (rawArgs e (fresh s))), sr_Fault := f, sr_Why := w\<rparr>)"
proof (cases "sr_rawDone s")
  case True
  with assms have r: "fst (rawArgs e (fresh s)) = (sr_raw s, sr_rawOK s)" by (simp add: inv_raw_def)
  show ?thesis
    unfolding r using True
    by (intro exI [of _ "sr_Fault s"] exI [of _ "sr_Why s"]) (cases s, simp add: rawArgs_def)
next
  case False
  with assms show ?thesis
    by (intro exI [of _ "sr_Fault (snd (rawArgs e s))"] exI [of _ "sr_Why (snd (rawArgs e s))"],
        cases s)
      (auto simp: inv_raw_def rawArgs_def Let_def source_store_def fresh_def newSource_def
        split: option.splits)
qed

lemma source_Headers_step:
  assumes "inv_headers e s"
  shows "\<exists>f w. source_Headers e s =
    (fst (source_Headers e (fresh s)),
     s\<lparr>sr_headersDone := True, sr_headers := fst (fst (source_Headers e (fresh s))),
       sr_headersOK := snd (fst (source_Headers e (fresh s))), sr_Fault := f, sr_Why := w\<rparr>)"
proof (cases "sr_headersDone s")
  case True
  with assms have r: "fst (source_Headers e (fresh s)) = (sr_headers s, sr_headersOK s)"
    by (simp add: inv_headers_def)
  show ?thesis
    unfolding r using True
    by (intro exI [of _ "sr_Fault s"] exI [of _ "sr_Why s"]) (cases s, simp add: source_Headers_def)
next
  case False
  with assms show ?thesis
    by (intro exI [of _ "sr_Fault (snd (source_Headers e s))"]
          exI [of _ "sr_Why (snd (source_Headers e s))"], cases s)
      (auto simp: inv_headers_def source_Headers_def Let_def source_store_def fresh_def newSource_def
        split: option.splits)
qed

lemma fresh_upd [simp]:
  "fresh (fresh s) = fresh s"
  "fresh (s\<lparr>sr_cookiesDone := b\<rparr>) = fresh s" "fresh (s\<lparr>sr_argsDone := b\<rparr>) = fresh s"
  "fresh (s\<lparr>sr_rawDone := b, sr_raw := r, sr_rawOK := k, sr_Fault := f, sr_Why := w\<rparr>) = fresh s"
  "fresh (s\<lparr>sr_headersDone := b, sr_headers := hs, sr_headersOK := k, sr_Fault := f, sr_Why := w\<rparr>) = fresh s"
  by (simp_all add: fresh_def newSource_def)

lemma source_Cookies_fresh:
  "fst (source_Cookies e (fresh s)) =
     (let r = fst (source_Headers e (fresh s))
      in if snd r then (cookie_pairs (en_uni e) (fst r), True) else ([], False))"
proof -
  have "inv_headers e ((fresh s)\<lparr>sr_cookiesDone := True\<rparr>)"
    by (simp add: inv_headers_def fresh_def newSource_def)
  from source_Headers_step [OF this] have
    "fst (source_Headers e ((fresh s)\<lparr>sr_cookiesDone := True\<rparr>)) = fst (source_Headers e (fresh s))"
    by auto
  then show ?thesis by (simp add: source_Cookies_def Let_def case_prod_beta)
qed

lemma rawArgs_keeps:
  assumes "src_inv e s" and "rawArgs e s = (r, s')"
  shows "r = fst (rawArgs e (fresh s)) \<and> src_inv e s' \<and> sr_req s' = sr_req s"
proof -
  from rawArgs_step [of e s] assms obtain f w where r: "r = fst (rawArgs e (fresh s))"
    and s': "s' = s\<lparr>sr_rawDone := True, sr_raw := fst r, sr_rawOK := snd r, sr_Fault := f, sr_Why := w\<rparr>"
    by (auto simp: src_inv_def)
  with assms(1) show ?thesis by (simp add: src_inv_defs)
qed

lemma source_Headers_keeps:
  assumes "src_inv e s" and "source_Headers e s = (r, s')"
  shows "r = fst (source_Headers e (fresh s)) \<and> src_inv e s' \<and> sr_req s' = sr_req s"
proof -
  from source_Headers_step [of e s] assms obtain f w where r: "r = fst (source_Headers e (fresh s))"
    and s': "s' = s\<lparr>sr_headersDone := True, sr_headers := fst r, sr_headersOK := snd r, sr_Fault := f,
      sr_Why := w\<rparr>"
    by (auto simp: src_inv_def)
  with assms(1) show ?thesis by (simp add: src_inv_defs)
qed

lemma source_Cookies_keeps:
  assumes "src_inv e s" and "source_Cookies e s = (r, s')"
  shows "r = fst (source_Cookies e (fresh s)) \<and> src_inv e s' \<and> sr_req s' = sr_req s"
proof (cases "sr_cookiesDone s")
  case True
  with assms show ?thesis by (auto simp: src_inv_def inv_cookies_def source_Cookies_def [of e s])
next
  case False
  let ?s1 = "s\<lparr>sr_cookiesDone := True\<rparr>" and ?h = "fst (source_Headers e (fresh s))"
  from assms(1) have inv: "inv_headers e ?s1" "sr_cookies s = []" "\<not> sr_cookiesOK s"
    using False by (auto simp: src_inv_def inv_headers_def inv_cookies_def)
  from source_Headers_step [OF inv(1)] obtain f w where
    h: "source_Headers e ?s1 = (?h, ?s1\<lparr>sr_headersDone := True, sr_headers := fst ?h,
       sr_headersOK := snd ?h, sr_Fault := f, sr_Why := w\<rparr>)"
    by auto
  let ?s2 = "?s1\<lparr>sr_headersDone := True, sr_headers := fst ?h, sr_headersOK := snd ?h, sr_Fault := f,
    sr_Why := w\<rparr>"
  note c = source_Cookies_fresh [of e s]
  show ?thesis
  proof (cases "snd ?h")
    case True
    let ?cs = "cookie_pairs (en_uni e) (fst ?h)"
    from True False h assms(2) have "r = (?cs, True)" "s' = ?s2\<lparr>sr_cookiesOK := True, sr_cookies := ?cs\<rparr>"
      by (simp_all add: source_Cookies_def [of e s] Let_def case_prod_beta)
    with True c assms(1) show ?thesis by (simp add: src_inv_defs fresh_def Let_def prod_eq_iff)
  next
    case no: False
    from no False h assms(2) have "r = ([], False)" "s' = ?s2"
      by (simp_all add: source_Cookies_def [of e s] case_prod_beta)
    with no c assms(1) inv(2,3) show ?thesis by (simp add: src_inv_defs fresh_def Let_def prod_eq_iff)
  qed
qed

lemma source_Args_fresh:
  "fst (source_Args e (fresh s)) =
     (let r = fst (rawArgs e (fresh s)) in if snd r then (arg_pairs (fst r), True) else ([], False))"
proof -
  have "inv_raw e ((fresh s)\<lparr>sr_argsDone := True\<rparr>)"
    by (simp add: inv_raw_def fresh_def newSource_def)
  from rawArgs_step [OF this] have
    "fst (rawArgs e ((fresh s)\<lparr>sr_argsDone := True\<rparr>)) = fst (rawArgs e (fresh s))"
    by auto
  then show ?thesis by (simp add: source_Args_def Let_def case_prod_beta)
qed

lemma source_Args_keeps:
  assumes "src_inv e s" and "source_Args e s = (r, s')"
  shows "r = fst (source_Args e (fresh s)) \<and> src_inv e s' \<and> sr_req s' = sr_req s"
proof (cases "sr_argsDone s")
  case True
  with assms show ?thesis by (auto simp: src_inv_def inv_args_def source_Args_def [of e s])
next
  case False
  let ?s1 = "s\<lparr>sr_argsDone := True\<rparr>" and ?h = "fst (rawArgs e (fresh s))"
  from assms(1) have inv: "inv_raw e ?s1" "sr_args s = []" "\<not> sr_argsOK s"
    using False by (auto simp: src_inv_def inv_raw_def inv_args_def)
  from rawArgs_step [OF inv(1)] obtain f w where
    h: "rawArgs e ?s1 = (?h, ?s1\<lparr>sr_rawDone := True, sr_raw := fst ?h, sr_rawOK := snd ?h,
       sr_Fault := f, sr_Why := w\<rparr>)"
    by auto
  let ?s2 = "?s1\<lparr>sr_rawDone := True, sr_raw := fst ?h, sr_rawOK := snd ?h, sr_Fault := f, sr_Why := w\<rparr>"
  note c = source_Args_fresh [of e s]
  show ?thesis
  proof (cases "snd ?h")
    case True
    let ?cs = "arg_pairs (fst ?h)"
    from True False h assms(2) have "r = (?cs, True)" "s' = ?s2\<lparr>sr_argsOK := True, sr_args := ?cs\<rparr>"
      by (simp_all add: source_Args_def [of e s] case_prod_beta)
    with True c assms(1) show ?thesis by (simp add: src_inv_defs fresh_def Let_def prod_eq_iff)
  next
    case no: False
    from no False h assms(2) have "r = ([], False)" "s' = ?s2"
      by (simp_all add: source_Args_def [of e s] case_prod_beta)
    with no c assms(1) inv(2,3) show ?thesis by (simp add: src_inv_defs fresh_def Let_def prod_eq_iff)
  qed
qed

lemma source_Field_keeps:
  assumes "src_inv e s" and "source_Field e n s = (r, s')"
  shows "r = fst (source_Field e n (fresh s)) \<and> src_inv e s' \<and> sr_req s' = sr_req s"
  using assms rawArgs_keeps [OF assms(1)]
  by (auto simp: source_Field_def Let_def split: if_splits prod.splits)

lemma src_view_cong: "sr_req s' = sr_req s \<Longrightarrow> src_view e s' = src_view e s"
  by (simp add: src_view_def fresh_def)

text \<open>The caching source keeps the contract of a source of request data.\<close>

interpretation request_source: source_interface "request_ops e" "src_inv e" "src_view e" for e
proof
  fix s n x s' assume "src_inv e s" "src_Field (request_ops e) n s = (x, s')"
  then show "x = v_Field (src_view e s) n \<and> src_inv e s' \<and> src_view e s' = src_view e s"
    using source_Field_keeps [of e s n x s'] src_view_cong [of s' s e]
    by (simp add: request_ops_def) (simp add: src_view_def)
next
  fix s n y s' assume "src_inv e s" "src_Var (request_ops e) n s = (y, s')"
  then show "y = v_Var (src_view e s) n \<and> src_inv e s' \<and> src_view e s' = src_view e s"
    by (auto simp: request_ops_def source_Var_def src_view_def split: option.splits)
next
  fix s r s' assume "src_inv e s" "src_Headers (request_ops e) s = (r, s')"
  then show "r = v_Headers (src_view e s) \<and> src_inv e s' \<and> src_view e s' = src_view e s"
    using source_Headers_keeps [of e s r s'] src_view_cong [of s' s e]
    by (simp add: request_ops_def) (simp add: src_view_def)
next
  fix s r s' assume "src_inv e s" "src_Cookies (request_ops e) s = (r, s')"
  then show "r = v_Cookies (src_view e s) \<and> src_inv e s' \<and> src_view e s' = src_view e s"
    using source_Cookies_keeps [of e s r s'] src_view_cong [of s' s e]
    by (simp add: request_ops_def) (simp add: src_view_def)
next
  fix s r s' assume "src_inv e s" "src_Args (request_ops e) s = (r, s')"
  then show "r = v_Args (src_view e s) \<and> src_inv e s' \<and> src_view e s' = src_view e s"
    using source_Args_keeps [of e s r s'] src_view_cong [of s' s e]
    by (simp add: request_ops_def) (simp add: src_view_def)
qed

subsection \<open>Cookie headers\<close>

text \<open>The header a client sends back: its cookies joined by a semicolon and a space.\<close>

fun render_cookies :: "pair list \<Rightarrow> string" where
  "render_cookies [] = []"
| "render_cookies [(n, v)] = n @ ''='' @ v"
| "render_cookies ((n, v) # ps) = n @ ''='' @ v @ ''; '' @ render_cookies ps"

definition value_char :: "char \<Rightarrow> bool" where
  "value_char c \<longleftrightarrow> tag_char c \<or> c = CHR ''~'' \<or> c = CHR ''.''"

definition plain_pair :: "pair \<Rightarrow> bool" where
  "plain_pair p \<longleftrightarrow> cookieNameRe (fst p) \<and> list_all value_char (snd p)"

lemma value_char_solid: "value_char c \<Longrightarrow> solid c"
  by (auto simp: value_char_def tag_char_def solid_def char_class_defs)

lemma value_char_not: "\<not> value_char (CHR '';'')" "\<not> value_char (CHR ''='')" "\<not> value_char quote_char"
  by (simp_all add: value_char_def tag_char_def char_class_defs quote_char_def)

lemma name_char_value: "name_char c \<Longrightarrow> value_char c"
  by (auto simp: name_char_def value_char_def tag_char_def isAlnum_def)

lemma plain_pairD:
  assumes "plain_pair (n, v)"
  shows "n \<noteq> []" "list_all value_char n" "list_all value_char v"
    "CHR '';'' \<notin> set (n @ ''='' @ v)" "CHR ''='' \<notin> set n"
proof -
  from assms have n: "n \<noteq> []" "list_all name_char n" and v: "list_all value_char v"
    by (auto simp: plain_pair_def cookieNameRe_def matches_class_def)
  then show "n \<noteq> []" "list_all value_char n" "list_all value_char v"
    using name_char_value by (auto simp: list_all_iff)
  then show "CHR '';'' \<notin> set (n @ ''='' @ v)" "CHR ''='' \<notin> set n"
    using value_char_not by (auto simp: list_all_iff)
qed

lemma strip_space: "strip space_runes (CHR '' '' # s) = strip space_runes s"
proof -
  have "find (\<lambda>p. p \<noteq> [] \<and> prefix p (CHR '' '' # s)) space_runes = Some '' ''"
    by (simp add: space_runes_def char_of_eq_iff)
  then show ?thesis by (subst strip.simps) simp
qed

lemma TrimSpace_space: "list_all solid s \<Longrightarrow> TrimSpace (CHR '' '' # s) = s"
  using TrimSpace_all_solid [of s] by (simp add: TrimSpace_def strip_space)

lemma unquoted_plain: "list_all value_char v \<Longrightarrow> unquoted v = v"
  using value_char_not(3) by (cases v) (auto simp: unquoted_def)

lemma cookie_item_plain:
  assumes "plain_pair (n, v)" and "sp = [] \<or> sp = '' ''"
  shows "cookie_item (sp @ n @ ''='' @ v) = [(n, v)]"
proof -
  note pl = plain_pairD [OF assms(1)]
  have solid: "list_all solid n" "list_all solid v"
    using pl(2,3) value_char_solid by (auto simp: list_all_iff)
  have "Cut ((sp @ n) @ CHR ''='' # v) (CHR ''='') = (sp @ n, v, True)"
    by (rule Cut_split) (use pl(5) assms(2) in auto)
  moreover have "TrimSpace (sp @ n) = n"
    using assms(2) TrimSpace_space [OF solid(1)] TrimSpace_all_solid [OF solid(1)] by auto
  ultimately show ?thesis
    using pl(1) TrimSpace_all_solid [OF solid(2)] unquoted_plain [OF pl(3)]
    by (simp add: cookie_item_def)
qed

lemma split_rendered:
  assumes "\<forall>p \<in> set ps. plain_pair p" and "ps \<noteq> []" and "sp = [] \<or> sp = '' ''"
  shows "concat (map cookie_item (Split (sp @ render_cookies ps) (CHR '';''))) = ps"
  using assms
proof (induction ps arbitrary: sp rule: render_cookies.induct)
  case (2 n v)
  then have "CHR '';'' \<notin> set (sp @ n @ ''='' @ v)" using plain_pairD(4) [of n v] by auto
  with 2 show ?case using cookie_item_plain [of n v sp] by (simp add: Split_absent)
next
  case (3 n v p ps)
  then have "CHR '';'' \<notin> set (sp @ n @ ''='' @ v)" using plain_pairD(4) [of n v] by auto
  then have "Split ((sp @ n @ ''='' @ v) @ CHR '';'' # ('' '' @ render_cookies (p # ps))) (CHR '';'') =
      (sp @ n @ ''='' @ v) # Split ('' '' @ render_cookies (p # ps)) (CHR '';'')"
    by (rule Split_append)
  moreover have "concat (map cookie_item (Split ('' '' @ render_cookies (p # ps)) (CHR '';''))) = p # ps"
    by (rule "3.IH") (use "3.prems" in auto)
  ultimately show ?case
    using "3.prems" cookie_item_plain [of n v sp] by (simp del: Split.simps)
qed simp

lemma cookie_header_parsed:
  assumes "\<forall>p \<in> set ps. plain_pair p"
  shows "cookie_pairs u [(''Cookie'', render_cookies ps)] = ps"
proof -
  have "lower1 (CHR ''C'') = CHR ''c''" by code_simp
  then have "EqualFold u ''Cookie'' ''cookie''"
    by (simp add: EqualFold_ascii ascii_def) (simp add: lower1_def char_class_defs)
  with assms split_rendered [of ps "[]"] show ?thesis
    by (cases "ps = []") (simp_all add: cookie_pairs_def cookie_item_def)
qed

subsection \<open>Properties\<close>

text \<open>A sequence of questions to one source.\<close>

fun ask_all :: "unicode \<Rightarrow> 's source_ops \<Rightarrow> operand list \<Rightarrow> 's \<Rightarrow> (string list \<times> bool) list \<times> 's" where
  "ask_all u src [] s = ([], s)"
| "ask_all u src (o' # os) s =
     (case operand_Values u src o' s of (r, s1) \<Rightarrow>
        (case ask_all u src os s1 of (rs, s2) \<Rightarrow> (r # rs, s2)))"

lemma ask_all_view:
  assumes "src_inv e s"
  shows "fst (ask_all u (request_ops e) os s) = map (\<lambda>o'. values_view u o' (src_view e s)) os"
  using assms
proof (induction os arbitrary: s)
  case (Cons o' os)
  obtain r s1 where r: "operand_Values u (request_ops e) o' s = (r, s1)" by (cases "operand_Values u (request_ops e) o' s")
  note v = request_source.Values_view [OF Cons.prems r]
  with Cons.IH [of s1] r show ?case by (simp add: case_prod_beta)
qed simp

text \<open>
  C36.  The cache of a source cannot be observed: whatever operands are asked of a request and in
  whatever order, each answer is the one a fresh source would give, although headers and arguments
  are loaded at most once.
\<close>

theorem source_cache_transparent:
  "fst (ask_all u (request_ops e) os (newSource req)) =
     map (\<lambda>o'. fst (operand_Values u (request_ops e) o' (newSource req))) os"
proof -
  have "fst (operand_Values u (request_ops e) o' (newSource req)) =
      values_view u o' (src_view e (newSource req))" for o'
    using request_source.Values_view [OF newSource_inv, of u e o']
    by (metis prod.collapse)
  then show ?thesis by (simp add: ask_all_view [OF newSource_inv])
qed

text \<open>
  Cookies survive the trip through the client: the header a client builds from name and value
  pairs with the names and characters this program issues is parsed back to the same pairs in the
  same order.
\<close>

theorem cookie_header_roundtrip:
  assumes "\<forall>p \<in> set ps. plain_pair p"
  shows "cookie_pairs u [(''Cookie'', render_cookies ps)] = ps"
  using assms by (rule cookie_header_parsed)

theorem cookie_header_roundtrip_witness:
  "cookie_pairs ascii_only [(''Cookie'', ''uid=a1; src=x.y'')] = [(''uid'', ''a1''), (''src'', ''x.y'')]"
proof -
  have "render_cookies [(''uid'', ''a1''), (''src'', ''x.y'')] = ''uid=a1; src=x.y''" by simp
  moreover have "\<forall>p \<in> set [(''uid'', ''a1''), (''src'', ''x.y'')]. plain_pair p"
    by (simp add: plain_pair_def cookieNameRe_def matches_class_def name_char_def value_char_def
        tag_char_def char_class_defs)
  ultimately show ?thesis
    using cookie_header_roundtrip [of "[(''uid'', ''a1''), (''src'', ''x.y'')]" ascii_only] by simp
qed

end
