(* ===== verification/Lists.thy ===== *)
theory Lists
  imports Marker
begin

text \<open>
  List writes (\<^verbatim>\<open>cmd/inspector/lists.go\<close>): from the writes of the fired rules to the messages
  of the list publisher.  The geo resolver and the publisher belong to the shared library: the
  resolver is an argument (\<open>None\<close> is its error) together with the subjects it resolves
  (\<open>networked\<close>), and the calls of the publisher are the result, since the code only logs their
  errors.
\<close>

datatype list_op = ListAdd string "string list" duration string | ListRemove string string string

record geo_ops =
  geo_Write :: "string \<Rightarrow> string \<Rightarrow> string list option"
  geo_Networked :: "string \<Rightarrow> bool"

datatype geo_err = GeoFailed

definition subjects :: "geo_ops \<Rightarrow> string \<Rightarrow> list_write \<Rightarrow> seen_map \<Rightarrow> geo_err + string list" where
  "subjects g addr w cookies =
     (if w_Subject w = WriteValue \<or> w_Subject w = WriteCookie then
        (let value = (if w_Subject w = WriteValue then sn_Value (seen_get cookies (w_Cookie w))
                      else sn_Raw (seen_get cookies (w_Cookie w)))
         in if value = [] then Inr [] else Inr [value])
      else if addr = [] then Inr []
      else if \<not> geo_Networked g (w_Subject w) then Inr [addr]
      else case geo_Write g (w_Subject w) addr of
        None \<Rightarrow> Inl GeoFailed
      | Some got \<Rightarrow> Inr got)"

definition write_ops :: "list_write \<Rightarrow> string list \<Rightarrow> list_op list" where
  "write_ops w values =
     (if length values = 0 then []
      else if w_Op w = OpRemove then map (\<lambda>v. ListRemove (w_List w) v (w_Reason w)) values
      else [ListAdd (w_List w) values (w_TTL w) (w_Reason w)])"

text \<open>The loop keeps the first error and goes on with the next write.\<close>

fun writeLists ::
  "geo_ops \<Rightarrow> string \<Rightarrow> list_write list \<Rightarrow> seen_map \<Rightarrow> geo_err option \<Rightarrow> list_op list \<times> geo_err option" where
  "writeLists g addr [] cookies failed = ([], failed)"
| "writeLists g addr (w # ws) cookies failed =
     (case subjects g addr w cookies of
        Inl e \<Rightarrow> writeLists g addr ws cookies (if failed = None then Some e else failed)
      | Inr values \<Rightarrow>
          (case writeLists g addr ws cookies failed of
             (ops, failed') \<Rightarrow> (write_ops w values @ ops, failed')))"

subsection \<open>Lemmas\<close>

definition resolved :: "geo_ops \<Rightarrow> string \<Rightarrow> seen_map \<Rightarrow> list_write \<Rightarrow> string list" where
  "resolved g addr cookies w = (case subjects g addr w cookies of Inl _ \<Rightarrow> [] | Inr vs \<Rightarrow> vs)"

lemma write_ops_Nil [simp]: "write_ops w [] = []"
  by (simp add: write_ops_def)

lemma writeLists_eq:
  "writeLists g addr ws cookies failed =
     (concat (map (\<lambda>w. write_ops w (resolved g addr cookies w)) ws),
      if failed = None \<and> (\<exists>w \<in> set ws. \<exists>e. subjects g addr w cookies = Inl e)
      then Some GeoFailed else failed)"
proof (induction ws arbitrary: failed)
  case (Cons w ws)
  show ?case
  proof (cases "subjects g addr w cookies")
    case (Inl e)
    moreover have "e = GeoFailed" by (cases e)
    ultimately show ?thesis using Cons by (simp add: resolved_def)
  next
    case (Inr vs)
    with Cons show ?thesis by (auto simp: resolved_def)
  qed
qed simp

text \<open>A write never publishes an empty set of values, and a removal names one value each.\<close>

lemma write_ops_nonempty:
  "op \<in> set (write_ops w vs) \<Longrightarrow>
     (case op of ListAdd n values ttl rs \<Rightarrow> n = w_List w \<and> values = vs \<and> vs \<noteq> [] \<and> ttl = w_TTL w \<and> rs = w_Reason w
      | ListRemove n v rs \<Rightarrow> n = w_List w \<and> v \<in> set vs \<and> rs = w_Reason w \<and> w_Op w = OpRemove)"
  by (auto simp: write_ops_def split: if_splits)

end
