(* ===== verification/Queue.thy ===== *)
theory Queue
  imports Protocol GoTime "HOL-Library.Multiset"
begin

text \<open>
  The queue of tasks (\<^verbatim>\<open>internal/queue/queue.go\<close>): a bounded queue with a deadline for every
  task, workers that take tasks, a sweeper that answers expired ones, and two ways to treat a full
  queue.  Every section of the code under the lock is a definition; \<open>pool_step\<close> interleaves these
  sections, with a clock reading for each.  A call of the handler is recorded as an answer with
  the reason the task was shed for (empty when it was served).
\<close>

subsection \<open>Data\<close>

abbreviation ReasonQueueLimit :: string where "ReasonQueueLimit \<equiv> ''COOKIE_QUEUE_LIMIT''"
abbreviation ReasonDeadlineExceeded :: string where "ReasonDeadlineExceeded \<equiv> ''COOKIE_DEADLINE_EXCEEDED''"
abbreviation FullDrop :: string where "FullDrop \<equiv> ''drop''"
abbreviation FullWait :: string where "FullWait \<equiv> ''wait''"

record task =
  tk_Req :: request
  tk_Reply :: string
  tk_Fill :: int
  tk_enqueued :: gotime

record pool =
  pl_q :: "task list"
  pl_depth :: nat
  pl_closed :: bool
  pl_full :: string
  pl_reserve :: duration
  pl_minBudget :: duration
  pl_Accepted :: nat
  pl_Shed :: nat
  pl_Expired :: nat

definition pool_New :: "int \<Rightarrow> int \<Rightarrow> int \<Rightarrow> string \<Rightarrow> pool" where
  "pool_New depth reserveMS minBudgetMS full =
     \<lparr>pl_q = [], pl_depth = nat (if depth < 1 then 1 else depth), pl_closed = False,
      pl_full = (if full = [] then FullDrop else full),
      pl_reserve = wrap64 (reserveMS * Millisecond), pl_minBudget = wrap64 (minBudgetMS * Millisecond),
      pl_Accepted = 0, pl_Shed = 0, pl_Expired = 0\<rparr>"

subsection \<open>Sections under the lock\<close>

definition leftAt :: "pool \<Rightarrow> task \<Rightarrow> gotime \<Rightarrow> duration" where
  "leftAt p t now =
     wrap64 (wrap64 (wrap64 (rq_DeadlineMS (tk_Req t) * Millisecond) - time_Sub now (tk_enqueued t))
             - pl_reserve p)"

definition late :: "pool \<Rightarrow> gotime \<Rightarrow> task \<Rightarrow> bool" where
  "late p now t \<longleftrightarrow> leftAt p t now < pl_minBudget p"

definition fillLocked :: "pool \<Rightarrow> int" where
  "fillLocked p =
     (if length (pl_q p) \<ge> pl_depth p then 100 else int (length (pl_q p)) * 100 div int (pl_depth p))"

definition takeExpiredLocked :: "pool \<Rightarrow> gotime \<Rightarrow> task list \<times> pool" where
  "takeExpiredLocked p now =
     (filter (late p now) (pl_q p), p\<lparr>pl_q := filter (\<lambda>t. \<not> late p now t) (pl_q p)\<rparr>)"

definition enqueueLocked :: "task \<Rightarrow> pool \<Rightarrow> pool" where
  "enqueueLocked t p = p\<lparr>pl_q := pl_q p @ [t], pl_Accepted := Suc (pl_Accepted p)\<rparr>"

text \<open>What the locked section of \<open>Submit\<close> decides.\<close>

datatype submit_result = SubmitClosed | SubmitEnqueued pool | SubmitWait | SubmitShed

definition submit_locked :: "pool \<Rightarrow> task \<Rightarrow> task \<times> submit_result" where
  "submit_locked p t0 =
     (if pl_closed p then (t0, SubmitClosed)
      else (let t = t0\<lparr>tk_Fill := fillLocked p\<rparr>
            in if length (pl_q p) < pl_depth p then (t, SubmitEnqueued (enqueueLocked t p))
               else if pl_full p = FullWait then (t, SubmitWait)
               else (t, SubmitShed)))"

text \<open>The end of the wait for room: closed, room, or a time-out (which only ends the wait when full).\<close>

datatype wait_result = WaitClosed | WaitEnqueued pool | WaitOn | WaitTimeout

definition wait_locked :: "pool \<Rightarrow> task \<Rightarrow> bool \<Rightarrow> wait_result" where
  "wait_locked p t timedOut =
     (if length (pl_q p) \<ge> pl_depth p \<and> \<not> timedOut \<and> \<not> pl_closed p then WaitOn
      else if pl_closed p then WaitClosed
      else if length (pl_q p) < pl_depth p then WaitEnqueued (enqueueLocked t p)
      else WaitTimeout)"

text \<open>\<open>pop\<close>: the expired tasks, then the first of the rest; \<open>None\<close> when there is none.\<close>

definition pop_locked :: "pool \<Rightarrow> gotime \<Rightarrow> task option \<times> task list \<times> pool" where
  "pop_locked p now =
     (case takeExpiredLocked p now of (dead, p1) \<Rightarrow>
        (case pl_q p1 of
           [] \<Rightarrow> (None, dead, p1)
         | t # ts \<Rightarrow> (Some t, dead, p1\<lparr>pl_q := ts\<rparr>)))"

definition pool_budget :: "pool \<Rightarrow> task \<Rightarrow> gotime \<Rightarrow> (duration \<times> string) \<times> pool" where
  "pool_budget p t now =
     (let left = leftAt p t now
      in if left < pl_minBudget p
         then ((left, ReasonDeadlineExceeded), p\<lparr>pl_Expired := Suc (pl_Expired p)\<rparr>)
         else ((left, []), p))"

definition pool_expire :: "pool \<Rightarrow> pool" where
  "pool_expire p = p\<lparr>pl_Expired := Suc (pl_Expired p)\<rparr>"

definition shedLimit :: "pool \<Rightarrow> pool" where
  "shedLimit p = p\<lparr>pl_Shed := Suc (pl_Shed p)\<rparr>"

subsection \<open>Interleavings\<close>

text \<open>
  A task in the hands of a goroutine: being submitted, waiting for room, taken from the queue as
  expired, or taken by a worker.
\<close>

datatype hand = Submitting task | Waiting task | Dead task | Popped task

fun hand_task :: "hand \<Rightarrow> task" where
  "hand_task (Submitting t) = t"
| "hand_task (Waiting t) = t"
| "hand_task (Dead t) = t"
| "hand_task (Popped t) = t"

text \<open>
  \<open>ps_answers\<close> are the calls of the handler in their order; \<open>ps_submitted\<close>, \<open>ps_accepted\<close> and
  \<open>ps_taken\<close> record what was submitted, what entered the queue and what the workers took.
\<close>

record pool_sys =
  ps_pool :: pool
  ps_hands :: "hand multiset"
  ps_answers :: "(task \<times> string) list"
  ps_submitted :: "task list"
  ps_accepted :: "task list"
  ps_taken :: "task list"

definition answer :: "task \<Rightarrow> string \<Rightarrow> pool_sys \<Rightarrow> pool_sys" where
  "answer t why s = s\<lparr>ps_answers := ps_answers s @ [(t, why)]\<rparr>"

definition let_go :: "hand \<Rightarrow> pool_sys \<Rightarrow> pool_sys" where
  "let_go x s = s\<lparr>ps_hands := ps_hands s - {#x#}\<rparr>"

definition hold :: "hand multiset \<Rightarrow> pool_sys \<Rightarrow> pool_sys" where
  "hold xs s = s\<lparr>ps_hands := ps_hands s + xs\<rparr>"

definition set_pool :: "pool \<Rightarrow> pool_sys \<Rightarrow> pool_sys" where
  "set_pool p s = s\<lparr>ps_pool := p\<rparr>"

definition accept :: "task \<Rightarrow> pool \<Rightarrow> pool_sys \<Rightarrow> pool_sys" where
  "accept t p s = s\<lparr>ps_pool := p, ps_accepted := ps_accepted s @ [t]\<rparr>"

text \<open>
  A task is identified by its request, subject and time; filling in the fill keeps it the same
  submission.  \<open>arrive\<close> is the entry of \<open>Submit\<close>, which stamps the task with the clock; \<open>pop\<close> and
  \<open>work\<close> are the steps of a worker, of which the configuration demands at least one.
\<close>

definition same_task :: "task \<Rightarrow> task" where
  "same_task t = t\<lparr>tk_Fill := 0\<rparr>"

inductive pool_step :: "pool_sys \<Rightarrow> pool_sys \<Rightarrow> bool" where
  arrive: "tk_Fill t0 = 0 \<Longrightarrow> t = t0\<lparr>tk_enqueued := now\<rparr> \<Longrightarrow>
    pool_step s (hold {#Submitting t#} (s\<lparr>ps_submitted := ps_submitted s @ [t]\<rparr>))"
| submit_late: "Submitting t \<in># ps_hands s \<Longrightarrow> late (ps_pool s) now t \<Longrightarrow>
    pool_step s (answer t ReasonDeadlineExceeded
      (set_pool (pool_expire (ps_pool s)) (let_go (Submitting t) s)))"
| collect: "takeExpiredLocked (ps_pool s) now = (dead, p) \<Longrightarrow> dead \<noteq> [] \<Longrightarrow>
    pool_step s (hold (image_mset Dead (mset dead)) (set_pool p s))"
| submit_closed: "Submitting t \<in># ps_hands s \<Longrightarrow> submit_locked (ps_pool s) t = (t', SubmitClosed) \<Longrightarrow>
    pool_step s (answer t' ReasonDeadlineExceeded
      (set_pool (pool_expire (ps_pool s)) (let_go (Submitting t) s)))"
| submit_enqueue: "Submitting t \<in># ps_hands s \<Longrightarrow>
    submit_locked (ps_pool s) t = (t', SubmitEnqueued p) \<Longrightarrow>
    pool_step s (accept t' p (let_go (Submitting t) s))"
| submit_shed: "Submitting t \<in># ps_hands s \<Longrightarrow> submit_locked (ps_pool s) t = (t', SubmitShed) \<Longrightarrow>
    pool_step s (answer t' ReasonQueueLimit (set_pool (shedLimit (ps_pool s)) (let_go (Submitting t) s)))"
| submit_wait_late: "Submitting t \<in># ps_hands s \<Longrightarrow> submit_locked (ps_pool s) t = (t', SubmitWait) \<Longrightarrow>
    late (ps_pool s) now t' \<Longrightarrow>
    pool_step s (answer t' ReasonDeadlineExceeded
      (set_pool (pool_expire (ps_pool s)) (let_go (Submitting t) s)))"
| submit_wait: "Submitting t \<in># ps_hands s \<Longrightarrow> submit_locked (ps_pool s) t = (t', SubmitWait) \<Longrightarrow>
    \<not> late (ps_pool s) now t' \<Longrightarrow>
    pool_step s (hold {#Waiting t'#} (let_go (Submitting t) s))"
| wait_enqueue: "Waiting t \<in># ps_hands s \<Longrightarrow> wait_locked (ps_pool s) t timedOut = WaitEnqueued p \<Longrightarrow>
    pool_step s (accept t p (let_go (Waiting t) s))"
| wait_over: "Waiting t \<in># ps_hands s \<Longrightarrow>
    wait_locked (ps_pool s) t timedOut \<in> {WaitClosed, WaitTimeout} \<Longrightarrow>
    pool_step s (answer t ReasonDeadlineExceeded
      (set_pool (pool_expire (ps_pool s)) (let_go (Waiting t) s)))"
| reply_dead: "Dead t \<in># ps_hands s \<Longrightarrow>
    pool_step s (answer t ReasonDeadlineExceeded
      (set_pool (pool_expire (ps_pool s)) (let_go (Dead t) s)))"
| pop: "pop_locked (ps_pool s) now = (Some t, dead, p) \<Longrightarrow>
    pool_step s (hold (image_mset Dead (mset dead) + {#Popped t#})
      (set_pool p (s\<lparr>ps_taken := ps_taken s @ [t]\<rparr>)))"
| work: "Popped t \<in># ps_hands s \<Longrightarrow> pool_budget (ps_pool s) t now = ((left, shed), p) \<Longrightarrow>
    pool_step s (answer t shed (set_pool p (let_go (Popped t) s)))"
| close: "pool_step s (set_pool ((ps_pool s)\<lparr>pl_closed := True\<rparr>) s)"

definition start :: "pool \<Rightarrow> pool_sys" where
  "start p = \<lparr>ps_pool = p, ps_hands = {#}, ps_answers = [], ps_submitted = [], ps_accepted = [],
     ps_taken = []\<rparr>"

inductive pool_reach :: "pool_sys \<Rightarrow> pool_sys \<Rightarrow> bool" for s0 where
  init: "pool_reach s0 s0"
| next_step: "pool_reach s0 s \<Longrightarrow> pool_step s s' \<Longrightarrow> pool_reach s0 s'"

lemmas section_defs =
  answer_def let_go_def hold_def set_pool_def accept_def enqueueLocked_def takeExpiredLocked_def
  pool_expire_def shedLimit_def

subsection \<open>Nothing is lost, nothing is answered twice\<close>

text \<open>All submissions the system knows: in the queue, in hands, answered.\<close>

definition known :: "pool_sys \<Rightarrow> task multiset" where
  "known s = image_mset same_task
     (mset (pl_q (ps_pool s)) + image_mset hand_task (ps_hands s) + mset (map fst (ps_answers s)))"

definition conserved :: "pool_sys \<Rightarrow> bool" where
  "conserved s \<longleftrightarrow> known s = image_mset same_task (mset (ps_submitted s))"

lemma same_task_fill [simp]: "same_task (t\<lparr>tk_Fill := f\<rparr>) = same_task t"
  by (simp add: same_task_def)

lemma submit_locked_same: "submit_locked p t = (t', r) \<Longrightarrow> same_task t' = same_task t"
  by (auto simp: submit_locked_def Let_def split: if_splits)

lemma submit_enqueued:
  "submit_locked p t = (t', SubmitEnqueued p') \<Longrightarrow>
     p' = enqueueLocked t' p \<and> length (pl_q p) < pl_depth p \<and> tk_Fill t' = fillLocked p"
  by (auto simp: submit_locked_def Let_def split: if_splits)

lemma wait_enqueued:
  "wait_locked p t b = WaitEnqueued p' \<Longrightarrow> p' = enqueueLocked t p \<and> length (pl_q p) < pl_depth p"
  by (auto simp: wait_locked_def split: if_splits)

lemma filter_split_mset: "mset (filter P xs) + mset (filter (\<lambda>x. \<not> P x) xs) = mset xs"
  by (induction xs) auto

lemma pop_locked_Some:
  assumes "pop_locked p now = (Some t, dead, p')"
  obtains ts where "dead = filter (late p now) (pl_q p)" "filter (\<lambda>t. \<not> late p now t) (pl_q p) = t # ts"
    "p' = p\<lparr>pl_q := ts\<rparr>" "mset (pl_q p) = mset dead + add_mset t (mset ts)"
proof -
  from assms obtain ts where "dead = filter (late p now) (pl_q p)"
    "filter (\<lambda>t. \<not> late p now t) (pl_q p) = t # ts" "p' = p\<lparr>pl_q := ts\<rparr>"
    by (auto simp: pop_locked_def takeExpiredLocked_def split: list.splits)
  with filter_split_mset [of "late p now" "pl_q p"] show thesis by (intro that) auto
qed

lemma known_let_go:
  assumes "x \<in># ps_hands s"
  shows "known s = add_mset (same_task (hand_task x)) (known (let_go x s))"
proof -
  from assms obtain H where "ps_hands s = add_mset x H" by (meson multi_member_split)
  then show ?thesis by (simp add: known_def let_go_def)
qed

lemma known_hold: "known (hold xs s) = known s + image_mset (same_task \<circ> hand_task) xs"
  by (simp add: known_def hold_def multiset.map_comp)

lemma known_answer: "known (answer t why s) = add_mset (same_task t) (known s)"
  by (simp add: known_def answer_def)

lemma known_set_pool: "pl_q p = pl_q (ps_pool s) \<Longrightarrow> known (set_pool p s) = known s"
  by (simp add: known_def set_pool_def)

lemma known_accept: "pl_q p = pl_q (ps_pool s) @ [t] \<Longrightarrow> known (accept t p s) = add_mset (same_task t) (known s)"
  by (simp add: known_def accept_def)

lemma hands_of_let_go [simp]: "ps_pool (let_go x s) = ps_pool s"
  by (simp add: let_go_def)

lemma queue_of_counters [simp]: "pl_q (pool_expire p) = pl_q p" "pl_q (shedLimit p) = pl_q p"
  by (simp_all add: pool_expire_def shedLimit_def)

lemmas known_simps = known_hold known_answer known_set_pool known_accept

text \<open>A task leaves the hands of a goroutine: answered, or for the queue.\<close>

lemma known_answered:
  assumes "x \<in># ps_hands s" and "same_task t = same_task (hand_task x)" and "pl_q p = pl_q (ps_pool s)"
  shows "known (answer t why (set_pool p (let_go x s))) = known s"
    and "ps_submitted (answer t why (set_pool p (let_go x s))) = ps_submitted s"
  using known_let_go [OF assms(1)] assms(2,3)
  by (simp_all add: known_simps) (simp add: answer_def set_pool_def let_go_def)

lemma known_accepted:
  assumes "x \<in># ps_hands s" and "same_task t = same_task (hand_task x)"
  shows "known (accept t (enqueueLocked t (ps_pool s)) (let_go x s)) = known s"
    and "ps_submitted (accept t p (let_go x s)) = ps_submitted s"
  using known_let_go [OF assms(1)] assms(2)
  by (simp_all add: known_accept enqueueLocked_def) (simp add: accept_def let_go_def)

lemma pool_budget_queue: "pool_budget p t now = (b, p') \<Longrightarrow> pl_q p' = pl_q p"
  by (auto simp: pool_budget_def Let_def split: if_splits)

lemma step_known:
  assumes "pool_step s s'"
  shows "(\<exists>t. ps_submitted s' = ps_submitted s @ [t] \<and> known s' = add_mset (same_task t) (known s)) \<or>
    ps_submitted s' = ps_submitted s \<and> known s' = known s"
  using assms
proof cases
  case (arrive t)
  then show ?thesis by (simp add: known_def hold_def)
next
  case (collect now dead p)
  then have "mset (pl_q (ps_pool s)) = mset dead + mset (pl_q p)"
    using filter_split_mset [of "late (ps_pool s) now" "pl_q (ps_pool s)"]
    by (auto simp: takeExpiredLocked_def)
  with collect(1) show ?thesis
    by (simp add: known_def hold_def set_pool_def multiset.map_comp comp_def)
next
  case (submit_wait t t' now)
  with known_let_go [of "Submitting t" s] submit_locked_same [OF submit_wait(3)] show ?thesis
    by (simp add: known_simps) (simp add: hold_def let_go_def)
next
  case (submit_enqueue t t' p)
  with submit_locked_same [OF submit_enqueue(3)] submit_enqueued [OF submit_enqueue(3)] show ?thesis
    by (simp add: known_accepted)
next
  case (wait_enqueue t b p)
  with wait_enqueued [OF wait_enqueue(3)] show ?thesis by (simp add: known_accepted)
next
  case (pop now t dead p)
  from pop(2) obtain ts where "p = (ps_pool s)\<lparr>pl_q := ts\<rparr>"
    "mset (pl_q (ps_pool s)) = mset dead + add_mset t (mset ts)" by (rule pop_locked_Some)
  with pop(1) show ?thesis
    by (simp add: known_def hold_def set_pool_def multiset.map_comp comp_def)
next
  case close
  then show ?thesis by (simp add: known_set_pool) (simp add: set_pool_def)
qed (auto simp: known_answered dest: submit_locked_same pool_budget_queue)

lemma reach_conserved: "pool_reach (start p) s \<Longrightarrow> pl_q p = [] \<Longrightarrow> conserved s"
proof (induction rule: pool_reach.induct)
  case init
  then show ?case by (simp add: conserved_def known_def start_def)
next
  case (next_step s s')
  with step_known [OF next_step(2)] show ?case by (auto simp: conserved_def)
qed

subsection \<open>Bounds, order and counters\<close>

definition count_why :: "string \<Rightarrow> (task \<times> string) list \<Rightarrow> nat" where
  "count_why why as = length (filter (\<lambda>a. snd a = why) as)"

definition pool_inv :: "pool_sys \<Rightarrow> bool" where
  "pool_inv s \<longleftrightarrow>
     1 \<le> pl_depth (ps_pool s) \<and> length (pl_q (ps_pool s)) \<le> pl_depth (ps_pool s) \<and>
     subseq (ps_taken s @ pl_q (ps_pool s)) (ps_accepted s) \<and>
     pl_Accepted (ps_pool s) = length (ps_accepted s) \<and>
     pl_Shed (ps_pool s) = count_why ReasonQueueLimit (ps_answers s) \<and>
     pl_Expired (ps_pool s) = count_why ReasonDeadlineExceeded (ps_answers s)"

lemma count_why_snoc [simp]:
  "count_why why (as @ [(t, w)]) = (if w = why then Suc (count_why why as) else count_why why as)"
  by (simp add: count_why_def)

lemma reasons_differ [simp]: "ReasonQueueLimit \<noteq> ReasonDeadlineExceeded"
  "ReasonDeadlineExceeded \<noteq> ReasonQueueLimit"
  by simp_all

text \<open>What most steps leave alone.\<close>

definition same_queue :: "pool_sys \<Rightarrow> pool_sys \<Rightarrow> bool" where
  "same_queue s s' \<longleftrightarrow>
     pl_q (ps_pool s') = pl_q (ps_pool s) \<and> pl_depth (ps_pool s') = pl_depth (ps_pool s) \<and>
     pl_Accepted (ps_pool s') = pl_Accepted (ps_pool s) \<and> ps_accepted s' = ps_accepted s \<and>
     ps_taken s' = ps_taken s"

lemma pool_inv_same_queue:
  assumes "pool_inv s" and "same_queue s s'"
    and "pl_Shed (ps_pool s') = count_why ReasonQueueLimit (ps_answers s')"
    and "pl_Expired (ps_pool s') = count_why ReasonDeadlineExceeded (ps_answers s')"
  shows "pool_inv s'"
  using assms by (simp add: pool_inv_def same_queue_def)

lemma pool_inv_accept:
  assumes "pool_inv s" and "length (pl_q (ps_pool s)) < pl_depth (ps_pool s)"
  shows "pool_inv (accept t (enqueueLocked t (ps_pool s)) (let_go x s))"
proof -
  have "subseq ((ps_taken s @ pl_q (ps_pool s)) @ [t]) (ps_accepted s @ [t])"
    using assms(1) by (intro list_emb_append_mono) (auto simp: pool_inv_def)
  with assms show ?thesis by (simp add: pool_inv_def accept_def enqueueLocked_def let_go_def)
qed

lemma subseq_filter_tail: "subseq (xs @ ys) zs \<Longrightarrow> subseq (xs @ filter P ys) zs"
  by (meson list_emb_append_mono subseq_filter_left subseq_order.order_refl subseq_order.order_trans)

lemma pool_inv_step:
  assumes "pool_step s s'" and "pool_inv s"
  shows "pool_inv s'"
  using assms(1)
proof cases
  case (submit_enqueue t t' p)
  with assms(2) submit_enqueued [OF submit_enqueue(3)] show ?thesis by (simp add: pool_inv_accept)
next
  case (wait_enqueue t b p)
  with assms(2) wait_enqueued [OF wait_enqueue(3)] show ?thesis by (simp add: pool_inv_accept)
next
  case (collect now dead p)
  from collect(2) have "p = (ps_pool s)\<lparr>pl_q := filter (\<lambda>t. \<not> late (ps_pool s) now t) (pl_q (ps_pool s))\<rparr>"
    by (simp add: takeExpiredLocked_def)
  moreover have "length (filter (\<lambda>t. \<not> late (ps_pool s) now t) (pl_q (ps_pool s))) \<le> pl_depth (ps_pool s)"
    by (rule le_trans [OF length_filter_le]) (use assms(2) in \<open>simp add: pool_inv_def\<close>)
  ultimately show ?thesis
    using collect(1) assms(2) subseq_filter_tail [of "ps_taken s" "pl_q (ps_pool s)" "ps_accepted s"]
    by (simp add: pool_inv_def hold_def set_pool_def)
next
  case (pop now t dead p)
  from pop(2) obtain ts where ts: "filter (\<lambda>t. \<not> late (ps_pool s) now t) (pl_q (ps_pool s)) = t # ts"
    "p = (ps_pool s)\<lparr>pl_q := ts\<rparr>" by (rule pop_locked_Some)
  have "subseq (ps_taken s @ t # ts) (ps_accepted s)"
    using subseq_filter_tail [of "ps_taken s" "pl_q (ps_pool s)" "ps_accepted s"
        "\<lambda>t. \<not> late (ps_pool s) now t"] assms(2) ts(1) by (simp add: pool_inv_def)
  moreover have "length (t # ts) \<le> length (pl_q (ps_pool s))"
    using length_filter_le [of "\<lambda>t. \<not> late (ps_pool s) now t" "pl_q (ps_pool s)"] ts(1) by simp
  ultimately show ?thesis
    using pop(1) assms(2) ts(2) by (simp add: pool_inv_def hold_def set_pool_def)
qed (use assms(2) in \<open>auto simp: pool_inv_def section_defs pool_budget_def Let_def split: if_splits\<close>)

lemma pool_inv_start: "pool_inv (start (pool_New depth r m full))"
  by (simp add: pool_inv_def start_def pool_New_def count_why_def) linarith

lemma reach_pool_inv: "pool_reach s0 s \<Longrightarrow> pool_inv s0 \<Longrightarrow> pool_inv s"
  by (induction rule: pool_reach.induct) (auto intro: pool_inv_step)

subsection \<open>The queue drains\<close>

text \<open>Work left: every step but an arrival reduces it.\<close>

fun hand_weight :: "hand \<Rightarrow> nat" where
  "hand_weight (Submitting t) = 5"
| "hand_weight (Waiting t) = 4"
| "hand_weight (Dead t) = 1"
| "hand_weight (Popped t) = 1"

definition work_left :: "pool_sys \<Rightarrow> nat" where
  "work_left s =
     sum_mset (image_mset hand_weight (ps_hands s)) + 3 * length (pl_q (ps_pool s)) +
     (if pl_closed (ps_pool s) then 0 else 1)"

definition quiescent :: "pool_sys \<Rightarrow> bool" where
  "quiescent s \<longleftrightarrow> ps_hands s = {#} \<and> pl_q (ps_pool s) = []"

lemma work_left_let_go:
  assumes "x \<in># ps_hands s"
  shows "work_left s = hand_weight x + work_left (let_go x s)"
proof -
  from assms obtain H where "ps_hands s = add_mset x H" by (meson multi_member_split)
  then show ?thesis by (simp add: work_left_def let_go_def)
qed

lemma work_left_hold: "work_left (hold xs s) = work_left s + sum_mset (image_mset hand_weight xs)"
  by (simp add: work_left_def hold_def)

lemma work_left_answer [simp]: "work_left (answer t why s) = work_left s"
  by (simp add: work_left_def answer_def)

lemma work_left_set_pool:
  "pl_q p = pl_q (ps_pool s) \<Longrightarrow> pl_closed p = pl_closed (ps_pool s) \<Longrightarrow> work_left (set_pool p s) = work_left s"
  by (simp add: work_left_def set_pool_def)

lemma work_left_accept:
  "work_left (accept t (enqueueLocked t (ps_pool s)) (let_go x s)) = work_left (let_go x s) + 3"
  by (simp add: work_left_def accept_def enqueueLocked_def let_go_def)

lemma closed_of_counters [simp]:
  "pl_closed (pool_expire p) = pl_closed p" "pl_closed (shedLimit p) = pl_closed p"
  by (simp_all add: pool_expire_def shedLimit_def)

lemma dead_weight [simp]: "sum_mset (image_mset hand_weight (image_mset Dead M)) = size M"
  by (induction M) auto

lemma split_length: "length (filter P xs) + length (filter (\<lambda>x. \<not> P x) xs) = length xs"
  by (rule sum_length_filter_compl)

lemma step_work_left:
  assumes "pool_step s s'" and "ps_submitted s' = ps_submitted s"
    and "pl_closed (ps_pool s') \<longrightarrow> pl_closed (ps_pool s)"
  shows "work_left s' < work_left s \<or> s' = s"
  using assms(1)
proof cases
  case (arrive t)
  with assms(2) show ?thesis by (simp add: hold_def)
next
  case (collect now dead p)
  from collect(2,3) have d: "0 < length dead" "length dead + length (pl_q p) = length (pl_q (ps_pool s))"
    "pl_closed p = pl_closed (ps_pool s)"
    using split_length [of "late (ps_pool s) now" "pl_q (ps_pool s)"] by (auto simp: takeExpiredLocked_def)
  have "work_left s' = work_left (set_pool p s) + length dead"
    unfolding collect(1) work_left_hold by simp
  moreover have "3 * length (pl_q p) + length dead < 3 * length (pl_q (ps_pool s))"
    using d(1,2) by linarith
  ultimately show ?thesis using d(3) by (simp add: work_left_def set_pool_def)
next
  case (submit_enqueue t t' p)
  with submit_enqueued [OF submit_enqueue(3)] work_left_let_go [OF submit_enqueue(2)] show ?thesis
    by (simp add: work_left_accept)
next
  case (wait_enqueue t b p)
  with wait_enqueued [OF wait_enqueue(3)] work_left_let_go [OF wait_enqueue(2)] show ?thesis
    by (simp add: work_left_accept)
next
  case (pop now t dead p)
  from pop(2) obtain ts where ts: "p = (ps_pool s)\<lparr>pl_q := ts\<rparr>"
    "mset (pl_q (ps_pool s)) = mset dead + add_mset t (mset ts)" by (rule pop_locked_Some)
  from arg_cong [OF ts(2), of size] have "length (pl_q (ps_pool s)) = length dead + Suc (length ts)"
    by simp
  then show ?thesis
    using ts(1) unfolding pop(1) work_left_hold by (simp add: work_left_def set_pool_def)
next
  case close
  with assms(3) have "s' = s" by (simp add: set_pool_def)
  then show ?thesis ..
next
  case (work t now left shed p)
  from work(3) have "pl_q p = pl_q (ps_pool s)" "pl_closed p = pl_closed (ps_pool s)"
    by (auto simp: pool_budget_def Let_def split: if_splits)
  with work work_left_let_go [OF work(2)] show ?thesis by (simp add: work_left_set_pool)
qed (auto simp: work_left_hold work_left_set_pool dest!: work_left_let_go)

text \<open>A step that neither submits nor closes.\<close>

definition inner_step :: "pool_sys \<Rightarrow> pool_sys \<Rightarrow> bool" where
  "inner_step s s' \<longleftrightarrow>
     pool_step s s' \<and> ps_submitted s' = ps_submitted s \<and>
     pl_closed (ps_pool s') = pl_closed (ps_pool s) \<and> s' \<noteq> s"

lemma inner_step_less: "inner_step s s' \<Longrightarrow> work_left s' < work_left s"
  using step_work_left [of s s'] by (auto simp: inner_step_def)

lemma inner_stepI:
  assumes "pool_step s s'" and "ps_submitted s' = ps_submitted s"
    and "pl_closed (ps_pool s') = pl_closed (ps_pool s)" and "ps_hands s' \<noteq> ps_hands s"
  shows "inner_step s s'"
  using assms by (auto simp: inner_step_def)

lemma let_go_less: "x \<in># M \<Longrightarrow> M - {#x#} \<noteq> M"
  by (metis multi_self_add_other_not_self insert_DiffM)

lemma pool_budget_closed: "pool_budget p t now = (b, p') \<Longrightarrow> pl_closed p' = pl_closed p"
  by (auto simp: pool_budget_def Let_def split: if_splits)

lemma inner_let_go:
  assumes "x \<in># ps_hands s" and "pool_step s s'" and "ps_submitted s' = ps_submitted s"
    and "pl_closed (ps_pool s') = pl_closed (ps_pool s)" and "ps_hands s' = ps_hands s - {#x#}"
  shows "inner_step s s'"
  using assms let_go_less [OF assms(1)] by (intro inner_stepI) simp_all

lemma submitting_moves:
  assumes "Submitting t \<in># ps_hands s"
  shows "\<exists>s'. inner_step s s'"
proof -
  obtain t' r where r: "submit_locked (ps_pool s) t = (t', r)" by (cases "submit_locked (ps_pool s) t")
  show ?thesis
  proof (cases r)
    case SubmitClosed
    show ?thesis
      by (rule exI, rule inner_let_go [OF assms], rule pool_step.submit_closed [of t s t'])
        (use r SubmitClosed assms in \<open>simp_all add: section_defs\<close>)
  next
    case (SubmitEnqueued p)
    show ?thesis
      by (rule exI, rule inner_let_go [OF assms], rule pool_step.submit_enqueue [of t s t' p])
        (use r SubmitEnqueued assms submit_enqueued [of "ps_pool s" t t' p] in \<open>simp_all add: section_defs\<close>)
  next
    case SubmitShed
    show ?thesis
      by (rule exI, rule inner_let_go [OF assms], rule pool_step.submit_shed [of t s t'])
        (use r SubmitShed assms in \<open>simp_all add: section_defs\<close>)
  next
    case SubmitWait
    have "count (ps_hands s - {#Submitting t#} + {#Waiting t'#}) (Submitting t) < count (ps_hands s) (Submitting t)"
      using assms by simp
    then have "ps_hands s - {#Submitting t#} + {#Waiting t'#} \<noteq> ps_hands s" by (metis less_irrefl)
    then have "inner_step s (hold {#Waiting t'#} (let_go (Submitting t) s))" if "\<not> late (ps_pool s) 0 t'"
      using that r SubmitWait assms pool_step.submit_wait [of t s t' 0]
      by (intro inner_stepI) (simp_all add: section_defs)
    moreover have "\<exists>s'. inner_step s s'" if "late (ps_pool s) 0 t'"
      by (rule exI, rule inner_let_go [OF assms], rule pool_step.submit_wait_late [of t s t' 0])
        (use that r SubmitWait assms in \<open>simp_all add: section_defs\<close>)
    ultimately show ?thesis by blast
  qed
qed

lemma waiting_moves:
  assumes "Waiting t \<in># ps_hands s"
  shows "\<exists>s'. inner_step s s'"
proof (cases "wait_locked (ps_pool s) t True")
  case (WaitEnqueued p)
  show ?thesis
    by (rule exI, rule inner_let_go [OF assms], rule pool_step.wait_enqueue [OF assms WaitEnqueued])
      (use wait_enqueued [OF WaitEnqueued] in \<open>simp_all add: section_defs\<close>)
next
  case WaitOn
  then show ?thesis by (simp add: wait_locked_def split: if_splits)
qed (rule exI, rule inner_let_go [OF assms], rule pool_step.wait_over [OF assms, of True], simp_all add: section_defs)+

lemma hand_moves:
  assumes "x \<in># ps_hands s"
  shows "\<exists>s'. inner_step s s'"
proof (cases x)
  case (Submitting t)
  with assms submitting_moves show ?thesis by blast
next
  case (Waiting t)
  with assms waiting_moves show ?thesis by blast
next
  case (Dead t)
  show ?thesis
    by (rule exI, rule inner_let_go [OF assms], rule pool_step.reply_dead [of t s])
      (use Dead assms in \<open>simp_all add: section_defs\<close>)
next
  case (Popped t)
  obtain left shed p where b: "pool_budget (ps_pool s) t 0 = ((left, shed), p)"
    by (cases "pool_budget (ps_pool s) t 0") auto
  show ?thesis
    by (rule exI, rule inner_let_go [OF assms], rule pool_step.work [of t s 0 left shed p])
      (use b Popped assms pool_budget_closed [OF b] in \<open>simp_all add: section_defs\<close>)
qed

lemma queue_moves:
  assumes "pl_q (ps_pool s) \<noteq> []"
  shows "\<exists>s'. inner_step s s'"
proof (cases "filter (\<lambda>t. \<not> late (ps_pool s) 0 t) (pl_q (ps_pool s))")
  case Nil
  then have "filter (late (ps_pool s) 0) (pl_q (ps_pool s)) = pl_q (ps_pool s)"
    by (auto simp: filter_empty_conv filter_id_conv)
  with Nil have "takeExpiredLocked (ps_pool s) 0 = (pl_q (ps_pool s), (ps_pool s)\<lparr>pl_q := []\<rparr>)"
    by (simp add: takeExpiredLocked_def)
  note st = pool_step.collect [OF this assms]
  show ?thesis
    by (rule exI, rule inner_stepI [OF st]) (use assms in \<open>simp_all add: section_defs\<close>)
next
  case (Cons t ts)
  let ?p = "(ps_pool s)\<lparr>pl_q := ts\<rparr>"
  have "pop_locked (ps_pool s) 0 = (Some t, filter (late (ps_pool s) 0) (pl_q (ps_pool s)), ?p)"
    using Cons by (simp add: pop_locked_def takeExpiredLocked_def)
  note st = pool_step.pop [OF this]
  show ?thesis
    by (rule exI, rule inner_stepI [OF st]) (simp_all add: section_defs)
qed

lemma fillLocked_range:
  assumes "1 \<le> pl_depth p"
  shows "0 \<le> fillLocked p \<and> fillLocked p \<le> 100 \<and> (fillLocked p = 100 \<longleftrightarrow> pl_depth p \<le> length (pl_q p))"
proof (cases "pl_depth p \<le> length (pl_q p)")
  case False
  then have "length (pl_q p) * 100 div pl_depth p < 100"
    using assms by (simp add: div_less_iff_less_mult)
  moreover have "int (length (pl_q p)) * 100 div int (pl_depth p) = int (length (pl_q p) * 100 div pl_depth p)"
    by (simp add: zdiv_int)
  ultimately show ?thesis using False by (simp add: fillLocked_def)
qed (simp add: fillLocked_def)

subsection \<open>Properties\<close>

text \<open>
  No task is lost or answered twice.  However submitters, workers and the sweeper interleave, a
  submitted task is at every moment either in the queue, in the hands of one goroutine, or answered
  by one call of the handler; when nothing is queued or in hand, every submission has been answered
  exactly once.
\<close>

theorem tasks_conserved:
  assumes "pool_reach (start (pool_New depth reserve minBudget full)) s"
  shows "known s = image_mset same_task (mset (ps_submitted s)) \<and>
    (quiescent s \<longrightarrow>
       image_mset same_task (mset (map fst (ps_answers s))) = image_mset same_task (mset (ps_submitted s)))"
proof -
  have "known s = image_mset same_task (mset (ps_submitted s))"
    using reach_conserved [OF assms] by (simp add: conserved_def pool_New_def)
  then show ?thesis by (auto simp: quiescent_def known_def)
qed

text \<open>
  C25.  The discipline of the queue.  It never holds more tasks than its depth; the workers take tasks
  in the order they were accepted in; the counters count what they name: accepted tasks, answers for
  a full queue, answers for an exceeded deadline; the fill of a task is a percentage that is 100
  exactly when the queue was full.
\<close>

theorem queue_discipline:
  assumes "pool_reach (start (pool_New depth reserve minBudget full)) s"
  shows "length (pl_q (ps_pool s)) \<le> pl_depth (ps_pool s) \<and>
    subseq (ps_taken s @ pl_q (ps_pool s)) (ps_accepted s) \<and>
    pl_Accepted (ps_pool s) = length (ps_accepted s) \<and>
    pl_Shed (ps_pool s) = count_why ReasonQueueLimit (ps_answers s) \<and>
    pl_Expired (ps_pool s) = count_why ReasonDeadlineExceeded (ps_answers s) \<and>
    0 \<le> fillLocked (ps_pool s) \<and> fillLocked (ps_pool s) \<le> 100 \<and>
    (fillLocked (ps_pool s) = 100 \<longleftrightarrow> length (pl_q (ps_pool s)) = pl_depth (ps_pool s))"
proof -
  have inv: "pool_inv s" using assms pool_inv_start by (rule reach_pool_inv)
  then have "1 \<le> pl_depth (ps_pool s)" by (simp add: pool_inv_def)
  from fillLocked_range [OF this] inv show ?thesis by (auto simp: pool_inv_def)
qed

text \<open>
  The queue drains.  As long as something is queued or in hand some goroutine can move, and
  without new submissions every move reduces the work that is left, so the workers come to the end
  of the queue: \<open>Close\<close> returns with every task answered.
\<close>

theorem queue_drains:
  "(\<not> quiescent s \<longrightarrow> (\<exists>s'. inner_step s s')) \<and> (\<forall>s'. inner_step s s' \<longrightarrow> work_left s' < work_left s)"
proof -
  have "\<exists>s'. inner_step s s'" if "\<not> quiescent s"
  proof (cases "pl_q (ps_pool s) = []")
    case True
    with that obtain x where "x \<in># ps_hands s" by (auto simp: quiescent_def)
    then show ?thesis by (rule hand_moves)
  next
    case False
    then show ?thesis by (rule queue_moves)
  qed
  then show ?thesis using inner_step_less by blast
qed

subsection \<open>Witnesses\<close>

definition blank_request :: request where
  "blank_request =
     \<lparr>rq_V = 2, rq_RID = ''a1'', rq_Ray = [], rq_Phase = PhaseRequest, rq_Wave = 0,
      rq_Inspector = ''cookie'', rq_DeadlineMS = 100, rq_AuditSubject = None, rq_Node = [],
      rq_Conn = \<lparr>cn_ClientIP = ''192.0.2.1'', cn_ClientPort = 0, cn_ServerIP = [], cn_ServerPort = 0,
                 cn_TLS = None\<rparr>,
      rq_HTTP = \<lparr>h_Method = ''GET'', h_Scheme = ''https'', h_Host = ''shop'', h_URI = ''/'',
                 h_ArgsSize = 14, h_Version = ''1.1''\<rparr>,
      rq_Vars = None, rq_Needs = [],
      rq_Store = \<lparr>s_Headers = None, s_Args = None, s_Body = None\<rparr>,
      rq_RequestStore = None,
      rq_Route = \<lparr>rt_ServerName = [], rt_Location = [], rt_Profile = ''shop''\<rparr>,
      rq_Score = \<lparr>sc_Total = 0, sc_DenyAt = 0\<rparr>, rq_Prior = [], rq_Response = None,
      rq_Release = None\<rparr>"

definition demo_task :: task where
  "demo_task = \<lparr>tk_Req = blank_request, tk_Reply = ''_INBOX.1'', tk_Fill = 0, tk_enqueued = 0\<rparr>"

definition demo_pool :: pool where
  "demo_pool = pool_New 4 10 5 []"

text \<open>One task submitted and let into the queue.\<close>

definition arrived :: pool_sys where
  "arrived = hold {#Submitting demo_task#} ((start demo_pool)\<lparr>ps_submitted := [demo_task]\<rparr>)"

definition queued :: pool_sys where
  "queued = accept demo_task (enqueueLocked demo_task demo_pool) (let_go (Submitting demo_task) arrived)"

lemma queued_reach: "pool_reach (start (pool_New 4 10 5 [])) queued"
proof -
  have "pool_reach (start demo_pool) arrived"
    using pool_step.arrive [of demo_task demo_task 0 "start demo_pool"] pool_reach.init [of "start demo_pool"]
    by (auto simp: arrived_def demo_task_def start_def intro: pool_reach.next_step)
  moreover have "submit_locked demo_pool demo_task = (demo_task, SubmitEnqueued (enqueueLocked demo_task demo_pool))"
    by (simp add: submit_locked_def demo_pool_def pool_New_def fillLocked_def demo_task_def Let_def)
  then have "pool_step arrived queued"
    unfolding queued_def
    by (intro pool_step.submit_enqueue) (simp_all add: arrived_def hold_def start_def)
  ultimately show ?thesis
    unfolding demo_pool_def [symmetric] by (rule pool_reach.next_step)
qed

theorem tasks_conserved_witness: "known queued = {#same_task demo_task#}"
proof -
  have "ps_submitted queued = [demo_task]"
    by (simp add: queued_def arrived_def accept_def let_go_def hold_def)
  then show ?thesis using tasks_conserved [OF queued_reach] by simp
qed

theorem queue_discipline_witness:
  "pl_Accepted (ps_pool queued) = 1 \<and> length (pl_q (ps_pool queued)) \<le> 4"
proof -
  have "ps_accepted queued = [demo_task]" "pl_depth (ps_pool queued) = 4"
    by (simp_all add: queued_def arrived_def accept_def let_go_def hold_def start_def enqueueLocked_def
        demo_pool_def pool_New_def)
  then show ?thesis using queue_discipline [OF queued_reach] by simp
qed

theorem queue_drains_witness: "\<exists>s'. inner_step queued s' \<and> work_left s' < work_left queued"
proof -
  have "\<not> quiescent queued"
    by (simp add: quiescent_def queued_def accept_def enqueueLocked_def)
  then show ?thesis using queue_drains [of queued] by blast
qed

end
