(* ===== verification/Handler.thy ===== *)
theory Handler
  imports ProfileStore Source Lists Queue
begin

text \<open>
  The handler of requests (\<^verbatim>\<open>cmd/inspector/handler.go\<close>): from a message of the bus to the
  reply and its side effects.  The snapshot of profiles, the mirror of lists, the signing key, the
  clock and the random bytes are arguments; the messages published, the audit records and the list
  writes are results.  Log output and the measured engine time are left out.
\<close>

subsection \<open>Codes\<close>

abbreviation codeOK :: string where "codeOK \<equiv> ''COOKIE_OK''"
abbreviation codeMalformedRequest :: string where "codeMalformedRequest \<equiv> ''COOKIE_MALFORMED_REQUEST''"
abbreviation codeUnsupportedVersion :: string where "codeUnsupportedVersion \<equiv> ''COOKIE_UNSUPPORTED_VERSION''"
abbreviation codeUnknownProfile :: string where "codeUnknownProfile \<equiv> ''COOKIE_UNKNOWN_PROFILE''"
abbreviation codeProfileOff :: string where "codeProfileOff \<equiv> ''COOKIE_PROFILE_OFF''"
abbreviation codeIdle :: string where "codeIdle \<equiv> ''COOKIE_IDLE''"
abbreviation codeInternalError :: string where "codeInternalError \<equiv> ''COOKIE_INTERNAL_ERROR''"
abbreviation codeStoreError :: string where "codeStoreError \<equiv> ''COOKIE_STORE_ERROR''"
abbreviation codeHeadersUnavailable :: string where "codeHeadersUnavailable \<equiv> ''COOKIE_HEADERS_UNAVAILABLE''"
abbreviation codeSecretMissing :: string where "codeSecretMissing \<equiv> ''COOKIE_SECRET_MISSING''"
abbreviation codeIssueFailed :: string where "codeIssueFailed \<equiv> ''COOKIE_ISSUE_FAILED''"
abbreviation codeGeoUnavailable :: string where "codeGeoUnavailable \<equiv> ''COOKIE_GEO_UNAVAILABLE''"


subsection \<open>Data\<close>

text \<open>The values of the engine map of an audit record.\<close>

datatype engine_val =
  EText string | ETexts "string list" | ENotes "list_note list" | ECount nat | EErr issue_err | EGeo

type_synonym engine = "engine_val gomap"

record details =
  dt_Engine :: "engine option"

definition no_details :: details where
  "no_details = \<lparr>dt_Engine = None\<rparr>"

definition engine_details :: "engine \<Rightarrow> details" where
  "engine_details en = \<lparr>dt_Engine = Some en\<rparr>"

record handler =
  hd_name :: string
  hd_versions :: "int list"
  hd_secret :: string
  hd_env :: source_env
  hd_sets :: "sets option"
  hd_lists :: bool
  hd_geo :: geo_ops
  hd_json :: "reply \<Rightarrow> string"

text \<open>What sending leaves behind: a published message, a record handed to the audit sink.\<close>

datatype effect = EPublish string string | EAudit "request option" reply details

definition Supports :: "handler \<Rightarrow> int \<Rightarrow> bool" where
  "Supports h v \<longleftrightarrow> list_ex (\<lambda>known. known = v) (hd_versions h)"

definition plain :: "request \<Rightarrow> string \<Rightarrow> reply" where
  "plain req code = (NewReply req VerdictAllow)\<lparr>rp_Reason := Some \<lparr>rn_Code = code, rn_Class = []\<rparr>\<rparr>"

definition fallback :: "handler \<Rightarrow> string \<Rightarrow> string \<Rightarrow> reply" where
  "fallback h payload code = FallbackReply (SniffRID payload) (hd_name h) code"

subsection \<open>Sending\<close>

definition handler_send :: "handler \<Rightarrow> string \<Rightarrow> reply \<Rightarrow> request option \<Rightarrow> details \<Rightarrow> effect list" where
  "handler_send h subject reply req det =
     (if subject = [] then []
      else (case (case reply_Marshal (hd_json h) reply of
                    Inr payload \<Rightarrow> Some payload
                  | Inl _ \<Rightarrow>
                      (case reply_Marshal (hd_json h)
                              (FallbackReply (rp_RID reply) (rp_Inspector reply) codeInternalError) of
                         Inl _ \<Rightarrow> None | Inr payload \<Rightarrow> Some payload)) of
              None \<Rightarrow> []
            | Some payload \<Rightarrow> [EPublish subject payload, EAudit req reply det]))"

definition recoverInto :: "handler \<Rightarrow> string \<Rightarrow> string \<Rightarrow> effect list may_panic \<Rightarrow> effect list" where
  "recoverInto h subject rid m =
     (case m of
        Done fx \<Rightarrow> fx
      | Panics \<Rightarrow>
          if subject = [] then []
          else handler_send h subject (FallbackReply rid (hd_name h) codeInternalError) None no_details)"

subsection \<open>States of the cookies\<close>

text \<open>The first value the request carries for a cookie.\<close>

definition raw_of :: "pair list \<Rightarrow> bool \<Rightarrow> cookie \<Rightarrow> string" where
  "raw_of pairs ok c =
     (if ok then (case find (\<lambda>p. fst p = c_Name c) pairs of None \<Rightarrow> [] | Some p \<Rightarrow> snd p) else [])"

fun states_loop ::
  "cookie list \<Rightarrow> pair list \<Rightarrow> bool \<Rightarrow> gotime \<Rightarrow> string \<Rightarrow> string gomap \<Rightarrow> seen_map \<Rightarrow>
   issue_err + (string gomap \<times> seen_map)" where
  "states_loop [] pairs ok now key sts vals = Inr (sts, vals)"
| "states_loop (c # cs) pairs ok now key sts vals =
     (let raw = raw_of pairs ok c
      in case cookie_Read c raw now key of
           Inl e \<Rightarrow> Inl e
         | Inr (state, tag) \<Rightarrow>
             states_loop cs pairs ok now key (sts(c_Name c \<mapsto> state))
               (if state = StatePresent \<or> state = StateExpired
                then vals(c_Name c \<mapsto> \<lparr>sn_Raw = raw, sn_Value = tag\<rparr>) else vals))"

definition handler_states ::
  "handler \<Rightarrow> profile \<Rightarrow> source \<Rightarrow> gotime \<Rightarrow> (issue_err + (string gomap \<times> seen_map)) \<times> source" where
  "handler_states h p src now =
     (if length (p_Cookies p) = 0 then (Inr (Map.empty, Map.empty), src)
      else (case source_Cookies (hd_env h) src of ((pairs, ok), src') \<Rightarrow>
              (states_loop (p_Cookies p) pairs ok now (hd_secret h) Map.empty Map.empty, src')))"

definition stateError :: "request \<Rightarrow> source \<Rightarrow> engine \<Rightarrow> issue_err \<Rightarrow> reply \<times> engine" where
  "stateError req src en err =
     (if sr_Fault src then (ErrorReply req codeStoreError, en(''store'' \<mapsto> EText (sr_Why src)))
      else if err = ErrNoSecret then (ErrorReply req codeSecretMissing, en(''cookie'' \<mapsto> EErr err))
      else (ErrorReply req codeIssueFailed, en(''cookie'' \<mapsto> EErr err)))"

definition tagsOf :: "seen_map \<Rightarrow> string gomap" where
  "tagsOf vals = map_option sn_Value \<circ> vals"

subsection \<open>Issuing and dropping\<close>

definition issued_cookie :: "cookie \<Rightarrow> string \<Rightarrow> set_cookie" where
  "issued_cookie c v =
     \<lparr>ck_Name = c_Name c, ck_Value = v, ck_Path = c_Path c,
      ck_MaxAge = (if c_MaxAgeSet c then Some (quot (c_MaxAge c) Second) else None)\<rparr>"

definition dropped_cookie :: "cookie \<Rightarrow> set_cookie" where
  "dropped_cookie c = \<lparr>ck_Name = c_Name c, ck_Value = [], ck_Path = c_Path c, ck_MaxAge = Some 0\<rparr>"

record applied =
  ap_cookies :: "set_cookie list"
  ap_empty :: "string list"
  ap_values :: seen_map

text \<open>
  The loop over the cookies to issue.  Each call of \<open>Issue\<close> reads the random source at most once:
  \<open>rnds\<close> holds the answers in order.  With an error it returns the names found empty so far.
\<close>

fun issue_loop ::
  "unicode \<Rightarrow> 's source_ops \<Rightarrow> string \<Rightarrow> gotime \<Rightarrow> cookie list \<Rightarrow> (nat \<Rightarrow> (nat \<Rightarrow> char) option) \<Rightarrow>
   applied \<Rightarrow> 's \<Rightarrow> ((issue_err \<times> string list) + applied) \<times> 's" where
  "issue_loop u ops key now [] rnds ap s = (Inr ap, s)"
| "issue_loop u ops key now (c # cs) rnds ap s =
     (case cookie_Issue u ops c s now key (rnds 0) of (r, s') \<Rightarrow>
        (case r of
           Inl ErrNoValue \<Rightarrow>
             issue_loop u ops key now cs (\<lambda>i. rnds (Suc i))
               (ap\<lparr>ap_empty := ap_empty ap @ [c_Name c]\<rparr>) s'
         | Inl e \<Rightarrow> (Inl (e, ap_empty ap), s')
         | Inr (v, tag) \<Rightarrow>
             issue_loop u ops key now cs (\<lambda>i. rnds (Suc i))
               (ap\<lparr>ap_cookies := ap_cookies ap @ [issued_cookie c v],
                   ap_values := (ap_values ap)(c_Name c \<mapsto> \<lparr>sn_Raw = v, sn_Value = tag\<rparr>)\<rparr>) s'))"

definition handler_apply ::
  "handler \<Rightarrow> outcome \<Rightarrow> seen_map \<Rightarrow> gotime \<Rightarrow> (nat \<Rightarrow> (nat \<Rightarrow> char) option) \<Rightarrow> source \<Rightarrow>
   ((issue_err \<times> string list) + applied) \<times> source" where
  "handler_apply h out vals now rnds src =
     (case issue_loop (en_uni (hd_env h)) (request_ops (hd_env h)) (hd_secret h) now (out_Issue out) rnds
             \<lparr>ap_cookies = [], ap_empty = [], ap_values = vals\<rparr> src of
        (Inl e, src') \<Rightarrow> (Inl e, src')
      | (Inr ap, src') \<Rightarrow>
          (Inr (ap\<lparr>ap_cookies := ap_cookies ap @ map dropped_cookie (out_Drop out)\<rparr>), src'))"

subsection \<open>Markers and list writes\<close>

definition handler_publish ::
  "handler \<Rightarrow> list_write list \<Rightarrow> seen_map \<Rightarrow> request \<Rightarrow> list_op list \<times> geo_err option" where
  "handler_publish h writes vals req =
     (if length writes = 0 \<or> \<not> hd_lists h then ([], None)
      else writeLists (hd_geo h) (cn_ClientIP (rq_Conn req)) writes vals None)"

text \<open>The action of one request, with its marker filled; \<open>Inl\<close> the marker that is not set.\<close>

definition expand_ask :: "seen_map \<Rightarrow> ask \<Rightarrow> string + action" where
  "expand_ask vals k =
     (let a = ask_Action k
      in if a_Marker a \<noteq> [] \<and> lbrace \<in> set (a_Marker a) then
           (case FillMarker (a_Marker a) (ask_Cookie k) vals [] of (filled, ok) \<Rightarrow>
              (let marker = TrimSpace filled
               in if \<not> ok \<or> marker = [] then Inl (a_Marker a)
                  else Inr (a\<lparr>a_Marker := (if length marker > MarkerMax then take MarkerMax marker
                                            else marker)\<rparr>)))
         else Inr a)"

fun expand :: "ask list \<Rightarrow> seen_map \<Rightarrow> action list \<times> string list" where
  "expand [] vals = ([], [])"
| "expand (k # ks) vals =
     (case expand ks vals of (out, dropped) \<Rightarrow>
        (case expand_ask vals k of
           Inl m \<Rightarrow> (out, m # dropped) | Inr a \<Rightarrow> (a # out, dropped)))"

subsection \<open>Inspecting a request\<close>

definition request_target :: "handler \<Rightarrow> request \<Rightarrow> string gomap \<Rightarrow> seen_map \<Rightarrow> target" where
  "request_target h req sts vals =
     \<lparr>tg_Phase = rq_Phase req, tg_Method = h_Method (rq_HTTP req), tg_URI = h_URI (rq_HTTP req),
      tg_Status = (case rq_Response req of None \<Rightarrow> 0 | Some rs \<Rightarrow> rs_Status rs),
      tg_States = sts, tg_Tags = tagsOf vals, tg_Sets = hd_sets h\<rparr>"

definition collect_all :: "handler \<Rightarrow> profile \<Rightarrow> request \<Rightarrow> int \<Rightarrow> target \<Rightarrow> outcome" where
  "collect_all h p req fill t =
     (let out = profile_Collect (en_uni (hd_env h)) p t
      in if rq_Phase req = PhaseRequest then
           (let more = CollectOverload p fill False
            in out\<lparr>out_Actions := out_Actions out @ out_Actions more,
                   out_Writes := out_Writes out @ out_Writes more,
                   out_Rules := out_Rules out @ out_Rules more\<rparr>)
         else out)"

definition cookieNames :: "set_cookie list \<Rightarrow> string list" where
  "cookieNames cs = map ck_Name cs"

definition set_if :: "bool \<Rightarrow> string \<Rightarrow> engine_val \<Rightarrow> engine \<Rightarrow> engine" where
  "set_if b k v en = (if b then en(k \<mapsto> v) else en)"

text \<open>The last part: the writes are published, then the reply is built.\<close>

definition finish_inspect ::
  "handler \<Rightarrow> request \<Rightarrow> outcome \<Rightarrow> applied \<Rightarrow> engine \<Rightarrow> reply \<times> details \<times> list_op list" where
  "finish_inspect h req out ap en0 =
     (let en1 = set_if (length (ap_cookies ap) > 0) ''cookies'' (ETexts (cookieNames (ap_cookies ap))) en0;
          en2 = set_if (length (out_Writes out) \<noteq> 0) ''lists'' (ECount (length (out_Writes out))) en1
      in case handler_publish h (out_Writes out) (ap_values ap) req of
           (ops, Some e) \<Rightarrow>
             (ErrorReply req codeGeoUnavailable, engine_details (en2(''geo'' \<mapsto> EGeo)), ops)
         | (ops, None) \<Rightarrow>
             (case expand (out_Actions out) (ap_values ap) of (actions, dropped) \<Rightarrow>
                ((plain req codeOK)\<lparr>rp_Cookies := ap_cookies ap, rp_Actions := actions\<rparr>,
                 engine_details (set_if (length dropped > 0) ''markers_dropped'' (ETexts dropped) en2),
                 ops)))"

definition apply_and_finish ::
  "handler \<Rightarrow> request \<Rightarrow> outcome \<Rightarrow> seen_map \<Rightarrow> gotime \<Rightarrow> (nat \<Rightarrow> (nat \<Rightarrow> char) option) \<Rightarrow> source \<Rightarrow>
   engine \<Rightarrow> reply \<times> details \<times> list_op list" where
  "apply_and_finish h req out vals now rnds src en =
     (case handler_apply h out vals now rnds src of
        (Inl (err, empties), src') \<Rightarrow>
          (let en1 = set_if (length empties > 0) ''no_value'' (ETexts empties) en
           in (ErrorReply req (if err = ErrNoSecret then codeSecretMissing else codeIssueFailed),
               engine_details (en1(''cookie'' \<mapsto> EErr err)), []))
      | (Inr ap, src') \<Rightarrow>
          finish_inspect h req out ap
            (set_if (length (ap_empty ap) > 0) ''no_value'' (ETexts (ap_empty ap)) en))"

definition inspect ::
  "handler \<Rightarrow> snapshot \<Rightarrow> request \<Rightarrow> int \<Rightarrow> gotime \<Rightarrow> (nat \<Rightarrow> (nat \<Rightarrow> char) option) \<Rightarrow>
   reply \<times> details \<times> list_op list" where
  "inspect h snap req fill now rnds =
     (case map_of snap (rt_Profile (rq_Route req)) of
        None \<Rightarrow> (ErrorReply req codeUnknownProfile, no_details, [])
      | Some p \<Rightarrow>
          if p_Mode p = ModeOff then (plain req codeProfileOff, no_details, [])
          else
            (let en = [''profile'' \<mapsto> EText (p_Name p), ''mode'' \<mapsto> EText (p_Mode p)];
                 src = newSource req
             in if length (p_Cookies p) > 0 \<and> \<not> HeadersPlaced src then
                  (ErrorReply req codeHeadersUnavailable,
                   engine_details (en(''store'' \<mapsto> EText ''request headers are not in waf_capture'')), [])
                else case handler_states h p src now of
                  (Inl err, src1) \<Rightarrow>
                    (case stateError req src1 en err of (reply, en') \<Rightarrow> (reply, engine_details en', []))
                | (Inr (sts, vals), src1) \<Rightarrow>
                    (let out = collect_all h p req fill (request_target h req sts vals);
                         en1 = en(''rules'' \<mapsto> ETexts (out_Rules out));
                         en2 = set_if (length (out_Notes out) > 0) ''notes'' (ENotes (out_Notes out)) en1
                     in if sr_Fault src1 then
                          (ErrorReply req codeStoreError,
                           engine_details (en2(''store'' \<mapsto> EText (sr_Why src1))), [])
                        else apply_and_finish h req out vals now rnds src1 en2)))"

subsection \<open>Tasks and messages\<close>

definition overloadOnShed ::
  "handler \<Rightarrow> snapshot \<Rightarrow> request \<Rightarrow> int \<Rightarrow> string \<Rightarrow> reply \<Rightarrow> engine \<Rightarrow> reply \<times> engine \<times> list_op list" where
  "overloadOnShed h snap req fill shed reply en =
     (if shed \<noteq> ReasonQueueLimit \<or> rq_Phase req \<noteq> PhaseRequest then (reply, en, [])
      else case map_of snap (rt_Profile (rq_Route req)) of
        None \<Rightarrow> (reply, en, [])
      | Some p \<Rightarrow>
          if p_Mode p = ModeOff then (reply, en, [])
          else (let out = CollectOverload p fill True
                in if length (out_Rules out) = 0 then (reply, en, [])
                   else (let en1 = en(''rules'' \<mapsto> ETexts (out_Rules out))
                         in case handler_publish h (out_Writes out) Map.empty req of (ops, failed) \<Rightarrow>
                              (reply\<lparr>rp_Actions := fst (expand (out_Actions out) Map.empty)\<rparr>,
                               set_if (failed \<noteq> None) ''geo'' EGeo en1, ops))))"

text \<open>\<open>evaluate\<close>: the effects on the bus and the calls of the list publisher.\<close>

definition evaluate ::
  "handler \<Rightarrow> snapshot \<Rightarrow> task \<Rightarrow> string \<Rightarrow> gotime \<Rightarrow> (nat \<Rightarrow> (nat \<Rightarrow> char) option) \<Rightarrow>
   effect list \<times> list_op list" where
  "evaluate h snap t shed now rnds =
     (case (if shed \<noteq> []
            then (case overloadOnShed h snap (tk_Req t) (tk_Fill t) shed (ShedReply (tk_Req t) shed)
                         [''shed'' \<mapsto> EText shed] of
                    (reply, en, ops) \<Rightarrow> (reply, engine_details en, ops))
            else inspect h snap (tk_Req t) (tk_Fill t) now rnds) of
        (reply, det, ops) \<Rightarrow>
          (recoverInto h (tk_Reply t) (rq_RID (tk_Req t))
             (Done (handler_send h (tk_Reply t) reply (Some (tk_Req t)) det)), ops))"

datatype received = Answered "effect list" | Ignored | Submitted task

definition receive :: "handler \<Rightarrow> (string \<Rightarrow> request option) \<Rightarrow> string \<Rightarrow> string \<Rightarrow> received" where
  "receive h unmarshal subject payload =
     (case protocol_Parse unmarshal payload of
        Inl e \<Rightarrow>
          Answered (handler_send h subject (fallback h payload codeMalformedRequest) None no_details)
      | Inr req \<Rightarrow>
          if \<not> Supports h (rq_V req) then
            Answered (handler_send h subject (plain req codeUnsupportedVersion) (Some req) no_details)
          else if rq_Release req \<noteq> None then Ignored
          else if rq_Phase req \<noteq> PhaseRequest \<and> rq_Phase req \<noteq> PhaseResponse then
            Answered (handler_send h subject (plain req codeIdle) (Some req) no_details)
          else Submitted \<lparr>tk_Req = req, tk_Reply = subject, tk_Fill = 0, tk_enqueued = 0\<rparr>)"

text \<open>The loader of the running program has no source of keys, so loading never panics.\<close>

definition bodyLoader :: "redis_client option \<Rightarrow> loader" where
  "bodyLoader oc =
     \<lparr>ld_store = map_option redis_store oc, ld_keys = None, ld_gcm = (\<lambda>_ _ _. None)\<rparr>"

definition load_object :: "redis_client option \<Rightarrow> locator \<Rightarrow> body" where
  "load_object oc loc =
     (case loader_Load (bodyLoader oc) (Some loc) of Done b \<Rightarrow> b | Panics \<Rightarrow> no_body)"

lemma load_object_Load: "loader_Load (bodyLoader oc) (Some loc) = Done (load_object oc loc)"
  using Load_no_panic [of "bodyLoader oc" "Some loc"]
  by (auto simp: load_object_def bodyLoader_def split: may_panic.splits)

subsection \<open>Shape of the replies\<close>

text \<open>A reply to a request: it echoes the request and asks for nothing but cookies and actions.\<close>

definition answers :: "request \<Rightarrow> reply \<Rightarrow> bool" where
  "answers req r \<longleftrightarrow>
     rp_V r = rq_V req \<and> rp_RID r = rq_RID req \<and> rp_Inspector r = rq_Inspector req \<and>
     rp_Score r = None \<and> rp_Response r = None \<and> rp_Redirect r = None \<and> rp_Headers r = None"

definition error_codes :: "string set" where
  "error_codes =
     {codeUnknownProfile, codeStoreError, codeHeadersUnavailable, codeSecretMissing, codeIssueFailed,
      codeGeoUnavailable}"

definition error_answer :: "request \<Rightarrow> reply \<Rightarrow> bool" where
  "error_answer req r \<longleftrightarrow> (\<exists>code \<in> error_codes. r = ErrorReply req code)"

lemma ErrorReply_fields [simp]:
  "rp_Verdict (ErrorReply req code) = VerdictError" "rp_Cookies (ErrorReply req code) = []"
  "rp_Actions (ErrorReply req code) = []" "rp_Score (ErrorReply req code) = None"
  "rp_Reason (ErrorReply req code) = Some \<lparr>rn_Code = code, rn_Class = []\<rparr>"
  "answers req (ErrorReply req code)"
  by (simp_all add: answers_def reply_defs)

lemma plain_fields [simp]:
  "rp_Verdict (plain req code) = VerdictAllow" "rp_Cookies (plain req code) = []"
  "rp_Actions (plain req code) = []" "rp_Score (plain req code) = None"
  "rp_Reason (plain req code) = Some \<lparr>rn_Code = code, rn_Class = []\<rparr>"
  "answers req (plain req code)"
  "answers req ((plain req code)\<lparr>rp_Cookies := cs, rp_Actions := as\<rparr>)"
  by (simp_all add: answers_def plain_def reply_defs)

lemma ShedReply_fields [simp]:
  "rp_Verdict (ShedReply req code) = VerdictError" "rp_Cookies (ShedReply req code) = []"
  "rp_Reason (ShedReply req code) = Some \<lparr>rn_Code = code, rn_Class = ClassOverload\<rparr>"
  "answers req (ShedReply req code)" "answers req ((ShedReply req code)\<lparr>rp_Actions := as\<rparr>)"
  by (simp_all add: answers_def reply_defs)

lemma error_answerI: "code \<in> error_codes \<Longrightarrow> error_answer req (ErrorReply req code)"
  by (auto simp: error_answer_def)

lemma code_in [simp]:
  "codeUnknownProfile \<in> error_codes" "codeStoreError \<in> error_codes"
  "codeHeadersUnavailable \<in> error_codes" "codeSecretMissing \<in> error_codes"
  "codeIssueFailed \<in> error_codes" "codeGeoUnavailable \<in> error_codes"
  by (simp_all add: error_codes_def)

lemma error_answer_fields:
  "error_answer req r \<Longrightarrow>
     answers req r \<and> rp_Verdict r = VerdictError \<and> rp_Cookies r = [] \<and> rp_Actions r = [] \<and>
     (\<exists>code \<in> error_codes. rp_Reason r = Some \<lparr>rn_Code = code, rn_Class = []\<rparr>)"
  by (auto simp: error_answer_def)

subsection \<open>Issued cookies\<close>

definition good_value :: "string \<Rightarrow> bool" where
  "good_value v \<longleftrightarrow> v \<noteq> [] \<and> length v \<le> ValueMax \<and> list_all value_char v"

lemma issue_good:
  "cookie_Issue u ops c s now key rnd = (Inr (v, tag), s') \<Longrightarrow> good_value v"
  using issue_alphabet_aux [of u ops c s now key rnd v tag s']
  by (auto simp: good_value_def value_char_def list_all_iff cookie_limits)

lemma issue_loop_Inr:
  assumes "issue_loop u ops key now cs rnds ap s = (Inr ap', s')"
  shows "\<exists>ivs. ap_cookies ap' = ap_cookies ap @ map (\<lambda>(c, v). issued_cookie c v) ivs \<and>
     subseq (map fst ivs) cs \<and> (\<forall>(c, v) \<in> set ivs. good_value v)"
  using assms
proof (induction cs arbitrary: rnds ap s)
  case Nil
  then show ?case by (intro exI [of _ "[]"]) simp
next
  case (Cons c cs)
  obtain r s1 where r: "cookie_Issue u ops c s now key (rnds 0) = (r, s1)"
    by (cases "cookie_Issue u ops c s now key (rnds 0)")
  show ?case
  proof (cases r)
    case (Inl e)
    then have "e = ErrNoValue" using Cons.prems r by (cases e) auto
    with Cons.prems r Inl have "issue_loop u ops key now cs (\<lambda>i. rnds (Suc i))
        (ap\<lparr>ap_empty := ap_empty ap @ [c_Name c]\<rparr>) s1 = (Inr ap', s')" by simp
    from Cons.IH [OF this] show ?thesis by (auto intro: list_emb_Cons)
  next
    case (Inr vt)
    obtain v tag where vt: "vt = (v, tag)" by (cases vt)
    with Cons.prems r Inr have "issue_loop u ops key now cs (\<lambda>i. rnds (Suc i))
        (ap\<lparr>ap_cookies := ap_cookies ap @ [issued_cookie c v],
            ap_values := (ap_values ap)(c_Name c \<mapsto> \<lparr>sn_Raw = v, sn_Value = tag\<rparr>)\<rparr>) s1 = (Inr ap', s')"
      by simp
    from Cons.IH [OF this] obtain ivs where
      "ap_cookies ap' = ap_cookies ap @ map (\<lambda>(c, v). issued_cookie c v) ((c, v) # ivs)"
      "subseq (map fst ivs) cs" "\<forall>(c, v) \<in> set ivs. good_value v"
      by auto
    moreover have "good_value v"
      using r Inr vt issue_good [of u ops c s now key "rnds 0" v tag s1] by simp
    ultimately show ?thesis by (intro exI [of _ "(c, v) # ivs"]) auto
  qed
qed

lemma handler_apply_Inr:
  assumes "handler_apply h out vals now rnds src = (Inr ap, src')"
  shows "\<exists>ivs. ap_cookies ap = map (\<lambda>(c, v). issued_cookie c v) ivs @ map dropped_cookie (out_Drop out) \<and>
     subseq (map fst ivs) (out_Issue out) \<and> (\<forall>(c, v) \<in> set ivs. good_value v)"
proof -
  from assms obtain ap0 where
    loop: "issue_loop (en_uni (hd_env h)) (request_ops (hd_env h)) (hd_secret h) now (out_Issue out) rnds
      \<lparr>ap_cookies = [], ap_empty = [], ap_values = vals\<rparr> src = (Inr ap0, src')"
    and ap: "ap = ap0\<lparr>ap_cookies := ap_cookies ap0 @ map dropped_cookie (out_Drop out)\<rparr>"
    by (auto simp: handler_apply_def split: prod.splits sum.splits)
  from issue_loop_Inr [OF loop] ap show ?thesis by auto
qed

lemma distinct_subseq: "subseq xs ys \<Longrightarrow> distinct ys \<Longrightarrow> distinct xs"
  by (induction rule: list_emb.induct) (auto dest: list_emb_set)

subsection \<open>Every way through \<open>inspect\<close>\<close>

text \<open>The reply when everything went well.\<close>

definition ok_answer :: "handler \<Rightarrow> profile \<Rightarrow> request \<Rightarrow> int \<Rightarrow> reply \<Rightarrow> bool" where
  "ok_answer h p req fill r \<longleftrightarrow>
     answers req r \<and> rp_Verdict r = VerdictAllow \<and>
     rp_Reason r = Some \<lparr>rn_Code = codeOK, rn_Class = []\<rparr> \<and>
     (\<exists>t ivs vals. let out = collect_all h p req fill t in
        rp_Cookies r = map (\<lambda>(c, v). issued_cookie c v) ivs @ map dropped_cookie (out_Drop out) \<and>
        subseq (map fst ivs) (out_Issue out) \<and> (\<forall>(c, v) \<in> set ivs. good_value v) \<and>
        rp_Actions r = fst (expand (out_Actions out) vals))"

lemma finish_inspect_cases:
  assumes "finish_inspect h req out ap en = (r, d, ops)"
  shows "error_answer req r \<or>
    r = (plain req codeOK)\<lparr>rp_Cookies := ap_cookies ap,
           rp_Actions := fst (expand (out_Actions out) (ap_values ap))\<rparr>"
  using assms
  by (auto simp: finish_inspect_def Let_def error_answerI split: prod.splits option.splits)

lemma apply_and_finish_cases:
  assumes "apply_and_finish h req (collect_all h p req fill t) vals now rnds src en = (r, d, ops)"
  shows "error_answer req r \<or> ok_answer h p req fill r"
proof -
  let ?out = "collect_all h p req fill t"
  obtain res src' where res: "handler_apply h ?out vals now rnds src = (res, src')"
    by (cases "handler_apply h ?out vals now rnds src")
  show ?thesis
  proof (cases res)
    case (Inl e)
    with assms res show ?thesis
      by (auto simp: apply_and_finish_def Let_def error_answerI split: prod.splits)
  next
    case (Inr ap)
    with assms res have "\<exists>en'. finish_inspect h req ?out ap en' = (r, d, ops)"
      by (auto simp: apply_and_finish_def)
    then obtain en' where "finish_inspect h req ?out ap en' = (r, d, ops)" by blast
    from finish_inspect_cases [OF this] handler_apply_Inr [of h ?out vals now rnds src ap src'] res Inr
    show ?thesis by (fastforce simp: ok_answer_def Let_def)
  qed
qed

lemma stateError_cases: "stateError req src en err = (r, en') \<Longrightarrow> error_answer req r"
  by (auto simp: stateError_def error_answerI split: if_splits)

lemma inspect_cases:
  assumes "inspect h snap req fill now rnds = (r, d, ops)"
  obtains (err) "error_answer req r"
  | (off) p where "map_of snap (rt_Profile (rq_Route req)) = Some p" "p_Mode p = ModeOff"
      "r = plain req codeProfileOff" "ops = []"
  | (ok) p where "map_of snap (rt_Profile (rq_Route req)) = Some p" "p_Mode p \<noteq> ModeOff"
      "ok_answer h p req fill r"
proof (cases "map_of snap (rt_Profile (rq_Route req))")
  case None
  with assms show thesis by (intro err) (auto simp: inspect_def error_answerI)
next
  case (Some p)
  show thesis
  proof (cases "p_Mode p = ModeOff")
    case True
    with Some assms show thesis by (intro off [OF Some True]) (auto simp: inspect_def)
  next
    case False
    obtain res src1 where st: "handler_states h p (newSource req) now = (res, src1)"
      by (cases "handler_states h p (newSource req) now")
    have "error_answer req r \<or> ok_answer h p req fill r"
    proof (cases res)
      case (Inl e)
      with Some False st assms show ?thesis
        by (auto simp: inspect_def Let_def error_answerI stateError_cases split: if_splits prod.splits)
    next
      case (Inr sv)
      with Some False st assms show ?thesis
        by (auto simp: inspect_def Let_def error_answerI split: if_splits prod.splits
            dest!: apply_and_finish_cases)
    qed
    with ok [OF Some False] err show thesis by blast
  qed
qed

lemma collect_all_sets:
  "out_Issue (collect_all h p req fill t) = out_Issue (profile_Collect (en_uni (hd_env h)) p t)"
  "out_Drop (collect_all h p req fill t) = out_Drop (profile_Collect (en_uni (hd_env h)) p t)"
  by (simp_all add: collect_all_def Let_def)

lemma ok_answer_cookies:
  assumes "ok_answer h p req fill r"
  shows "distinct (map ck_Name (rp_Cookies r)) \<and>
    (\<forall>k \<in> set (rp_Cookies r). ck_Value k = [] \<and> ck_MaxAge k = Some 0 \<or> good_value (ck_Value k))"
proof -
  from assms obtain t ivs where ck: "rp_Cookies r = map (\<lambda>(c, v). issued_cookie c v) ivs @
      map dropped_cookie (out_Drop (collect_all h p req fill t))"
    and sub: "subseq (map fst ivs) (out_Issue (collect_all h p req fill t))"
    and good: "\<forall>(c, v) \<in> set ivs. good_value v"
    by (auto simp: ok_answer_def Let_def)
  have names: "map ck_Name (rp_Cookies r) =
      map c_Name (map fst ivs @ out_Drop (collect_all h p req fill t))"
    by (auto simp: ck issued_cookie_def dropped_cookie_def)
  have "subseq (map c_Name (map fst ivs @ out_Drop (collect_all h p req fill t)))
     (map c_Name (out_Issue (collect_all h p req fill t) @ out_Drop (collect_all h p req fill t)))"
    using subseq_map [OF sub, of c_Name] by (auto intro!: list_emb_append_mono)
  then have "distinct (map ck_Name (rp_Cookies r))"
    unfolding names using collect_names_distinct by (simp only: collect_all_sets distinct_subseq)
  with good show ?thesis
    by (auto simp: ck issued_cookie_def dropped_cookie_def)
qed

subsection \<open>Properties of replies\<close>

text \<open>
  C4.  The inspector never denies.  Whatever the request, the profile and the environment, the reply
  of \<open>inspect\<close> echoes the request and its verdict is \<open>allow\<close> or \<open>error\<close>; an error carries one of
  the six error codes and neither cookies nor actions.
\<close>

theorem inspect_never_denies:
  assumes "inspect h snap req fill now rnds = (r, d, ops)"
  shows "answers req r \<and>
    (rp_Verdict r = VerdictAllow \<or>
     rp_Verdict r = VerdictError \<and> rp_Cookies r = [] \<and> rp_Actions r = [] \<and>
     (\<exists>code \<in> error_codes. rp_Reason r = Some \<lparr>rn_Code = code, rn_Class = []\<rparr>))"
  using assms
proof (cases rule: inspect_cases)
  case err
  then show ?thesis using error_answer_fields [of req r] by simp
next
  case (off p)
  then show ?thesis by simp
next
  case (ok p)
  then show ?thesis by (simp add: ok_answer_def)
qed

text \<open>
  C24.  The cookies of a reply: no name twice; each is either a deletion (empty value, maximum age
  zero) or a value that is not empty, fits 256 bytes and needs no quoting.
\<close>

theorem reply_cookies:
  assumes "inspect h snap req fill now rnds = (r, d, ops)"
  shows "distinct (map ck_Name (rp_Cookies r)) \<and>
    (\<forall>k \<in> set (rp_Cookies r). ck_Value k = [] \<and> ck_MaxAge k = Some 0 \<or> good_value (ck_Value k))"
  using assms
proof (cases rule: inspect_cases)
  case err
  then show ?thesis using error_answer_fields [of req r] by simp
next
  case (off p)
  then show ?thesis by simp
next
  case (ok p)
  then show ?thesis by (simp add: ok_answer_cookies)
qed

lemma overloadOnShed_reply:
  assumes "overloadOnShed h snap req fill shed (ShedReply req shed) en = (r, en', ops)"
  shows "answers req r \<and> rp_Verdict r = VerdictError \<and> rp_Cookies r = [] \<and>
    rp_Reason r = Some \<lparr>rn_Code = shed, rn_Class = ClassOverload\<rparr>"
  using assms
  by (auto simp: overloadOnShed_def Let_def split: if_splits option.splits prod.splits)

lemma send_answer:
  assumes "subject \<noteq> []" and "answers req r"
  shows "handler_send h subject r oreq det = [EPublish subject (hd_json h r), EAudit oreq r det]"
  using assms by (simp add: handler_send_def reply_Marshal_def answers_def)

lemma evaluate_sends:
  assumes "tk_Reply t \<noteq> []"
  shows "\<exists>r det. fst (evaluate h snap t shed now rnds) =
      [EPublish (tk_Reply t) (hd_json h r), EAudit (Some (tk_Req t)) r det] \<and>
    answers (tk_Req t) r \<and> rp_Verdict r \<in> {VerdictAllow, VerdictError} \<and>
    (shed \<noteq> [] \<longrightarrow> rp_Reason r = Some \<lparr>rn_Code = shed, rn_Class = ClassOverload\<rparr> \<and> rp_Cookies r = [])"
proof (cases "shed = []")
  case True
  obtain r d ops where i: "inspect h snap (tk_Req t) (tk_Fill t) now rnds = (r, d, ops)"
    by (cases "inspect h snap (tk_Req t) (tk_Fill t) now rnds")
  have "answers (tk_Req t) r \<and> rp_Verdict r \<in> {VerdictAllow, VerdictError}"
    using i
  proof (cases rule: inspect_cases)
    case err
    then show ?thesis using error_answer_fields [of "tk_Req t" r] by simp
  qed (simp_all add: ok_answer_def)
  with True i send_answer [OF assms, of "tk_Req t" r h "Some (tk_Req t)" d] show ?thesis
    by (auto simp: evaluate_def recoverInto_def)
next
  case False
  obtain r en ops where o: "overloadOnShed h snap (tk_Req t) (tk_Fill t) shed (ShedReply (tk_Req t) shed)
      [''shed'' \<mapsto> EText shed] = (r, en, ops)"
    by (cases "overloadOnShed h snap (tk_Req t) (tk_Fill t) shed (ShedReply (tk_Req t) shed)
      [''shed'' \<mapsto> EText shed]")
  note sh = overloadOnShed_reply [OF o]
  with False o send_answer [OF assms, of "tk_Req t" r h "Some (tk_Req t)" "engine_details en"]
  show ?thesis by (auto simp: evaluate_def recoverInto_def)
qed

lemma receive_cases:
  assumes "subject \<noteq> []"
  shows "case receive h unmarshal subject payload of
      Ignored \<Rightarrow> (\<exists>req. protocol_Parse unmarshal payload = Inr req \<and> rq_Release req \<noteq> None)
    | Submitted t \<Rightarrow> unmarshal payload = Some (tk_Req t) \<and> tk_Reply t = subject \<and>
        rq_Phase (tk_Req t) \<in> {PhaseRequest, PhaseResponse} \<and> rq_V (tk_Req t) \<in> set (hd_versions h) \<and>
        rq_RID (tk_Req t) \<noteq> [] \<and> rq_Release (tk_Req t) = None
    | Answered fx \<Rightarrow> \<exists>r oreq. fx = [EPublish subject (hd_json h r), EAudit oreq r no_details] \<and>
        (case protocol_Parse unmarshal payload of
           Inl e \<Rightarrow> rp_Verdict r = VerdictError \<and> rp_RID r = SniffRID payload
         | Inr req \<Rightarrow> rp_Verdict r = VerdictAllow \<and> answers req r)"
proof (cases "protocol_Parse unmarshal payload")
  case (Inl e)
  with assms show ?thesis
    by (simp add: receive_def handler_send_def reply_Marshal_def fallback_def FallbackReply_def)
next
  case (Inr req)
  from protocol_Parse_Inr [OF Inr] show ?thesis
    using Inr assms send_answer [OF assms, of req]
    by (auto simp: receive_def Supports_def list_ex_iff)
qed

text \<open>
  C8.  Every task is answered exactly once.  A task with a reply subject leads to one published
  message on that subject and one audit record, both of the same reply, which echoes the request;
  a task that was shed is answered with an error of the class \<open>overload\<close>, no cookies, and the reason
  it was shed for.
\<close>

theorem evaluate_answers_once:
  assumes "tk_Reply t \<noteq> []"
  shows "\<exists>r det. fst (evaluate h snap t shed now rnds) =
      [EPublish (tk_Reply t) (hd_json h r), EAudit (Some (tk_Req t)) r det] \<and>
    answers (tk_Req t) r \<and> rp_Verdict r \<in> {VerdictAllow, VerdictError} \<and>
    (shed \<noteq> [] \<longrightarrow> rp_Reason r = Some \<lparr>rn_Code = shed, rn_Class = ClassOverload\<rparr> \<and> rp_Cookies r = [])"
  using assms by (rule evaluate_sends)

text \<open>
  What happens to a message: one that does not parse is answered with an error under the
  identifier found in its text, a version or a phase the inspector does not serve is answered with
  \<open>allow\<close>, a release is ignored, and every other message becomes a task with its reply subject.
  Nothing else is ignored.
\<close>

theorem receive_spec:
  assumes "subject \<noteq> []"
  shows "case receive h unmarshal subject payload of
      Ignored \<Rightarrow> (\<exists>req. protocol_Parse unmarshal payload = Inr req \<and> rq_Release req \<noteq> None)
    | Submitted t \<Rightarrow> unmarshal payload = Some (tk_Req t) \<and> tk_Reply t = subject \<and>
        rq_Phase (tk_Req t) \<in> {PhaseRequest, PhaseResponse} \<and> rq_V (tk_Req t) \<in> set (hd_versions h) \<and>
        rq_RID (tk_Req t) \<noteq> [] \<and> rq_Release (tk_Req t) = None
    | Answered fx \<Rightarrow> \<exists>r oreq. fx = [EPublish subject (hd_json h r), EAudit oreq r no_details] \<and>
        (case protocol_Parse unmarshal payload of
           Inl e \<Rightarrow> rp_Verdict r = VerdictError \<and> rp_RID r = SniffRID payload
         | Inr req \<Rightarrow> rp_Verdict r = VerdictAllow \<and> answers req r)"
  using assms by (rule receive_cases)

subsection \<open>States of all cookies at once\<close>

lemma states_loop_Inr:
  assumes "distinct (map c_Name cs)"
    and "\<forall>c \<in> set cs. cookie_Read c (raw_of pairs ok c) now key = Inr (st c, tg c)"
  shows "\<exists>sts' vals'. states_loop cs pairs ok now key sts vals = Inr (sts', vals') \<and>
    (\<forall>c \<in> set cs. sts' (c_Name c) = Some (st c) \<and>
       vals' (c_Name c) = (if st c = StatePresent \<or> st c = StateExpired
          then Some \<lparr>sn_Raw = raw_of pairs ok c, sn_Value = tg c\<rparr> else vals (c_Name c))) \<and>
    (\<forall>n. n \<notin> c_Name ` set cs \<longrightarrow> sts' n = sts n \<and> vals' n = vals n)"
  using assms
proof (induction cs arbitrary: sts vals)
  case (Cons c cs)
  let ?vals = "if st c = StatePresent \<or> st c = StateExpired
    then vals(c_Name c \<mapsto> \<lparr>sn_Raw = raw_of pairs ok c, sn_Value = tg c\<rparr>) else vals"
  from Cons.prems have "distinct (map c_Name cs)" "c_Name c \<notin> c_Name ` set cs"
    "\<forall>c \<in> set cs. cookie_Read c (raw_of pairs ok c) now key = Inr (st c, tg c)" by auto
  with Cons.IH [of "sts(c_Name c \<mapsto> st c)" ?vals] obtain sts' vals' where
    ih: "states_loop cs pairs ok now key (sts(c_Name c \<mapsto> st c)) ?vals = Inr (sts', vals')"
    "\<forall>c \<in> set cs. sts' (c_Name c) = Some (st c) \<and>
       vals' (c_Name c) = (if st c = StatePresent \<or> st c = StateExpired
          then Some \<lparr>sn_Raw = raw_of pairs ok c, sn_Value = tg c\<rparr> else ?vals (c_Name c))"
    "\<forall>n. n \<notin> c_Name ` set cs \<longrightarrow> sts' n = (sts(c_Name c \<mapsto> st c)) n \<and> vals' n = ?vals n"
    by blast
  have "states_loop (c # cs) pairs ok now key sts vals = Inr (sts', vals')"
    using Cons.prems(2) ih(1) by (simp add: Let_def)
  moreover have "\<forall>d \<in> set cs. ?vals (c_Name d) = vals (c_Name d)"
    using \<open>c_Name c \<notin> c_Name ` set cs\<close> by (auto simp: image_iff)
  ultimately show ?case
    using ih(2,3) \<open>c_Name c \<notin> c_Name ` set cs\<close> by auto
qed simp

lemma cookie_Read_Nil [simp]: "cookie_Read c [] now key = Inr (StateAbsent, [])"
  by (simp add: cookie_Read_def)

lemma states_absent:
  assumes "distinct (map c_Name (p_Cookies p))"
    and "fst (source_Cookies (hd_env h) src) = ([], False)"
  shows "\<exists>sts. handler_states h p src now =
      (Inr (sts, Map.empty), if p_Cookies p = [] then src else snd (source_Cookies (hd_env h) src)) \<and>
    (\<forall>c \<in> set (p_Cookies p). sts (c_Name c) = Some StateAbsent)"
proof (cases "p_Cookies p = []")
  case True
  then show ?thesis by (simp add: handler_states_def)
next
  case False
  have "\<forall>c \<in> set (p_Cookies p). cookie_Read c (raw_of [] False c) now (hd_secret h) = Inr (StateAbsent, [])"
    by (simp add: raw_of_def)
  from states_loop_Inr [OF assms(1) this, of Map.empty Map.empty] obtain sts vals where
    st: "states_loop (p_Cookies p) [] False now (hd_secret h) Map.empty Map.empty = Inr (sts, vals)"
    "\<forall>c \<in> set (p_Cookies p). sts (c_Name c) = Some StateAbsent \<and> vals (c_Name c) = None"
    "\<forall>n. n \<notin> c_Name ` set (p_Cookies p) \<longrightarrow> vals n = None"
    by auto
  then have "vals n = None" for n by (cases "n \<in> c_Name ` set (p_Cookies p)") auto
  then have "vals = Map.empty" by (simp add: fun_eq_iff)
  with False assms(2) st show ?thesis
    by (cases "source_Cookies (hd_env h) src") (auto simp: handler_states_def)
qed

lemma placed_Headers:
  assumes "s_Headers (request_store req) = Some loc" and "Failed (en_load e loc)"
  shows "source_Cookies e (newSource req) =
    (([], False), (newSource req)\<lparr>sr_cookiesDone := True, sr_headersDone := True, sr_Fault := True,
       sr_Why := ''headers: '' @ bd_Unavailable (en_load e loc)\<rparr>)"
  using assms
  by (simp add: source_Cookies_def source_Headers_def source_store_def newSource_def)

lemma unavailable_Headers:
  assumes "s_Headers (request_store req) = Some loc" and "\<not> Failed (en_load e loc)"
    and "\<not> Available (en_load e loc) \<or> bd_Data (en_load e loc) = []"
  shows "source_Cookies e (newSource req) =
    (([], False), (newSource req)\<lparr>sr_cookiesDone := True, sr_headersDone := True\<rparr>)"
  using assms
  by (auto simp: source_Cookies_def source_Headers_def source_store_def newSource_def)

subsection \<open>Markers of the reply\<close>

lemma expand_ask_Inr:
  assumes "expand_ask vals k = Inr a" and "valid_action (ask_Action k)"
  shows "a = (ask_Action k)\<lparr>a_Marker := a_Marker a\<rparr>" and "length (a_Marker a) \<le> MarkerMax"
    and "a_Marker a = [] \<longleftrightarrow> a_Marker (ask_Action k) = []"
proof -
  have "length (a_Marker (ask_Action k)) \<le> MarkerMax"
    using assms(2) by (auto simp: valid_action_def valid_names_def CheckMarker_None split: if_splits)
  with assms(1) show "length (a_Marker a) \<le> MarkerMax"
    by (auto simp: expand_ask_def Let_def split: if_splits prod.splits)
  from assms(1) show "a = (ask_Action k)\<lparr>a_Marker := a_Marker a\<rparr>"
    by (auto simp: expand_ask_def Let_def split: if_splits prod.splits)
  from assms(1) show "a_Marker a = [] \<longleftrightarrow> a_Marker (ask_Action k) = []"
    by (auto simp: expand_ask_def Let_def MarkerMax_def split: if_splits prod.splits)
qed

lemma expand_Inr:
  "a \<in> set (fst (expand ks vals)) \<Longrightarrow> \<exists>k \<in> set ks. expand_ask vals k = Inr a"
  by (induction ks) (auto split: prod.splits sum.splits)

subsection \<open>Witnesses\<close>

text \<open>A request whose headers and arguments lie in the store.\<close>

definition demo_request :: request where
  "demo_request =
     \<lparr>rq_V = 2, rq_RID = ''a1'', rq_Ray = [], rq_Phase = PhaseRequest, rq_Wave = 0,
      rq_Inspector = ''cookie'', rq_DeadlineMS = 100, rq_AuditSubject = None, rq_Node = [],
      rq_Conn = \<lparr>cn_ClientIP = ''192.0.2.1'', cn_ClientPort = 0, cn_ServerIP = [], cn_ServerPort = 0,
                 cn_TLS = None\<rparr>,
      rq_HTTP = \<lparr>h_Method = ''GET'', h_Scheme = ''https'', h_Host = ''shop'', h_URI = ''/'',
                 h_ArgsSize = 14, h_Version = ''1.1''\<rparr>,
      rq_Vars = None, rq_Needs = [],
      rq_Store = \<lparr>s_Headers = Some (placed_at ''h''), s_Args = Some (placed_at ''q''), s_Body = None\<rparr>,
      rq_RequestStore = None,
      rq_Route = \<lparr>rt_ServerName = [], rt_Location = [], rt_Profile = ''shop''\<rparr>,
      rq_Score = \<lparr>sc_Total = 0, sc_DenyAt = 0\<rparr>, rq_Prior = [], rq_Response = None,
      rq_Release = None\<rparr>"

definition demo_handler :: "header list \<Rightarrow> handler" where
  "demo_handler hs =
     \<lparr>hd_name = ''cookie'', hd_versions = [2], hd_secret = demo_key,
      hd_env = \<lparr>en_uni = ascii_only, en_load = load_object (Some demo_client),
                en_pairs = (\<lambda>_. Some hs), en_order = stdHeaders\<rparr>,
      hd_sets = None, hd_lists = True,
      hd_geo = \<lparr>geo_Write = (\<lambda>_ _. None), geo_Networked = (\<lambda>_. False)\<rparr>, hd_json = rp_Verdict\<rparr>"

theorem inspect_never_denies_witness:
  "rp_Verdict (fst (inspect (demo_handler []) [] demo_request 0 0 (\<lambda>_. None))) \<noteq> VerdictDeny"
proof -
  obtain r d ops where i: "inspect (demo_handler []) [] demo_request 0 0 (\<lambda>_. None) = (r, d, ops)"
    by (cases "inspect (demo_handler []) [] demo_request 0 0 (\<lambda>_. None)")
  from inspect_never_denies [OF i] show ?thesis by (auto simp: i)
qed

theorem reply_cookies_witness:
  "distinct (map ck_Name (rp_Cookies (fst (inspect (demo_handler []) [(''shop'', number_profile)]
     demo_request 0 0 (\<lambda>_. None)))))"
proof -
  obtain r d ops where i: "inspect (demo_handler []) [(''shop'', number_profile)] demo_request 0 0
      (\<lambda>_. None) = (r, d, ops)"
    by (cases "inspect (demo_handler []) [(''shop'', number_profile)] demo_request 0 0 (\<lambda>_. None)")
  from reply_cookies [OF i] show ?thesis by (simp add: i)
qed

theorem evaluate_answers_once_witness:
  "length (fst (evaluate (demo_handler []) [] \<lparr>tk_Req = demo_request, tk_Reply = ''_INBOX.1'', tk_Fill = 0, tk_enqueued = 0\<rparr>
     ReasonQueueLimit 0 (\<lambda>_. None))) = 2"
  using evaluate_answers_once [of "\<lparr>tk_Req = demo_request, tk_Reply = ''_INBOX.1'', tk_Fill = 0, tk_enqueued = 0\<rparr>"
      "demo_handler []" "[]" ReasonQueueLimit 0 "\<lambda>_. None"] by auto

theorem receive_spec_witness:
  "receive (demo_handler []) (\<lambda>_. None) ''_INBOX.1'' ''{}'' \<noteq> Ignored"
proof
  assume i: "receive (demo_handler []) (\<lambda>_. None) ''_INBOX.1'' ''{}'' = Ignored"
  have "''_INBOX.1'' \<noteq> ([] :: string)" by simp
  from receive_spec [OF this, where h = "demo_handler []" and unmarshal = "\<lambda>_. None" and
      payload = "''{}''"] i show False
    by (simp add: protocol_Parse_def)
qed

end
