(* ===== verification/AuditSink.thy ===== *)
theory AuditSink
  imports Handler "HOL-Library.Multiset"
begin

text \<open>
  Audit records (\<^verbatim>\<open>internal/audit/audit.go\<close>, \<^verbatim>\<open>sink.go\<close>): the event built from a request and its
  reply, and the sink that collects events and publishes them in batches per subject.  The sections
  of the sink under its lock are functions; \<open>sink_step\<close> interleaves the calls of \<open>Add\<close> with the
  goroutine that flushes.  The encoder of events, the text of the clock and the bus are arguments.
\<close>

subsection \<open>Events\<close>

abbreviation (input) Audit_Kind :: string where "Audit_Kind \<equiv> ''inspector''"
abbreviation (input) Audit_Version :: int where "Audit_Version \<equiv> 1"

record finding =
  fd_Code :: string
  fd_Severity :: string
  fd_Target :: string
  fd_Offset :: "int option"
  fd_Length :: "int option"
  fd_Rule :: string
  fd_Evidence :: string

text \<open>The details of an answer with the measured time in microseconds.\<close>

record audit_details =
  ad_EngineUS :: int
  ad_Findings :: "finding list option"
  ad_Engine :: "engine option"

definition measured :: "int \<Rightarrow> details \<Rightarrow> audit_details" where
  "measured us det = \<lparr>ad_EngineUS = us, ad_Findings = None, ad_Engine = dt_Engine det\<rparr>"

record event =
  ev_V :: int
  ev_Kind :: string
  ev_TS :: string
  ev_Ray :: string
  ev_Node :: string
  ev_Phase :: string
  ev_Inspector :: string
  ev_Profile :: string
  ev_Verdict :: string
  ev_Score :: "int option"
  ev_EngineUS :: int
  ev_Findings :: "finding list"
  ev_Engine :: "engine option"

definition audit_Build :: "string \<Rightarrow> request option \<Rightarrow> reply option \<Rightarrow> audit_details \<Rightarrow> event" where
  "audit_Build ts req reply det =
     (let ev = \<lparr>ev_V = Audit_Version, ev_Kind = Audit_Kind, ev_TS = ts, ev_Ray = [], ev_Node = [],
                ev_Phase = [], ev_Inspector = [], ev_Profile = [], ev_Verdict = [], ev_Score = None,
                ev_EngineUS = ad_EngineUS det,
                ev_Findings = (case ad_Findings det of None \<Rightarrow> [] | Some fs \<Rightarrow> fs),
                ev_Engine = ad_Engine det\<rparr>;
          ev = (case req of
                  None \<Rightarrow> ev
                | Some r \<Rightarrow> ev\<lparr>ev_Ray := rq_Ray r, ev_Node := rq_Node r, ev_Phase := rq_Phase r,
                               ev_Inspector := rq_Inspector r, ev_Profile := rt_Profile (rq_Route r)\<rparr>)
      in case reply of
           None \<Rightarrow> ev
         | Some r \<Rightarrow>
             ev\<lparr>ev_Verdict := rp_Verdict r, ev_Score := rp_Score r,
                ev_Inspector := (if ev_Inspector ev = [] then rp_Inspector r else ev_Inspector ev)\<rparr>)"

subsection \<open>The sink\<close>

definition maxItems :: nat where "maxItems = 256"
definition maxSize :: nat where "maxSize = 524288"
definition maxPending :: nat where "maxPending = 50000"

record item =
  it_subject :: string
  it_body :: string

record sink =
  sk_pending :: "item list"
  sk_size :: nat
  sk_dropped :: nat
  sk_wake :: bool

definition NewSink :: sink where
  "NewSink = \<lparr>sk_pending = [], sk_size = 0, sk_dropped = 0, sk_wake = False\<rparr>"

definition sizeOf :: "item list \<Rightarrow> nat" where
  "sizeOf items = sum_list (map (\<lambda>it. length (it_body it) + 2) items)"

abbreviation (input) KindBatch :: string where "KindBatch \<equiv> ''batch''"

record envelope =
  en_V :: int
  en_Kind :: string
  en_Items :: "string list"

definition pack :: "item list \<Rightarrow> envelope" where
  "pack items = \<lparr>en_V = Audit_Version, en_Kind = KindBatch, en_Items = map it_body items\<rparr>"

text \<open>A published batch: the subject and the bodies of the envelope, whose other fields are constant.\<close>

datatype batch_msg = Batch string "string list"

definition kick :: "sink \<Rightarrow> sink" where
  "kick s = s\<lparr>sk_wake := True\<rparr>"

definition sink_append :: "item \<Rightarrow> sink \<Rightarrow> sink" where
  "sink_append it s =
     (let p = sk_pending s @ [it]; n = sk_size s + length (it_body it) + 2;
          cut = length p - maxPending;
          s1 = (if length p > maxPending
                then s\<lparr>sk_pending := drop cut p, sk_dropped := sk_dropped s + cut, sk_size := sizeOf (drop cut p)\<rparr>
                else s\<lparr>sk_pending := p, sk_size := n\<rparr>)
      in if length (sk_pending s1) \<ge> maxItems \<or> sk_size s1 \<ge> maxSize then kick s1 else s1)"

text \<open>\<open>Add\<close>: no record without a request or a subject for it; an event that cannot be encoded is an error.\<close>

datatype audit_err = MarshalFailed

definition sink_item :: "(event \<Rightarrow> string option) \<Rightarrow> string \<Rightarrow> request option \<Rightarrow> reply option \<Rightarrow> audit_details \<Rightarrow>
    audit_err + item option" where
  "sink_item json ts req reply det =
     (case (req, reply) of
        (Some r, Some p) \<Rightarrow>
          (case rq_AuditSubject r of
             None \<Rightarrow> Inr None
           | Some subj \<Rightarrow>
               if subj = [] then Inr None
               else (case json (audit_Build ts req reply det) of
                       None \<Rightarrow> Inl MarshalFailed
                     | Some b \<Rightarrow> Inr (Some \<lparr>it_subject = subj, it_body = b\<rparr>)))
      | _ \<Rightarrow> Inr None)"

definition sink_Add :: "(event \<Rightarrow> string option) \<Rightarrow> string \<Rightarrow> request option \<Rightarrow> reply option \<Rightarrow> audit_details \<Rightarrow>
    sink \<Rightarrow> audit_err option \<times> sink" where
  "sink_Add json ts req reply det s =
     (case sink_item json ts req reply det of
        Inl e \<Rightarrow> (Some e, s)
      | Inr None \<Rightarrow> (None, s)
      | Inr (Some it) \<Rightarrow> (None, sink_append it s))"

text \<open>Reading a missing key of a map of slices gives the empty slice.\<close>

definition lget :: "'a list gomap \<Rightarrow> string \<Rightarrow> 'a list" where
  "lget m k = (case m k of None \<Rightarrow> [] | Some xs \<Rightarrow> xs)"

lemma lget_simps [simp]: "lget Map.empty k = []" "lget (m(j \<mapsto> v)) k = (if k = j then v else lget m k)"
  by (simp_all add: lget_def)

text \<open>The order of the subjects and the items of each, as the loop of the code builds them.\<close>

fun group_loop :: "item list \<Rightarrow> string list \<Rightarrow> item list gomap \<Rightarrow> string list \<times> item list gomap" where
  "group_loop [] order m = (order, m)"
| "group_loop (it # its) order m =
     group_loop its (if m (it_subject it) = None then order @ [it_subject it] else order)
       (m(it_subject it \<mapsto> lget m (it_subject it) @ [it]))"

definition groupBySubject :: "item list \<Rightarrow> string list \<times> item list gomap" where
  "groupBySubject items = group_loop items [] Map.empty"

definition sink_send :: "string \<Rightarrow> item list \<Rightarrow> batch_msg" where
  "sink_send subject items = Batch subject (en_Items (pack items))"

lemma en_Items_pack [simp]: "en_Items (pack items) = map it_body items"
  by (simp add: pack_def)

definition sink_publish :: "item list \<Rightarrow> batch_msg list" where
  "sink_publish items =
     (if length items = 1 then [sink_send (it_subject (hd items)) (take 1 items)]
      else (case groupBySubject items of (order, grp) \<Rightarrow>
              map (\<lambda>subject. sink_send subject (lget grp subject)) order))"

text \<open>One round of \<open>flush\<close>: what is taken off, or nothing when nothing is pending.\<close>

definition flush_round :: "sink \<Rightarrow> (item list \<times> sink) option" where
  "flush_round s =
     (if sk_pending s = [] then None
      else (let n = (if length (sk_pending s) > maxItems then maxItems else length (sk_pending s));
                rest = drop n (sk_pending s)
            in Some (take n (sk_pending s), s\<lparr>sk_pending := rest, sk_size := sizeOf rest\<rparr>)))"

text \<open>The whole of \<open>flush\<close> when nothing is added meanwhile.\<close>

lemma flush_round_shorter:
  "flush_round s = Some (its, s') \<Longrightarrow> length (sk_pending s') < length (sk_pending s)"
  by (auto simp: flush_round_def Let_def maxItems_def split: if_splits)

function flush :: "sink \<Rightarrow> batch_msg list \<times> sink" where
  "flush s =
     (case flush_round s of
        None \<Rightarrow> ([], s)
      | Some (its, s1) \<Rightarrow> (case flush s1 of (ms, s2) \<Rightarrow> (sink_publish its @ ms, s2)))"
  by pat_completeness auto
termination
  by (relation "measure (\<lambda>s. length (sk_pending s))") (auto simp: flush_round_shorter)

declare flush.simps [simp del]

text \<open>
  \<open>Close\<close>: the first call lets the goroutine flush and leave, a later one or one on a nil sink does
  nothing.  The flag is the state of the \<^verbatim>\<open>sync.Once\<close>.
\<close>

definition sink_Close :: "(bool \<times> sink) option \<Rightarrow> batch_msg list \<times> (bool \<times> sink) option" where
  "sink_Close os =
     (case os of
        None \<Rightarrow> ([], None)
      | Some (closed, s) \<Rightarrow>
          if closed then ([], Some (closed, s))
          else (case flush s of (ms, s') \<Rightarrow> (ms, Some (True, s'))))"

text \<open>\<open>Ensure\<close>: the stream of audit records; one that is there already is as good.\<close>

abbreviation (input) Audit_Stream :: string where "Audit_Stream \<equiv> ''WAF_AUDIT''"
abbreviation (input) Audit_MaxBytes :: int where "Audit_MaxBytes \<equiv> 268435456"
abbreviation (input) Audit_MaxAge :: duration where "Audit_MaxAge \<equiv> 24 * (60 * (60 * Second))"

record stream_config =
  sm_Name :: string
  sm_Subjects :: "string list"
  sm_MaxAge :: duration
  sm_MaxBytes :: int
  sm_Duplicates :: duration

definition audit_stream :: stream_config where
  "audit_stream = \<lparr>sm_Name = Audit_Stream, sm_Subjects = [''waf.audit.>''], sm_MaxAge = Audit_MaxAge,
     sm_MaxBytes = Audit_MaxBytes, sm_Duplicates = 2 * (60 * Second)\<rparr>"

datatype stream_err = StreamNameInUse | StreamRefused string

datatype ensure_err = NoConnectionGiven | NoJetStream string | StreamFailed string

definition audit_Ensure :: "(string + (stream_config \<Rightarrow> stream_err option)) option \<Rightarrow> ensure_err option" where
  "audit_Ensure nc =
     (case nc of
        None \<Rightarrow> Some NoConnectionGiven
      | Some (Inl e) \<Rightarrow> Some (NoJetStream e)
      | Some (Inr add) \<Rightarrow>
          (case add audit_stream of
             None \<Rightarrow> None
           | Some StreamNameInUse \<Rightarrow> None
           | Some (StreamRefused e) \<Rightarrow> Some (StreamFailed e)))"

subsection \<open>Batches\<close>

lemma group_loop_spec:
  assumes "distinct order" and "set order = dom m"
  shows "case group_loop its order m of (order', m') \<Rightarrow>
    distinct order' \<and> set order' = set order \<union> it_subject ` set its \<and>
    (\<forall>x. lget m' x =
         lget m x @ filter (\<lambda>it. it_subject it = x) its)"
  using assms
proof (induction its arbitrary: order m)
  case (Cons it its)
  let ?m = "m(it_subject it \<mapsto> lget m (it_subject it) @ [it])"
  let ?o = "if m (it_subject it) = None then order @ [it_subject it] else order"
  have o: "distinct ?o" "set ?o = dom ?m" using Cons.prems by (auto simp: domIff)
  moreover have "set ?o = insert (it_subject it) (set order)" using Cons.prems by (auto simp: domIff)
  ultimately show ?case using Cons.IH [of ?o ?m] by (auto simp del: fun_upd_apply)
qed simp

lemma groupBySubject_spec:
  assumes "groupBySubject items = (order, grp)"
  shows "distinct order \<and> set order = it_subject ` set items \<and>
    (\<forall>x. lget grp x = filter (\<lambda>it. it_subject it = x) items)"
  using group_loop_spec [of "[]" Map.empty items] assms by (auto simp: groupBySubject_def)

text \<open>What a batch is about: the items of one subject, in their order.\<close>

definition batches_of :: "item list \<Rightarrow> batch_msg list" where
  "batches_of items =
     map (\<lambda>x. Batch x (map it_body (filter (\<lambda>it. it_subject it = x) items)))
       (fst (groupBySubject items))"

lemma sink_publish_eq: "sink_publish items = batches_of items"
proof (cases "length items = 1")
  case True
  then obtain it where "items = [it]" by (cases items) auto
  then show ?thesis by (simp add: sink_publish_def batches_of_def groupBySubject_def sink_send_def)
next
  case False
  obtain order grp where g: "groupBySubject items = (order, grp)" by (cases "groupBySubject items")
  with False groupBySubject_spec [OF g] show ?thesis
    by (simp add: sink_publish_def batches_of_def sink_send_def)
qed

text \<open>What a run of messages says to one subject, in order.\<close>

fun bodies_for :: "string \<Rightarrow> batch_msg list \<Rightarrow> string list" where
  "bodies_for x [] = []"
| "bodies_for x (Batch y bs # ms) = (if y = x then bs @ bodies_for x ms else bodies_for x ms)"

definition of_subject :: "string \<Rightarrow> item list \<Rightarrow> string list" where
  "of_subject x items = map it_body (filter (\<lambda>it. it_subject it = x) items)"

lemma of_subject_append [simp]: "of_subject x (a @ b) = of_subject x a @ of_subject x b"
  by (simp add: of_subject_def)

lemma of_subject_Nil [simp]: "of_subject x [] = []"
  by (simp add: of_subject_def)

lemma bodies_for_append [simp]: "bodies_for x (a @ b) = bodies_for x a @ bodies_for x b"
  by (induction x a rule: bodies_for.induct) auto

lemma bodies_for_map:
  "distinct order \<Longrightarrow> bodies_for x (map (\<lambda>y. Batch y (f y)) order) = (if x \<in> set order then f x else [])"
  by (induction order) auto

lemma bodies_for_batches: "bodies_for x (batches_of items) = of_subject x items"
proof -
  obtain order grp where g: "groupBySubject items = (order, grp)" by (cases "groupBySubject items")
  with groupBySubject_spec [OF g] show ?thesis
    by (auto simp: batches_of_def of_subject_def bodies_for_map filter_empty_conv)
qed

definition batch_ok :: "batch_msg \<Rightarrow> bool" where
  "batch_ok b \<longleftrightarrow> (case b of Batch x bs \<Rightarrow> bs \<noteq> [] \<and> length bs \<le> maxItems)"

lemma batches_ok:
  assumes "length items \<le> maxItems"
  shows "\<forall>b \<in> set (batches_of items). batch_ok b"
proof
  fix b assume b: "b \<in> set (batches_of items)"
  obtain order grp where g: "groupBySubject items = (order, grp)" by (cases "groupBySubject items")
  with b groupBySubject_spec [OF g] obtain x where
    "x \<in> it_subject ` set items" "b = Batch x (map it_body (filter (\<lambda>it. it_subject it = x) items))"
    by (auto simp: batches_of_def)
  moreover have "length (filter (\<lambda>it. it_subject it = x) items) \<le> maxItems"
    using assms length_filter_le le_trans by blast
  ultimately show "batch_ok b" by (auto simp: batch_ok_def filter_empty_conv)
qed

lemma flush_round_parts:
  assumes "flush_round s = Some (its, s')"
  shows "sk_pending s = its @ sk_pending s' \<and> length its \<le> maxItems \<and> sk_size s' = sizeOf (sk_pending s') \<and>
    sk_dropped s' = sk_dropped s"
  using assms by (auto simp: flush_round_def Let_def min_def split: if_splits)

text \<open>
  A flush ends, leaves nothing pending, and publishes for every subject exactly its pending
  records in the order they were added; no message carries more than 256 records or none.
\<close>

theorem flush_publishes_all:
  assumes "flush s = (ms, s')"
  shows "sk_pending s' = [] \<and> sk_dropped s' = sk_dropped s \<and>
    (\<forall>x. bodies_for x ms = of_subject x (sk_pending s)) \<and> (\<forall>b \<in> set ms. batch_ok b)"
  using assms
proof (induction s arbitrary: ms rule: flush.induct)
  case (1 s)
  show ?case
  proof (cases "flush_round s")
    case None
    with 1(2) show ?thesis
      by (auto simp: flush.simps [of s] flush_round_def Let_def of_subject_def split: if_splits)
  next
    case (Some p)
    obtain its s1 where p: "p = (its, s1)" by (cases p)
    obtain ms1 s2 where f: "flush s1 = (ms1, s2)" by (cases "flush s1")
    with Some p 1(2) have ms: "ms = sink_publish its @ ms1" and s2: "s' = s2"
      by (simp_all add: flush.simps [of s])
    from Some p have fr: "flush_round s = Some (its, s1)" by simp
    from 1(1) [OF Some p [symmetric]] f s2 have ih: "sk_pending s' = []" "sk_dropped s' = sk_dropped s1"
      "\<forall>x. bodies_for x ms1 = of_subject x (sk_pending s1)" "\<forall>b \<in> set ms1. batch_ok b" by auto
    from flush_round_parts [OF fr] ih batches_ok [of its] show ?thesis
      by (auto simp: ms sink_publish_eq bodies_for_batches)
  qed
qed

text \<open>
  The first \<open>Close\<close> publishes everything pending; what is added after it stays pending and a further
  call does not publish it.
\<close>

theorem sink_Close_spec:
  assumes "sink_Close (Some (False, s)) = (ms, os)"
  shows "\<exists>s'. os = Some (True, s') \<and> sk_pending s' = [] \<and> (\<forall>x. bodies_for x ms = of_subject x (sk_pending s)) \<and>
    (\<forall>it. sk_pending (sink_append it s') = [it] \<and>
       sink_Close (Some (True, sink_append it s')) = ([], Some (True, sink_append it s')))"
proof -
  obtain ms' s' where f: "flush s = (ms', s')" by (cases "flush s")
  with assms have "ms = ms'" "os = Some (True, s')" by (simp_all add: sink_Close_def)
  with flush_publishes_all [OF f] show ?thesis
    by (auto simp: sink_append_def sink_Close_def kick_def maxPending_def Let_def)
qed

subsection \<open>Interleavings\<close>

text \<open>
  The sink among its callers: what was added, what was taken off in rounds, the round the flushing
  goroutine holds, the messages it has published.
\<close>

record sink_sys =
  sy_sink :: sink
  sy_added :: "item list"
  sy_taken :: "item list"
  sy_hand :: "item list option"
  sy_sent :: "batch_msg list"

definition sys_start :: sink_sys where
  "sys_start = \<lparr>sy_sink = NewSink, sy_added = [], sy_taken = [], sy_hand = None, sy_sent = []\<rparr>"

inductive sink_step :: "sink_sys \<Rightarrow> sink_sys \<Rightarrow> bool" where
  add: "sink_step y (y\<lparr>sy_sink := sink_append it (sy_sink y), sy_added := sy_added y @ [it]\<rparr>)"
| woken: "sk_wake (sy_sink y) \<Longrightarrow> sink_step y (y\<lparr>sy_sink := (sy_sink y)\<lparr>sk_wake := False\<rparr>\<rparr>)"
| take: "sy_hand y = None \<Longrightarrow> flush_round (sy_sink y) = Some (its, s') \<Longrightarrow>
    sink_step y (y\<lparr>sy_sink := s', sy_hand := Some its, sy_taken := sy_taken y @ its\<rparr>)"
| publish: "sy_hand y = Some its \<Longrightarrow>
    sink_step y (y\<lparr>sy_hand := None, sy_sent := sy_sent y @ sink_publish its\<rparr>)"

inductive sink_reach :: "sink_sys \<Rightarrow> bool" where
  init: "sink_reach sys_start"
| step: "sink_reach y \<Longrightarrow> sink_step y y' \<Longrightarrow> sink_reach y'"

definition sink_inv :: "sink_sys \<Rightarrow> bool" where
  "sink_inv y \<longleftrightarrow>
     subseq (sy_taken y @ sk_pending (sy_sink y)) (sy_added y) \<and>
     length (sy_added y) = length (sy_taken y) + length (sk_pending (sy_sink y)) + sk_dropped (sy_sink y) \<and>
     length (sk_pending (sy_sink y)) \<le> maxPending \<and>
     sk_size (sy_sink y) = sizeOf (sk_pending (sy_sink y)) \<and>
     (\<forall>x. bodies_for x (sy_sent y) @ of_subject x (case sy_hand y of None \<Rightarrow> [] | Some its \<Rightarrow> its) =
          of_subject x (sy_taken y)) \<and>
     (\<forall>its. sy_hand y = Some its \<longrightarrow> length its \<le> maxItems) \<and>
     (\<forall>b \<in> set (sy_sent y). batch_ok b)"

lemma sizeOf_append [simp]: "sizeOf (a @ b) = sizeOf a + sizeOf b" "sizeOf [] = 0"
  "sizeOf [it] = length (it_body it) + 2"
  by (simp_all add: sizeOf_def)

lemma kick_fields [simp]: "sk_pending (kick s) = sk_pending s" "sk_size (kick s) = sk_size s"
  "sk_dropped (kick s) = sk_dropped s"
  by (simp_all add: kick_def)

lemma sink_append_parts:
  assumes "sk_size s = sizeOf (sk_pending s)"
  obtains cut where "sk_pending (sink_append it s) = drop cut (sk_pending s @ [it])"
    "cut \<le> length (sk_pending s) + 1" "sk_dropped (sink_append it s) = sk_dropped s + cut"
    "sk_size (sink_append it s) = sizeOf (sk_pending (sink_append it s))"
    "length (sk_pending (sink_append it s)) \<le> maxPending"
proof (cases "length (sk_pending s @ [it]) > maxPending")
  case True
  then show thesis
    by (intro that [of "length (sk_pending s @ [it]) - maxPending"])
      (simp_all add: sink_append_def Let_def del: drop_append)
next
  case False
  with assms show thesis by (intro that [of 0]) (simp_all add: sink_append_def Let_def)
qed

lemma subseq_drop_tail:
  assumes "subseq (a @ b) c"
  shows "subseq (a @ drop n (b @ [x])) (c @ [x])"
proof -
  have "subseq (a @ drop n (b @ [x])) (a @ b @ [x])"
    using suffix_imp_subseq [OF suffix_drop [of n "b @ [x]"]] by (simp only: subseq_append')
  moreover have "subseq (a @ b @ [x]) (c @ [x])" using assms subseq_append [of "a @ b" "[x]" c] by simp
  ultimately show ?thesis by (rule subseq_order.order_trans)
qed

lemma sink_step_inv: "sink_step y y' \<Longrightarrow> sink_inv y \<Longrightarrow> sink_inv y'"
proof (induction rule: sink_step.induct)
  case (add y it)
  then have "sk_size (sy_sink y) = sizeOf (sk_pending (sy_sink y))" by (simp add: sink_inv_def)
  from sink_append_parts [OF this, of it] obtain cut where
    "sk_pending (sink_append it (sy_sink y)) = drop cut (sk_pending (sy_sink y) @ [it])"
    "cut \<le> length (sk_pending (sy_sink y)) + 1"
    "sk_dropped (sink_append it (sy_sink y)) = sk_dropped (sy_sink y) + cut"
    "sk_size (sink_append it (sy_sink y)) = sizeOf (sk_pending (sink_append it (sy_sink y)))"
    "length (sk_pending (sink_append it (sy_sink y))) \<le> maxPending" .
  moreover from add have "subseq (sy_taken y @ drop cut (sk_pending (sy_sink y) @ [it])) (sy_added y @ [it])"
    by (intro subseq_drop_tail) (simp add: sink_inv_def)
  ultimately show ?case using add by (simp add: sink_inv_def)
next
  case (take y its s')
  with flush_round_parts [OF take(2)] show ?case by (auto simp: sink_inv_def)
next
  case (publish y its)
  then have "\<forall>b \<in> set (batches_of its). batch_ok b" by (intro batches_ok) (simp add: sink_inv_def)
  with publish show ?case by (auto simp: sink_inv_def sink_publish_eq bodies_for_batches)
qed (simp add: sink_inv_def)

lemma sink_reach_inv: "sink_reach y \<Longrightarrow> sink_inv y"
proof (induction rule: sink_reach.induct)
  case init
  show ?case by (simp add: sink_inv_def sys_start_def NewSink_def of_subject_def)
next
  case (step y y')
  then show ?case by (blast intro: sink_step_inv)
qed

text \<open>
  C23.  However calls and flushes interleave, no audit record is published twice and none is lost
  without being counted: every record added is published, held for publishing, pending or counted as
  dropped; the records of one subject are published in the order they were added; at most 50000 are
  pending and the size the sink keeps is their size.
\<close>

theorem audit_records_conserved:
  assumes "sink_reach y"
  shows "length (sy_added y) = length (sy_taken y) + length (sk_pending (sy_sink y)) + sk_dropped (sy_sink y) \<and>
    subseq (sy_taken y @ sk_pending (sy_sink y)) (sy_added y) \<and>
    (\<forall>x. bodies_for x (sy_sent y) @ of_subject x (case sy_hand y of None \<Rightarrow> [] | Some its \<Rightarrow> its) =
         of_subject x (sy_taken y)) \<and>
    length (sk_pending (sy_sink y)) \<le> 50000 \<and> sk_size (sy_sink y) = sizeOf (sk_pending (sy_sink y))"
  using sink_reach_inv [OF assms] by (simp add: sink_inv_def maxPending_def)

subsection \<open>A concrete run\<close>

definition demo_item :: item where
  "demo_item = \<lparr>it_subject = ''waf.audit.n1'', it_body = ''{}''\<rparr>"

theorem flush_publishes_all_witness:
  "bodies_for ''waf.audit.n1'' (fst (flush (sink_append demo_item NewSink))) = [''{}'']"
proof -
  obtain ms s' where f: "flush (sink_append demo_item NewSink) = (ms, s')" by (cases "flush (sink_append demo_item NewSink)")
  from flush_publishes_all [OF f] f show ?thesis
    by (simp add: sink_append_def NewSink_def kick_def of_subject_def demo_item_def Let_def maxPending_def)
qed

theorem audit_records_conserved_witness:
  "\<exists>y. sink_reach y \<and> sy_added y = [demo_item] \<and> length (sy_taken y) + length (sk_pending (sy_sink y)) = 1"
proof -
  let ?y = "sys_start\<lparr>sy_sink := sink_append demo_item (sy_sink sys_start), sy_added := sy_added sys_start @ [demo_item]\<rparr>"
  have r: "sink_reach ?y" by (rule sink_reach.step [OF sink_reach.init sink_step.add])
  have "sk_dropped (sink_append demo_item NewSink) = 0"
    by (simp add: sink_append_def NewSink_def Let_def maxPending_def)
  with audit_records_conserved [OF r] r show ?thesis
    by (intro exI [of _ ?y]) (simp add: sys_start_def)
qed

end
