(* ===== verification/Desired.thy ===== *)
theory Desired
  imports ProfileStore
begin

text \<open>
  Generations of profiles from the controller (\<^verbatim>\<open>internal/desired/desired.go\<close>, \<^verbatim>\<open>settings.go\<close>): a
  manifest is parsed, its static lists are fetched, a tree of files is written beside the live one
  and put in its place, the store loads it, and what failed is undone.  A Go map of the manifest is
  an association list, in the order the program happens to walk it.  The decoder of JSON, the names
  of log levels (a shared package), the object store and the outcome of every call of the operating
  system are arguments.
\<close>

subsection \<open>Manifests\<close>

abbreviation (input) DefaultProfile :: string where "DefaultProfile \<equiv> ''default''"
abbreviation (input) ProfileFile :: string where "ProfileFile \<equiv> ''profile.yaml''"
abbreviation (input) ApplyOK :: string where "ApplyOK \<equiv> ''ok''"
abbreviation (input) ApplyFailed :: string where "ApplyFailed \<equiv> ''apply_failed''"
abbreviation (input) BlobPrefix :: string where "BlobPrefix \<equiv> ''waf.blob.''"
abbreviation (input) treeDir :: string where "treeDir \<equiv> ''profiles''"

definition isLowHex :: "char \<Rightarrow> bool" where
  "isLowHex c \<longleftrightarrow> isDigit c \<or> byte_of c \<in> {97..102}"

definition list_char :: "char \<Rightarrow> bool" where
  "list_char c \<longleftrightarrow> isAlnum c \<or> c \<in> {CHR ''.'', CHR ''_'', CHR ''-''}"

definition listNameRe :: "string \<Rightarrow> bool" where
  "listNameRe s = matches_name isAlnum list_char 63 s"

definition listHashRe :: "string \<Rightarrow> bool" where
  "listHashRe s \<longleftrightarrow> HasPrefix s ''sha256:'' \<and> matches_class isLowHex 64 64 (drop 7 s)"

record mfile =
  mf_Name :: string
  mf_Text :: string

text \<open>\<open>se_level\<close> is the level the name stands for, filled in by \<open>validate\<close>.\<close>

record settings =
  se_LogLevel :: string
  se_level :: int

record manifest =
  ma_V :: int
  ma_Rev :: int
  ma_ConfigHash :: string
  ma_Profiles :: "(string \<times> mfile list) list"
  ma_Lists :: "(string \<times> string) list"
  ma_Settings :: "settings option"

datatype manifest_err =
  NotJson | UnsupportedV int | BadRev | NoDefault | BadProfileName string | BadFiles string
| BadListName string | BadListHash string | BadLogLevel string | HashMismatch string string

text \<open>\<open>validate\<close> of the settings, with the table of level names.\<close>

definition settings_validate :: "(string \<Rightarrow> int option) \<Rightarrow> settings option \<Rightarrow> manifest_err + settings option" where
  "settings_validate level s =
     (case s of
        None \<Rightarrow> Inr None
      | Some se \<Rightarrow>
          (case level (se_LogLevel se) of
             None \<Rightarrow> Inl (BadLogLevel (se_LogLevel se))
           | Some l \<Rightarrow> Inr (Some (se\<lparr>se_level := l\<rparr>))))"

definition writeSettings :: "settings option \<Rightarrow> string" where
  "writeSettings s =
     (case s of None \<Rightarrow> []
      | Some se \<Rightarrow> ''settings'' @ nul @ ''log_level'' @ nul @ se_LogLevel se @ nul)"

definition hash_files :: "mfile list \<Rightarrow> string" where
  "hash_files fs = concat (map (\<lambda>f. mf_Name f @ nul @ mf_Text f @ nul) fs)"

definition hash_profiles :: "(string \<times> mfile list) list \<Rightarrow> string" where
  "hash_profiles ps =
     concat (map (\<lambda>n. n @ nul @ hash_files (case map_of ps n of None \<Rightarrow> [] | Some fs \<Rightarrow> fs))
       (sort (map fst ps)))"

definition hash_lists :: "(string \<times> string) list \<Rightarrow> string" where
  "hash_lists ls =
     concat (map (\<lambda>n. concat (map (\<lambda>part. part @ nul) [''list'', n, sget (map_of ls) n])) (sort (map fst ls)))"

definition HashLists :: "(string \<times> mfile list) list \<Rightarrow> (string \<times> string) list \<Rightarrow> settings option \<Rightarrow> string" where
  "HashLists ps ls s = ''sha256:'' @ hex_encode (sha256 (hash_profiles ps @ hash_lists ls @ writeSettings s))"

definition HashWith :: "(string \<times> mfile list) list \<Rightarrow> settings option \<Rightarrow> string" where
  "HashWith profiles s = HashLists profiles [] s"

definition manifest_Names :: "manifest \<Rightarrow> string list" where
  "manifest_Names m = sort (map fst (ma_Profiles m))"

definition bad_profile_name :: "string \<Rightarrow> bool" where
  "bad_profile_name n \<longleftrightarrow> n = [] \<or> n = ''.'' \<or> n = ''..'' \<or> ContainsAny n [CHR ''/'', CHR 0x5C]"

definition check_profile :: "string \<times> mfile list \<Rightarrow> manifest_err option" where
  "check_profile p =
     (case p of (n, fs) \<Rightarrow>
        if bad_profile_name n then Some (BadProfileName n)
        else if length fs \<noteq> 1 \<or> mf_Name (hd fs) \<noteq> ProfileFile then Some (BadFiles n) else None)"

definition check_list :: "string \<times> string \<Rightarrow> manifest_err option" where
  "check_list l =
     (case l of (n, h) \<Rightarrow>
        if \<not> listNameRe n then Some (BadListName n)
        else if \<not> listHashRe h then Some (BadListHash n) else None)"

text \<open>A loop that stops at the first error.\<close>

fun first_err :: "('a \<Rightarrow> 'e option) \<Rightarrow> 'a list \<Rightarrow> 'e option" where
  "first_err f [] = None"
| "first_err f (x # xs) = (case f x of None \<Rightarrow> first_err f xs | Some e \<Rightarrow> Some e)"

lemma first_err_None [simp]: "first_err f xs = None \<longleftrightarrow> (\<forall>x \<in> set xs. f x = None)"
  by (induction xs) (auto split: option.splits)

definition manifest_Parse ::
  "(string \<Rightarrow> int option) \<Rightarrow> (string \<Rightarrow> manifest option) \<Rightarrow> string \<Rightarrow> manifest_err + manifest" where
  "manifest_Parse level json raw =
     (case json raw of
        None \<Rightarrow> Inl NotJson
      | Some m \<Rightarrow>
          if ma_V m \<noteq> 1 then Inl (UnsupportedV (ma_V m))
          else if ma_Rev m < 1 then Inl BadRev
          else if map_of (ma_Profiles m) DefaultProfile = None then Inl NoDefault
          else (case first_err check_profile (ma_Profiles m) of
            Some e \<Rightarrow> Inl e
          | None \<Rightarrow> (case first_err check_list (ma_Lists m) of
              Some e \<Rightarrow> Inl e
            | None \<Rightarrow> (case settings_validate level (ma_Settings m) of
                Inl e \<Rightarrow> Inl e
              | Inr s \<Rightarrow>
                  (let got = HashLists (ma_Profiles m) (ma_Lists m) s
                   in if ma_ConfigHash m \<noteq> [] \<and> ma_ConfigHash m \<noteq> got
                      then Inl (HashMismatch got (ma_ConfigHash m))
                      else Inr (m\<lparr>ma_Settings := s, ma_ConfigHash := got\<rparr>))))))"

subsection \<open>Static lists\<close>

definition body_hash :: "string \<Rightarrow> string" where
  "body_hash b = ''sha256:'' @ hex_encode (sha256 b)"

datatype fetch_err = NoInternalRedis | RedisFailed | ListGone string | ListMismatch string

fun fetch_bodies :: "manifest \<Rightarrow> string list \<Rightarrow> string option list \<Rightarrow> string gomap \<Rightarrow> fetch_err + string gomap" where
  "fetch_bodies m [] bodies out = Inr out"
| "fetch_bodies m (n # ns) [] out = Inl (ListGone n)"
| "fetch_bodies m (n # ns) (b # bs) out =
     (case b of
        None \<Rightarrow> Inl (ListGone n)
      | Some body \<Rightarrow>
          if body_hash body \<noteq> sget (map_of (ma_Lists m)) n then Inl (ListMismatch n)
          else fetch_bodies m ns bs (out(n \<mapsto> body)))"

text \<open>The store of objects: \<open>None\<close> when none is configured; a read of several may fail.\<close>

definition FetchLists :: "(string list \<Rightarrow> string option list option) option \<Rightarrow> manifest \<Rightarrow> fetch_err + string gomap" where
  "FetchLists blobs m =
     (if ma_Lists m = [] then Inr Map.empty
      else case blobs of
        None \<Rightarrow> Inl NoInternalRedis
      | Some objects \<Rightarrow>
          (let names = sort (map fst (ma_Lists m));
               keys = map (\<lambda>n. BlobPrefix @ TrimPrefix (sget (map_of (ma_Lists m)) n) ''sha256:'') names
           in case objects keys of
                None \<Rightarrow> Inl RedisFailed
              | Some bodies \<Rightarrow> fetch_bodies m names bodies Map.empty))"

subsection \<open>Trees of files\<close>

text \<open>A tree: the files of a directory and of its directory of lists, if it has one.\<close>

record tree =
  tr_files :: "(string \<times> string) list"
  tr_lists :: "(string \<times> string) list option"

definition empty_tree :: tree where
  "empty_tree = \<lparr>tr_files = [], tr_lists = None\<rparr>"

text \<open>The three directories under the data directory.\<close>

record data_dir =
  dd_next :: "tree option"
  dd_prev :: "tree option"
  dd_live :: "tree option"

text \<open>
  The calls of the operating system that the program makes, each with its outcome (of the removals
  of the staging directory after a failure, at most one is made).  A removal that fails may have
  removed a part: the files of the two directories that remain, and the second directory if it does;
  the program does not look at its result.  A write that fails leaves the file as it was or cut short.
\<close>

datatype removal = Gone | Remains "string \<Rightarrow> bool" "(string \<Rightarrow> bool) option"

datatype file_write = Written | Unwritten | CutShort nat

record os_calls =
  os_MkdirData :: bool
  os_MkdirNext :: bool
  os_Write :: "string \<Rightarrow> file_write"
  os_MkdirLists :: bool
  os_Park :: bool
  os_Promote :: bool
  os_Unpark :: bool
  os_Restore :: bool
  os_RmStale :: removal
  os_RmNext :: removal
  os_RmPrev :: removal
  os_RmLive :: removal
  os_RmOld :: removal

definition keep_part :: "(string \<Rightarrow> bool) \<Rightarrow> (string \<Rightarrow> bool) option \<Rightarrow> tree \<Rightarrow> tree" where
  "keep_part f g t =
     \<lparr>tr_files = filter (f \<circ> fst) (tr_files t),
      tr_lists = (case g of None \<Rightarrow> None | Some k \<Rightarrow> map_option (filter (k \<circ> fst)) (tr_lists t))\<rparr>"

fun rm_tree :: "removal \<Rightarrow> tree option \<Rightarrow> tree option" where
  "rm_tree Gone t = None"
| "rm_tree (Remains f g) t = map_option (keep_part f g) t"

text \<open>A directory can be renamed onto a missing or an empty one.\<close>

definition can_rename :: "bool \<Rightarrow> tree option \<Rightarrow> bool" where
  "can_rename ok dst \<longleftrightarrow> ok \<and> (dst = None \<or> dst = Some empty_tree)"

datatype apply_err = MkdirFailed | WriteFailed string | BodyMissing string | NoFile | ParkFailed | PromoteFailed
  | LoadFailed load_err

text \<open>The loops of \<open>write\<close>: the error, and the files as they are then.\<close>

fun write_profiles :: "(string \<Rightarrow> file_write) \<Rightarrow> (string \<times> mfile list) list \<Rightarrow> (string \<times> string) list \<Rightarrow>
    apply_err option \<times> (string \<times> string) list" where
  "write_profiles ok [] fs = (None, fs)"
| "write_profiles ok ((n, files) # ps) fs =
     (case files of
        [] \<Rightarrow> (Some NoFile, fs)
      | f # _ \<Rightarrow>
          (case ok (n @ ''.yaml'') of
             Written \<Rightarrow> write_profiles ok ps (AList.update (n @ ''.yaml'') (mf_Text f) fs)
           | Unwritten \<Rightarrow> (Some (WriteFailed (n @ ''.yaml'')), fs)
           | CutShort k \<Rightarrow>
               (Some (WriteFailed (n @ ''.yaml'')), AList.update (n @ ''.yaml'') (take k (mf_Text f)) fs)))"

fun write_lists :: "(string \<Rightarrow> file_write) \<Rightarrow> string list \<Rightarrow> string gomap \<Rightarrow> (string \<times> string) list \<Rightarrow>
    apply_err option \<times> (string \<times> string) list" where
  "write_lists ok [] bodies fs = (None, fs)"
| "write_lists ok (n # ns) bodies fs =
     (case bodies n of
        None \<Rightarrow> (Some (BodyMissing n), fs)
      | Some b \<Rightarrow>
          (case ok (n @ ''.txt'') of
             Written \<Rightarrow> write_lists ok ns bodies (AList.update (n @ ''.txt'') b fs)
           | Unwritten \<Rightarrow> (Some (WriteFailed (n @ ''.txt'')), fs)
           | CutShort k \<Rightarrow> (Some (WriteFailed (n @ ''.txt'')), AList.update (n @ ''.txt'') (take k b) fs)))"

text \<open>\<open>write\<close> into a directory that may already hold a tree.\<close>

definition write_tree :: "os_calls \<Rightarrow> tree option \<Rightarrow> manifest \<Rightarrow> string gomap \<Rightarrow> apply_err option \<times> tree option" where
  "write_tree os old m bodies =
     (if \<not> os_MkdirNext os then (Some MkdirFailed, old)
      else (let t = (case old of None \<Rightarrow> empty_tree | Some t \<Rightarrow> t)
            in case write_profiles (os_Write os) (ma_Profiles m) (tr_files t) of
                 (Some e, fs) \<Rightarrow> (Some e, Some (t\<lparr>tr_files := fs\<rparr>))
               | (None, fs) \<Rightarrow>
                   (let t1 = t\<lparr>tr_files := fs\<rparr>
                    in if ma_Lists m = [] then (None, Some t1)
                       else if \<not> os_MkdirLists os then (Some MkdirFailed, Some t1)
                       else (case write_lists (os_Write os) (map fst (ma_Lists m)) bodies
                                    (case tr_lists t of None \<Rightarrow> [] | Some ls \<Rightarrow> ls) of
                               (e, ls) \<Rightarrow> (e, Some (t1\<lparr>tr_lists := Some ls\<rparr>))))))"

text \<open>The file system the store sees: the tree at its path; \<open>stat\<close> gives sizes and times.\<close>

definition tree_entries :: "tree \<Rightarrow> dir_entry list" where
  "tree_entries t = sort_key de_Name (map (\<lambda>f. \<lparr>de_Name = fst f, de_IsDir = False\<rparr>) (tr_files t) @
     (case tr_lists t of None \<Rightarrow> [] | Some ls \<Rightarrow> [\<lparr>de_Name = ListsDir, de_IsDir = True\<rparr>]))"

definition tree_fs :: "(path \<Rightarrow> (int \<times> int) option) \<Rightarrow> path \<Rightarrow> tree option \<Rightarrow> filesys" where
  "tree_fs stat dir to =
     \<lparr>fs_ReadDir = (\<lambda>p. case to of
          None \<Rightarrow> None
        | Some t \<Rightarrow>
            if p = dir then Some (tree_entries t)
            else if p = dir @ [ListsDir] then
              map_option (\<lambda>ls. sort_key de_Name (map (\<lambda>f. \<lparr>de_Name = fst f, de_IsDir = False\<rparr>) ls)) (tr_lists t)
            else None),
      fs_ReadFile = (\<lambda>p. case to of
          None \<Rightarrow> None
        | Some t \<Rightarrow>
            if length p = Suc (length dir) \<and> take (length dir) p = dir then map_of (tr_files t) (last p)
            else if length p = Suc (Suc (length dir)) \<and> take (Suc (length dir)) p = dir @ [ListsDir] then
              Option.bind (tr_lists t) (\<lambda>ls. map_of ls (last p))
            else None),
      fs_Stat = stat\<rparr>"

lemma tree_fs_ReadDir [simp]: "fs_ReadDir (tree_fs stat dir None) p = None"
  "fs_ReadDir (tree_fs stat dir (Some t)) dir = Some (tree_entries t)"
  by (simp_all add: tree_fs_def)

record apply_env =
  ae_uni :: unicode
  ae_yaml :: yaml
  ae_stat :: "path \<Rightarrow> (int \<times> int) option"
  ae_os :: os_calls

definition reload_live :: "apply_env \<Rightarrow> path \<Rightarrow> tree option \<Rightarrow> store_state \<Rightarrow> (load_err + unit) \<times> store_state" where
  "reload_live ae dataDir live st =
     ReloadFrom (ae_uni ae) (ae_yaml ae) (tree_fs (ae_stat ae) (dataDir @ [treeDir]) live) (dataDir @ [treeDir]) st"

text \<open>The end of \<open>Apply\<close>, once the new tree is live.\<close>

definition load_or_undo :: "apply_env \<Rightarrow> path \<Rightarrow> bool \<Rightarrow> data_dir \<times> store_state \<Rightarrow>
    apply_err option \<times> data_dir \<times> store_state" where
  "load_or_undo ae dataDir lived s =
     (case s of (d, st) \<Rightarrow>
        (case reload_live ae dataDir (dd_live d) st of
           (Inr _, st1) \<Rightarrow> (None, d\<lparr>dd_prev := rm_tree (os_RmOld (ae_os ae)) (dd_prev d)\<rparr>, st1)
         | (Inl e, st1) \<Rightarrow>
             (let d1 = d\<lparr>dd_live := rm_tree (os_RmLive (ae_os ae)) (dd_live d)\<rparr>
              in if lived \<and> can_rename (os_Restore (ae_os ae)) (dd_live d1) then
                   (let d2 = d1\<lparr>dd_live := dd_prev d1, dd_prev := None\<rparr>
                    in (Some (LoadFailed e), d2, snd (reload_live ae dataDir (dd_live d2) st1)))
                 else (Some (LoadFailed e), d1, st1))))"

definition desired_Apply :: "apply_env \<Rightarrow> path \<Rightarrow> manifest \<Rightarrow> string gomap \<Rightarrow> data_dir \<times> store_state \<Rightarrow>
    apply_err option \<times> data_dir \<times> store_state" where
  "desired_Apply ae dataDir m bodies s =
     (let os = ae_os ae; (d, st) = s
      in if \<not> os_MkdirData os then (Some MkdirFailed, d, st)
         else (let next0 = rm_tree (os_RmStale os) (dd_next d)
               in case write_tree os next0 m bodies of
                    (Some e, t) \<Rightarrow> (Some e, d\<lparr>dd_next := rm_tree (os_RmNext os) t\<rparr>, st)
                  | (None, t) \<Rightarrow>
                      (let d1 = d\<lparr>dd_next := t, dd_prev := rm_tree (os_RmPrev os) (dd_prev d)\<rparr>;
                           lived = (dd_live d1 \<noteq> None)
                       in if lived \<and> \<not> can_rename (os_Park os) (dd_prev d1) then
                            (Some ParkFailed, d1\<lparr>dd_next := rm_tree (os_RmNext os) (dd_next d1)\<rparr>, st)
                          else (let d2 = (if lived then d1\<lparr>dd_prev := dd_live d1, dd_live := None\<rparr> else d1)
                                in if \<not> os_Promote os then
                                     (let d3 = (if lived \<and> os_Unpark os
                                                then d2\<lparr>dd_live := dd_prev d2, dd_prev := None\<rparr> else d2)
                                      in (Some PromoteFailed, d3\<lparr>dd_next := rm_tree (os_RmNext os) (dd_next d3)\<rparr>, st))
                                   else load_or_undo ae dataDir lived
                                          (d2\<lparr>dd_live := dd_next d2, dd_next := None\<rparr>, st)))))"

subsection \<open>Handling a manifest\<close>

record applied_state =
  ap_hash :: string
  ap_rev :: int
  ap_apply :: string
  ap_names :: "string list"

definition no_applied :: applied_state where
  "no_applied = \<lparr>ap_hash = [], ap_rev = 0, ap_apply = [], ap_names = []\<rparr>"

definition applied_set :: "string \<Rightarrow> int \<Rightarrow> string \<Rightarrow> string list \<Rightarrow> applied_state" where
  "applied_set hash r apply names = \<lparr>ap_hash = hash, ap_rev = r, ap_apply = apply, ap_names = names\<rparr>"

lemma applied_set_fields [simp]:
  "ap_hash (applied_set h r a ns) = h" "ap_rev (applied_set h r a ns) = r"
  "ap_apply (applied_set h r a ns) = a" "ap_names (applied_set h r a ns) = ns"
  by (simp_all add: applied_set_def)

record desired_state =
  ds_dirs :: data_dir
  ds_store :: store_state
  ds_applied :: applied_state
  ds_level :: int

text \<open>\<open>apply\<close> of the settings: the level of the logger, when it differs.\<close>

definition settings_apply :: "settings option \<Rightarrow> int \<Rightarrow> int" where
  "settings_apply s level =
     (case s of None \<Rightarrow> level | Some se \<Rightarrow> if level = se_level se then level else se_level se)"

record desired_env =
  de_apply :: apply_env
  de_level :: "string \<Rightarrow> int option"
  de_json :: "string \<Rightarrow> manifest option"
  de_blobs :: "(string list \<Rightarrow> string option list option) option"

definition desired_handle :: "desired_env \<Rightarrow> path \<Rightarrow> string \<Rightarrow> desired_state \<Rightarrow> bool \<times> desired_state" where
  "desired_handle en dataDir raw s =
     (case manifest_Parse (de_level en) (de_json en) raw of
        Inl e \<Rightarrow> (False, s)
      | Inr m \<Rightarrow>
          (let a = ds_applied s
           in if ap_apply a = ApplyOK \<and> ap_hash a = ma_ConfigHash m \<and> ap_rev a = ma_Rev m then (False, s)
              else (case FetchLists (de_blobs en) m of
                Inl e \<Rightarrow> (de_blobs en \<noteq> None, s\<lparr>ds_applied := applied_set (ap_hash a) (ap_rev a) ApplyFailed (ap_names a)\<rparr>)
              | Inr bodies \<Rightarrow>
                  (case desired_Apply (de_apply en) dataDir m bodies (ds_dirs s, ds_store s) of
                     (Some e, d, st) \<Rightarrow>
                       (False, s\<lparr>ds_dirs := d, ds_store := st,
                          ds_applied := applied_set (ap_hash a) (ap_rev a) ApplyFailed (ap_names a)\<rparr>)
                   | (None, d, st) \<Rightarrow>
                       (False, s\<lparr>ds_dirs := d, ds_store := st,
                          ds_applied := applied_set (ma_ConfigHash m) (ma_Rev m) ApplyOK (manifest_Names m),
                          ds_level := settings_apply (ma_Settings m) (ds_level s)\<rparr>)))))"

text \<open>\<open>Bootstrap\<close>: the generation applied before, if it is there and loads.\<close>

definition desired_Bootstrap :: "apply_env \<Rightarrow> path \<Rightarrow> tree option \<Rightarrow> store_state \<Rightarrow> bool \<times> store_state" where
  "desired_Bootstrap ae dataDir live st =
     (if dataDir = [] then (False, st)
      else case live of
        None \<Rightarrow> (False, st)
      | Some t \<Rightarrow>
          if map_of (tr_files t) (DefaultProfile @ ''.yaml'') = None then (False, st)
          else (case reload_live ae dataDir live st of
                  (Inl e, st1) \<Rightarrow> (False, st1)
                | (Inr _, st1) \<Rightarrow> (True, st1)))"

text \<open>
  The loop of \<open>Watch\<close>: a new value is handled at once, and one that asked for it is handled again
  when its time comes, unless another value came meanwhile.  \<open>dw_armed\<close> tells that the timer runs.
\<close>

record desired_watch =
  dw_state :: desired_state
  dw_pending :: "string option"
  dw_armed :: bool

definition watch_update :: "desired_env \<Rightarrow> path \<Rightarrow> string \<Rightarrow> desired_watch \<Rightarrow> desired_watch" where
  "watch_update en dataDir raw w =
     (case desired_handle en dataDir raw (dw_state w) of
        (again, s) \<Rightarrow> \<lparr>dw_state = s, dw_pending = (if again then Some raw else None), dw_armed = again\<rparr>)"

definition watch_retry :: "desired_env \<Rightarrow> path \<Rightarrow> desired_watch \<Rightarrow> desired_watch" where
  "watch_retry en dataDir w =
     (case dw_pending w of
        None \<Rightarrow> w\<lparr>dw_armed := False\<rparr>
      | Some raw \<Rightarrow>
          (case desired_handle en dataDir raw (dw_state w) of
             (again, s) \<Rightarrow> \<lparr>dw_state = s, dw_pending = (if again then Some raw else None), dw_armed = again\<rparr>))"

text \<open>
  What the goroutine of \<open>Watch\<close> receives: the end of its context, its timer (only while it runs), the end
  of the updates, the marker after the initial values, a deletion, a value.
\<close>

datatype watch_event =
  WatchCancelled | RetryDue | UpdatesClosed | UpdateNil | UpdateDeleted | UpdateValue string

definition watch_select :: "desired_env \<Rightarrow> path \<Rightarrow> watch_event \<Rightarrow> desired_watch \<Rightarrow> desired_watch option" where
  "watch_select en dataDir ev w =
     (case ev of
        WatchCancelled \<Rightarrow> None
      | UpdatesClosed \<Rightarrow> None
      | RetryDue \<Rightarrow> Some (if dw_armed w then watch_retry en dataDir w else w)
      | UpdateNil \<Rightarrow> Some w
      | UpdateDeleted \<Rightarrow> Some w
      | UpdateValue raw \<Rightarrow> Some (watch_update en dataDir raw w))"

fun watch_loop :: "path \<Rightarrow> (desired_env \<times> watch_event) list \<Rightarrow> desired_watch \<Rightarrow> desired_watch" where
  "watch_loop dataDir [] w = w"
| "watch_loop dataDir ((en, ev) # evs) w =
     (case watch_select en dataDir ev w of None \<Rightarrow> w | Some w' \<Rightarrow> watch_loop dataDir evs w')"

text \<open>\<open>Watch\<close>: opening the bucket and the watcher may fail; nothing is applied yet.\<close>

definition desired_Watch :: "string option \<Rightarrow> string option \<Rightarrow> string option \<Rightarrow> desired_state \<Rightarrow> string + desired_watch" where
  "desired_Watch js kv watcher s =
     (case js of Some e \<Rightarrow> Inl e | None \<Rightarrow>
     (case kv of Some e \<Rightarrow> Inl e | None \<Rightarrow>
     (case watcher of Some e \<Rightarrow> Inl e | None \<Rightarrow>
        Inr \<lparr>dw_state = s\<lparr>ds_applied := no_applied\<rparr>, dw_pending = None, dw_armed = False\<rparr>)))"

subsection \<open>Parsed manifests\<close>

definition wf_manifest :: "(string \<Rightarrow> int option) \<Rightarrow> manifest \<Rightarrow> bool" where
  "wf_manifest level m \<longleftrightarrow> ma_V m = 1 \<and> 1 \<le> ma_Rev m \<and>
     (\<exists>fs. map_of (ma_Profiles m) DefaultProfile = Some fs) \<and>
     (\<forall>(n, fs) \<in> set (ma_Profiles m). \<not> bad_profile_name n \<and> (\<exists>text. fs = [\<lparr>mf_Name = ProfileFile, mf_Text = text\<rparr>])) \<and>
     (\<forall>(n, h) \<in> set (ma_Lists m). listNameRe n \<and> listHashRe h) \<and>
     (\<forall>se. ma_Settings m = Some se \<longrightarrow> level (se_LogLevel se) = Some (se_level se)) \<and>
     ma_ConfigHash m = HashLists (ma_Profiles m) (ma_Lists m) (ma_Settings m)"

lemma one_file: "length fs = 1 \<and> mf_Name (hd fs) = n \<longleftrightarrow> (\<exists>text. fs = [\<lparr>mf_Name = n, mf_Text = text\<rparr>])"
proof -
  have "\<exists>text. f = \<lparr>mf_Name = mf_Name f, mf_Text = text\<rparr>" for f :: mfile by (cases f) auto
  then show ?thesis by (cases fs) auto
qed

lemma check_profile_None:
  "check_profile (n, fs) = None \<longleftrightarrow>
     \<not> bad_profile_name n \<and> (\<exists>text. fs = [\<lparr>mf_Name = ProfileFile, mf_Text = text\<rparr>])"
  by (simp add: check_profile_def one_file [symmetric])

lemma check_list_None: "check_list (n, h) = None \<longleftrightarrow> listNameRe n \<and> listHashRe h"
  by (simp add: check_list_def)

lemma settings_validate_Inr:
  "settings_validate level s0 = Inr s \<Longrightarrow> s = Some se \<Longrightarrow> level (se_LogLevel se) = Some (se_level se)"
  by (auto simp: settings_validate_def split: option.splits)

lemma manifest_Parse_Inr:
  assumes "manifest_Parse level json raw = Inr m"
  shows "wf_manifest level m"
proof -
  from assms obtain m0 s where "ma_V m0 = 1" "\<not> ma_Rev m0 < 1" "map_of (ma_Profiles m0) DefaultProfile \<noteq> None"
    "\<forall>x \<in> set (ma_Profiles m0). check_profile x = None" "\<forall>x \<in> set (ma_Lists m0). check_list x = None"
    "settings_validate level (ma_Settings m0) = Inr s"
    "m = m0\<lparr>ma_Settings := s, ma_ConfigHash := HashLists (ma_Profiles m0) (ma_Lists m0) s\<rparr>"
    by (auto simp: manifest_Parse_def Let_def)
  then show ?thesis
    using check_profile_None check_list_None settings_validate_Inr by (auto simp: wf_manifest_def)
qed

text \<open>
  A manifest that parses is well formed: version 1, a positive revision, the default profile
  among the profiles, names that stay inside the directory, one file for each profile, names and
  hashes of lists of the right shape, a known log level, and a configuration hash that is the hash
  of what it carries.
\<close>

theorem manifest_Parse_wf:
  assumes "manifest_Parse level json raw = Inr m"
  shows "wf_manifest level m"
  using assms by (rule manifest_Parse_Inr)

subsection \<open>Applying\<close>

text \<open>The store serves what the live tree holds.\<close>

definition load_tree :: "apply_env \<Rightarrow> path \<Rightarrow> tree option \<Rightarrow> load_err + snapshot" where
  "load_tree ae dataDir t =
     LoadDir (ae_uni ae) (ae_yaml ae) (tree_fs (ae_stat ae) (dataDir @ [treeDir]) t) (dataDir @ [treeDir])"

definition serves :: "apply_env \<Rightarrow> path \<Rightarrow> data_dir \<Rightarrow> store_state \<Rightarrow> bool" where
  "serves ae dataDir d st \<longleftrightarrow> load_tree ae dataDir (dd_live d) = Inr (st_current st)"

lemma reload_live_cases:
  "reload_live ae dataDir t st =
     (case load_tree ae dataDir t of
        Inl e \<Rightarrow> (Inl e, st)
      | Inr m \<Rightarrow> (Inr (), store_swap m (st\<lparr>st_dir := dataDir @ [treeDir],
            st_print := print_or_empty (ae_uni ae) (tree_fs (ae_stat ae) (dataDir @ [treeDir]) t) (dataDir @ [treeDir])\<rparr>)))"
  by (simp add: reload_live_def ReloadFrom_def load_tree_def)

lemma store_swap_current [simp]: "st_current (store_swap m s) = m"
  by (simp add: store_swap_def)

lemma load_or_undo_ok:
  assumes "load_or_undo ae dataDir lived (d, st) = (None, d', st')"
  shows "dd_live d' = dd_live d \<and> load_tree ae dataDir (dd_live d) = Inr (st_current st')"
  using assms
  by (auto simp: load_or_undo_def reload_live_cases Let_def split: sum.splits if_splits)

lemma load_or_undo_err:
  assumes "load_or_undo ae dataDir lived (d, st) = (Some e, d', st')"
  shows "(st' = st \<or> lived \<and> dd_live d' = dd_prev d \<and> load_tree ae dataDir (dd_prev d) = Inr (st_current st')) \<and>
    (os_RmLive (ae_os ae) = Gone \<longrightarrow> os_Restore (ae_os ae) \<longrightarrow> dd_live d' = (if lived then dd_prev d else None)) \<and>
    (lived \<longrightarrow> dd_live d' = dd_prev d \<or> dd_prev d' = dd_prev d)"
  using assms
  by (auto simp: load_or_undo_def reload_live_cases Let_def can_rename_def
      split: sum.splits if_splits)

text \<open>Undoing works: what the program parked it can put back.\<close>

definition undo_works :: "apply_env \<Rightarrow> bool" where
  "undo_works ae \<longleftrightarrow> os_Unpark (ae_os ae) \<and> os_Restore (ae_os ae) \<and> os_RmLive (ae_os ae) = Gone"

lemma write_tree_Some: "write_tree os old m bodies = (None, t) \<Longrightarrow> t \<noteq> None"
  by (auto simp: write_tree_def Let_def split: if_splits prod.splits option.splits)

lemma Apply_cases:
  assumes "desired_Apply ae dataDir m bodies (d, st) = (err, d', st')"
  obtains (early) "err \<noteq> None" "st' = st" "undo_works ae \<longrightarrow> dd_live d' = dd_live d"
      "dd_live d' = dd_live d \<or> dd_prev d' = dd_live d"
  | (late) t d2 where "write_tree (ae_os ae) (rm_tree (os_RmStale (ae_os ae)) (dd_next d)) m bodies = (None, t)"
      "dd_live d2 = t" "dd_live d \<noteq> None \<longrightarrow> dd_prev d2 = dd_live d"
      "load_or_undo ae dataDir (dd_live d \<noteq> None) (d2, st) = (err, d', st')"
proof -
  obtain we t where w: "write_tree (ae_os ae) (rm_tree (os_RmStale (ae_os ae)) (dd_next d)) m bodies = (we, t)"
    by (cases "write_tree (ae_os ae) (rm_tree (os_RmStale (ae_os ae)) (dd_next d)) m bodies")
  show thesis
  proof (cases "os_MkdirData (ae_os ae) \<and> we = None \<and> os_Promote (ae_os ae) \<and>
      (dd_live d \<noteq> None \<longrightarrow> can_rename (os_Park (ae_os ae)) (rm_tree (os_RmPrev (ae_os ae)) (dd_prev d)))")
    case True
    let ?d1 = "d\<lparr>dd_next := t, dd_prev := rm_tree (os_RmPrev (ae_os ae)) (dd_prev d)\<rparr>"
    let ?d2 = "if dd_live d \<noteq> None then ?d1\<lparr>dd_prev := dd_live d, dd_live := None\<rparr> else ?d1"
    show thesis
      by (rule late [of t "?d2\<lparr>dd_live := dd_next ?d2, dd_next := None\<rparr>"])
        (use assms True w in \<open>auto simp: desired_Apply_def Let_def split: if_splits\<close>)
  next
    case False
    show thesis
      by (rule early)
        (use assms False w in \<open>auto simp: desired_Apply_def Let_def undo_works_def can_rename_def
           split: if_splits option.splits\<close>)
  qed
qed

lemma apply_done:
  assumes "desired_Apply ae dataDir m bodies (d, st) = (None, d', st')"
  shows "write_tree (ae_os ae) (rm_tree (os_RmStale (ae_os ae)) (dd_next d)) m bodies = (None, dd_live d')"
    and "load_tree ae dataDir (dd_live d') = Inr (st_current st')"
proof -
  from assms show "write_tree (ae_os ae) (rm_tree (os_RmStale (ae_os ae)) (dd_next d)) m bodies = (None, dd_live d')"
  proof (cases rule: Apply_cases)
    case (late t d2)
    with load_or_undo_ok [OF late(4)] show ?thesis by simp
  qed simp
  from assms show "load_tree ae dataDir (dd_live d') = Inr (st_current st')"
  proof (cases rule: Apply_cases)
    case (late t d2)
    with load_or_undo_ok [OF late(4)] show ?thesis by simp
  qed simp
qed

text \<open>What an error leaves: the store, and where the old tree is.\<close>

lemma apply_undone:
  assumes "desired_Apply ae dataDir m bodies (d, st) = (Some e, d', st')"
  shows "st_current st' = st_current st \<or>
      dd_live d \<noteq> None \<and> dd_live d' = dd_live d \<and> load_tree ae dataDir (dd_live d) = Inr (st_current st')"
    and "undo_works ae \<Longrightarrow> dd_live d' = dd_live d"
    and "dd_live d \<noteq> None \<Longrightarrow> dd_live d' = dd_live d \<or> dd_prev d' = dd_live d"
proof -
  have "(st_current st' = st_current st \<or>
      dd_live d \<noteq> None \<and> dd_live d' = dd_live d \<and> load_tree ae dataDir (dd_live d) = Inr (st_current st')) \<and>
    (undo_works ae \<longrightarrow> dd_live d' = dd_live d) \<and>
    (dd_live d \<noteq> None \<longrightarrow> dd_live d' = dd_live d \<or> dd_prev d' = dd_live d)"
    using assms
  proof (cases rule: Apply_cases)
    case early
    then show ?thesis by auto
  next
    case (late t d2)
    from load_or_undo_err [OF late(4)] late(3) show ?thesis by (auto simp: undo_works_def)
  qed
  then show "st_current st' = st_current st \<or>
      dd_live d \<noteq> None \<and> dd_live d' = dd_live d \<and> load_tree ae dataDir (dd_live d) = Inr (st_current st')"
    and "undo_works ae \<Longrightarrow> dd_live d' = dd_live d"
    and "dd_live d \<noteq> None \<Longrightarrow> dd_live d' = dd_live d \<or> dd_prev d' = dd_live d" by simp_all
qed

text \<open>
  C14.  Applying a generation is all or nothing, on a first start as well as over an earlier generation.
  When it reports success, the live tree is the one written from the manifest and the store holds what
  that tree loads to.  When it reports an error - whichever call failed - the store holds what it
  held, or the old live tree is in place again and the store holds what that tree loads to; a store
  that held it before holds it still.  The live tree is the one from before if the calls that undo
  succeed (renaming the parked tree back, removing the new tree), and whether they do or not, an old
  live tree is still there, in place or parked.  The store is taken to be touched by this call alone;
  the goroutine that watches its directory runs beside it.
\<close>

theorem Apply_all_or_nothing:
  assumes "desired_Apply ae dataDir m bodies (d, st) = (err, d', st')"
  shows "(err = None \<longrightarrow> serves ae dataDir d' st' \<and>
      write_tree (ae_os ae) (rm_tree (os_RmStale (ae_os ae)) (dd_next d)) m bodies = (None, dd_live d')) \<and>
    (err \<noteq> None \<longrightarrow>
      (st_current st' = st_current st \<or> dd_live d \<noteq> None \<and> dd_live d' = dd_live d \<and> serves ae dataDir d' st') \<and>
      (serves ae dataDir d st \<longrightarrow> st_current st' = st_current st) \<and>
      (undo_works ae \<longrightarrow> dd_live d' = dd_live d) \<and>
      (dd_live d \<noteq> None \<longrightarrow> dd_live d' = dd_live d \<or> dd_prev d' = dd_live d))"
proof (cases err)
  case None
  with apply_done assms show ?thesis by (simp add: serves_def)
next
  case (Some e)
  note undone = apply_undone [OF assms [unfolded Some]]
  from undone(1) have "serves ae dataDir d st \<longrightarrow> st_current st' = st_current st" by (auto simp: serves_def)
  with undone Some show ?thesis by (auto simp: serves_def)
qed

subsection \<open>What is served of a manifest\<close>

lemma load_entries_names:
  assumes "load_entries u y fs dir es out = Inr m"
  shows "fst ` set m = fst ` set out \<union> {n. \<exists>e \<in> set es. profileName u e = Some n}"
  using assms
proof (induction es arbitrary: out)
  case (Cons e es)
  show ?case
  proof (cases "profileName u e")
    case None
    with Cons show ?thesis by auto
  next
    case (Some n)
    with Cons.prems obtain p where "load_entries u y fs dir es (AList.update n p out) = Inr m" by auto
    from Cons.IH [OF this] Some show ?thesis by (auto simp: dom_update)
  qed
qed simp

lemma static_profiles_names: "static_profiles fs dir ns m sets = Inr m' \<Longrightarrow> fst ` set m' = fst ` set m"
proof (induction ns arbitrary: m sets)
  case (Cons n ns)
  show ?case
  proof (cases "map_of m n")
    case None
    with Cons show ?thesis by auto
  next
    case (Some p)
    with Cons.prems obtain rs sets' where
      "static_profiles fs dir ns (AList.update n (p\<lparr>p_Rules := rs\<rparr>) m) sets' = Inr m'"
      by (auto split: sum.splits prod.splits)
    from Cons.IH [OF this] Some show ?thesis by (auto simp: dom_update dest: map_of_SomeD intro: rev_image_eqI)
  qed
qed simp

lemma LoadDir_names:
  assumes "LoadDir u y fs dir = Inr m" and "fs_ReadDir fs dir = Some es"
  shows "fst ` set m = {n. \<exists>e \<in> set es. profileName u e = Some n}"
proof -
  from assms obtain m0 where m0: "load_entries u y fs dir es [] = Inr m0"
    "static_profiles fs dir (Names m0) m0 Map.empty = Inr m"
    by (auto simp: LoadDir_def loadStatic_def)
  from load_entries_names [OF m0(1)] static_profiles_names [OF m0(2)] show ?thesis by simp
qed

lemma write_profiles_names:
  assumes "write_profiles ok ps fs = (None, fs')"
  shows "fst ` set fs' = fst ` set fs \<union> (\<lambda>p. fst p @ ''.yaml'') ` set ps"
  using assms
proof (induction ok ps fs rule: write_profiles.induct)
  case (2 ok n files ps fs)
  then obtain f r where "files = f # r" "ok (n @ ''.yaml'') = Written"
    "write_profiles ok ps (AList.update (n @ ''.yaml'') (mf_Text f) fs) = (None, fs')"
    by (auto split: list.splits file_write.splits)
  with 2(1) show ?case by (auto simp: dom_update)
qed simp

lemma write_tree_names:
  assumes "write_tree os None m bodies = (None, t)"
  shows "\<exists>t'. t = Some t' \<and> fst ` set (tr_files t') = (\<lambda>p. fst p @ ''.yaml'') ` set (ma_Profiles m)"
proof -
  from assms obtain fs t' where w: "write_profiles (os_Write os) (ma_Profiles m) [] = (None, fs)"
    and t: "t = Some t'" "tr_files t' = fs"
    by (auto simp: write_tree_def empty_tree_def Let_def split: if_splits prod.splits option.splits)
  from write_profiles_names [OF w] t show ?thesis by auto
qed

lemma profileName_yaml:
  assumes "n \<noteq> []"
  shows "profileName u \<lparr>de_Name = n @ ''.yaml'', de_IsDir = False\<rparr> =
    (if HasPrefix n ''.'' \<or> HasPrefix n ''_'' then None else Some (ToLower u n))"
proof -
  have "HasPrefix (n @ x) [c] = HasPrefix n [c]" for x c using assms by (cases n) (auto simp: HasPrefix_def)
  then show ?thesis using assms by (simp add: profileName_def CutSuffix_def Let_def)
qed

lemma lists_dir_no_profile: "profileName u \<lparr>de_Name = ListsDir, de_IsDir = True\<rparr> = None"
  by (simp add: profileName_def)

lemma tree_profile_names:
  assumes "fst ` set (tr_files t) = (\<lambda>p. fst p @ ''.yaml'') ` set ps" and "\<forall>p \<in> set ps. fst p \<noteq> []"
  shows "{n. \<exists>e \<in> set (tree_entries t). profileName u e = Some n} =
    ToLower u ` {n \<in> fst ` set ps. \<not> HasPrefix n ''.'' \<and> \<not> HasPrefix n ''_''}"
proof -
  have es: "set (tree_entries t) = (\<lambda>f. \<lparr>de_Name = f, de_IsDir = False\<rparr>) ` fst ` set (tr_files t) \<union>
      (case tr_lists t of None \<Rightarrow> {} | Some ls \<Rightarrow> {\<lparr>de_Name = ListsDir, de_IsDir = True\<rparr>})"
    by (auto simp: tree_entries_def image_image split: option.splits)
  have "(\<exists>e \<in> set (tree_entries t). profileName u e = Some n) \<longleftrightarrow>
      (\<exists>p \<in> set ps. profileName u \<lparr>de_Name = fst p @ ''.yaml'', de_IsDir = False\<rparr> = Some n)" for n
    unfolding es assms(1) by (auto simp: lists_dir_no_profile split: option.splits)
  then show ?thesis using assms(2) by (auto simp: profileName_yaml split: if_splits)
qed

text \<open>The contents of the files a written tree has.\<close>

lemma write_profiles_text:
  assumes "write_profiles ok ps fs = (None, fs')" and "map_of fs' x = Some tx"
  shows "map_of fs x = Some tx \<or> (\<exists>(n, files) \<in> set ps. files \<noteq> [] \<and> x = n @ ''.yaml'' \<and> tx = mf_Text (hd files))"
  using assms
proof (induction ok ps fs rule: write_profiles.induct)
  case (2 ok n files ps fs)
  then obtain f r where w: "files = f # r" "ok (n @ ''.yaml'') = Written"
    "write_profiles ok ps (AList.update (n @ ''.yaml'') (mf_Text f) fs) = (None, fs')"
    by (auto split: list.splits file_write.splits)
  from 2(1) [OF w(1,2,3) 2(3)] w(1) show ?case by (auto simp: update_conv' split: if_splits)
qed simp

lemma write_lists_text:
  assumes "write_lists ok ns bodies fs = (None, fs')" and "map_of fs' x = Some b"
  shows "map_of fs x = Some b \<or> (\<exists>n \<in> set ns. x = n @ ''.txt'' \<and> bodies n = Some b)"
  using assms
proof (induction ok ns bodies fs rule: write_lists.induct)
  case (2 ok n ns bodies fs)
  then obtain c where w: "bodies n = Some c" "ok (n @ ''.txt'') = Written"
    "write_lists ok ns bodies (AList.update (n @ ''.txt'') c fs) = (None, fs')"
    by (auto split: option.splits file_write.splits)
  from 2(1) [OF w(1,2,3) 2(3)] w(1) show ?case by (auto simp: update_conv' split: if_splits)
qed simp

lemma write_tree_text:
  assumes "write_tree os None m bodies = (None, Some t)"
  shows "map_of (tr_files t) x = Some tx \<Longrightarrow>
      \<exists>(n, files) \<in> set (ma_Profiles m). files \<noteq> [] \<and> x = n @ ''.yaml'' \<and> tx = mf_Text (hd files)"
    and "tr_lists t = Some ls \<Longrightarrow> map_of ls x = Some b \<Longrightarrow> \<exists>n. x = n @ ''.txt'' \<and> bodies n = Some b"
proof -
  from assms obtain fs where w: "write_profiles (os_Write os) (ma_Profiles m) [] = (None, fs)" "tr_files t = fs"
    by (auto simp: write_tree_def empty_tree_def Let_def split: if_splits prod.splits option.splits)
  then show "\<exists>(n, files) \<in> set (ma_Profiles m). files \<noteq> [] \<and> x = n @ ''.yaml'' \<and> tx = mf_Text (hd files)"
    if "map_of (tr_files t) x = Some tx"
    using write_profiles_text [OF w(1), of x tx] that by simp
  show "\<exists>n. x = n @ ''.txt'' \<and> bodies n = Some b" if "tr_lists t = Some ls" "map_of ls x = Some b"
  proof -
    from assms that(1) have "write_lists (os_Write os) (map fst (ma_Lists m)) bodies [] = (None, ls)"
      by (auto simp: write_tree_def empty_tree_def Let_def split: if_splits prod.splits option.splits)
    from write_lists_text [OF this that(2)] show ?thesis by auto
  qed
qed

lemma tree_fs_ReadFile:
  "fs_ReadFile (tree_fs stat dir (Some t)) (dir @ [f]) = map_of (tr_files t) f"
  "fs_ReadFile (tree_fs stat dir (Some t)) (list_path dir l) = Option.bind (tr_lists t) (\<lambda>ls. map_of ls (l @ ''.txt''))"
  by (simp_all add: tree_fs_def list_path_def)

text \<open>
  A profile served of a manifest: it is the parse of the text of one of its files, under the lower-case
  name, and each of its static lists holds the values of the body that was fetched for it.
\<close>

definition served_of :: "apply_env \<Rightarrow> manifest \<Rightarrow> string gomap \<Rightarrow> string \<Rightarrow> profile \<Rightarrow> bool" where
  "served_of ae m bodies k p \<longleftrightarrow>
     (\<exists>n tx p0. (n, [\<lparr>mf_Name = ProfileFile, mf_Text = tx\<rparr>]) \<in> set (ma_Profiles m) \<and> k = ToLower (ae_uni ae) n \<and>
        policy_Parse (ae_uni ae) (ae_yaml ae) k tx = Inr p0 \<and> refilled p0 p) \<and>
     (\<forall>r \<in> set (p_Rules p). \<forall>l. r_Listed r = Some l \<and> lc_Static l \<longrightarrow>
        (\<exists>b. bodies (lc_List l) = Some b \<and> lc_set l = list_values b))"

lemma load_served_of:
  assumes "wf_manifest level m" and "write_tree os None m bodies = (None, Some t)"
    and "load_tree ae dataDir (Some t) = Inr g" and "map_of g k = Some p"
  shows "served_of ae m bodies k p"
proof -
  let ?dir = "dataDir @ [treeDir]" and ?fs = "tree_fs (ae_stat ae) (dataDir @ [treeDir]) (Some t)"
  from assms(3) have "LoadDir (ae_uni ae) (ae_yaml ae) ?fs ?dir = Inr g" by (simp add: load_tree_def)
  then obtain e raw p0 where
    e: "profileName (ae_uni ae) e = Some k" "fs_ReadFile ?fs (?dir @ [de_Name e]) = Some raw"
    and p0: "policy_Parse (ae_uni ae) (ae_yaml ae) k raw = Inr p0" "refilled p0 p"
    and st: "\<forall>r \<in> set (p_Rules p). static_from ?fs ?dir r"
    using assms(4) by (rule LoadDir_content [OF _ tree_fs_ReadDir(2)])
  have "map_of (tr_files t) (de_Name e) = Some raw" using e(2) by (simp only: tree_fs_ReadFile)
  from write_tree_text(1) [OF assms(2) this] obtain n files where
    n: "(n, files) \<in> set (ma_Profiles m)" "de_Name e = n @ ''.yaml''" "raw = mf_Text (hd files)" by blast
  with assms(1) obtain tx where files: "files = [\<lparr>mf_Name = ProfileFile, mf_Text = tx\<rparr>]" and "n \<noteq> []"
    by (fastforce simp: wf_manifest_def bad_profile_name_def)
  moreover have "e = \<lparr>de_Name = n @ ''.yaml'', de_IsDir = False\<rparr>"
    using e(1) n(2) by (cases e) (auto simp: profileName_def split: if_splits)
  ultimately have "k = ToLower (ae_uni ae) n" using e(1) profileName_yaml [of n "ae_uni ae"] by (simp split: if_splits)
  with n files p0 have "\<exists>n tx p0. (n, [\<lparr>mf_Name = ProfileFile, mf_Text = tx\<rparr>]) \<in> set (ma_Profiles m) \<and>
      k = ToLower (ae_uni ae) n \<and> policy_Parse (ae_uni ae) (ae_yaml ae) k tx = Inr p0 \<and> refilled p0 p" by auto
  moreover have "\<exists>b. bodies (lc_List l) = Some b \<and> lc_set l = list_values b"
    if "r \<in> set (p_Rules p)" "r_Listed r = Some l" "lc_Static l" for r l
  proof -
    from st that(1) have "static_from ?fs ?dir r" by (rule bspec)
    from this [unfolded static_from_def, rule_format, of l] that(2,3) obtain b where
      "fs_ReadFile ?fs (list_path ?dir (lc_List l)) = Some b" "lc_set l = list_values b" by blast
    moreover from this(1) obtain ls where "tr_lists t = Some ls" "map_of ls (lc_List l @ ''.txt'') = Some b"
      by (auto simp only: tree_fs_ReadFile bind_eq_Some_conv)
    ultimately show ?thesis using write_tree_text(2) [OF assms(2)] by fastforce
  qed
  ultimately show ?thesis by (auto simp: served_of_def)
qed

text \<open>
  C38.  What is served after a generation is applied.  If nothing was left of an earlier staging directory, or
  it could be removed, the names served are the lower-case names of the manifest, except those that
  begin with a dot or an underscore, which are not served at all although the manifest was accepted and
  the generation is reported with them; and every profile served is the parse of the text the manifest
  has for it, its static lists filled with the bodies fetched for them.
\<close>

theorem applied_profiles_served:
  assumes "manifest_Parse level json raw = Inr m" and "rm_tree (os_RmStale (ae_os ae)) (dd_next d) = None"
    and "desired_Apply ae dataDir m bodies (d, st) = (None, d', st')"
  shows "fst ` set (st_current st') =
      ToLower (ae_uni ae) ` {n \<in> set (manifest_Names m). \<not> HasPrefix n ''.'' \<and> \<not> HasPrefix n ''_''} \<and>
    (\<forall>k p. map_of (st_current st') k = Some p \<longrightarrow> served_of ae m bodies k p)"
proof -
  have wf: "wf_manifest level m" using assms(1) by (rule manifest_Parse_Inr)
  note fin = apply_done [OF assms(3), unfolded assms(2)]
  from write_tree_names [OF fin(1)] obtain t where t: "dd_live d' = Some t"
    and fs: "fst ` set (tr_files t) = (\<lambda>p. fst p @ ''.yaml'') ` set (ma_Profiles m)" by blast
  have "\<forall>p \<in> set (ma_Profiles m). fst p \<noteq> []" using wf by (auto simp: wf_manifest_def bad_profile_name_def)
  note names = tree_profile_names [OF fs this, of "ae_uni ae"]
  from fin(2) t have l: "load_tree ae dataDir (Some t) = Inr (st_current st')" by simp
  then have "LoadDir (ae_uni ae) (ae_yaml ae) (tree_fs (ae_stat ae) (dataDir @ [treeDir]) (Some t))
      (dataDir @ [treeDir]) = Inr (st_current st')" by (simp add: load_tree_def)
  from LoadDir_names [OF this tree_fs_ReadDir(2)] names load_served_of [OF wf fin(1) [unfolded t] l] show ?thesis
    by (simp add: manifest_Names_def)
qed

subsection \<open>Fetched lists\<close>

lemma fetch_bodies_Inr:
  assumes "fetch_bodies m ns bs out = Inr out'" and "distinct ns"
  shows "(\<forall>n \<in> set ns. \<exists>b. out' n = Some b \<and> body_hash b = sget (map_of (ma_Lists m)) n) \<and>
    (\<forall>n. n \<notin> set ns \<longrightarrow> out' n = out n)"
  using assms
proof (induction m ns bs out rule: fetch_bodies.induct)
  case (3 m n ns b bs out)
  from 3(2) obtain body where b: "b = Some body" "body_hash body = sget (map_of (ma_Lists m)) n"
    and f: "fetch_bodies m ns bs (out(n \<mapsto> body)) = Inr out'" by (auto split: option.splits if_splits)
  from 3(3) have d: "distinct ns" "n \<notin> set ns" by simp_all
  have "\<not> body_hash body \<noteq> sget (map_of (ma_Lists m)) n" using b by simp
  note ih = 3(1) [OF b(1) this f d(1)]
  then have "out' n = Some body" using d(2) by simp
  with ih b(2) show ?case by auto
qed auto

text \<open>
  The bodies of static lists a generation is applied with are complete and authentic: every
  list of the manifest has one, and its SHA-256 is the hash the manifest names.
\<close>

theorem FetchLists_verified:
  assumes "FetchLists blobs m = Inr bodies" and "distinct (map fst (ma_Lists m))"
  shows "dom bodies = fst ` set (ma_Lists m) \<and>
    (\<forall>(n, h) \<in> set (ma_Lists m). \<exists>b. bodies n = Some b \<and> body_hash b = h)"
proof (cases "ma_Lists m = []")
  case False
  with assms(1) obtain bs where f: "fetch_bodies m (sort (map fst (ma_Lists m))) bs Map.empty = Inr bodies"
    by (auto simp: FetchLists_def Let_def split: option.splits)
  from fetch_bodies_Inr [OF f] assms(2) have
    all: "\<forall>n \<in> fst ` set (ma_Lists m). \<exists>b. bodies n = Some b \<and> body_hash b = sget (map_of (ma_Lists m)) n"
    and none: "\<forall>n. n \<notin> fst ` set (ma_Lists m) \<longrightarrow> bodies n = None" by auto
  have "sget (map_of (ma_Lists m)) n = h" if "(n, h) \<in> set (ma_Lists m)" for n h
    using that assms(2) by (simp add: map_of_eq_Some_iff)
  with all none show ?thesis by (force simp: dom_def)
qed (use assms in \<open>simp add: FetchLists_def\<close>)

lemma fetch_bodies_complete:
  "\<forall>n \<in> set ns. \<exists>b. f n = Some b \<and> body_hash b = sget (map_of (ma_Lists m)) n \<Longrightarrow>
    \<exists>out'. fetch_bodies m ns (map f ns) out = Inr out'"
  by (induction ns arbitrary: out) auto

text \<open>
  C30.  The lists a generation is applied with are complete and authentic, and a generation whose lists
  are there is not refused.  Fetched bodies are one for every list the manifest names and for no
  other, each with the SHA-256 the manifest gives it, whatever the store of objects answered - fewer
  answers than keys, missing or altered objects.  If the store answers a read of several keys with what
  it holds under each, and holds a body of that hash under the key of every list, the fetch succeeds;
  and without a store only a manifest without lists can be applied.  The names of the lists are
  distinct, as the keys of a map are.
\<close>

theorem fetched_lists_authentic:
  assumes "distinct (map fst (ma_Lists m))"
  shows "(\<forall>bodies. FetchLists blobs m = Inr bodies \<longrightarrow> dom bodies = fst ` set (ma_Lists m) \<and>
      (\<forall>(n, h) \<in> set (ma_Lists m). \<exists>b. bodies n = Some b \<and> ''sha256:'' @ hex_encode (sha256 b) = h)) \<and>
    (\<forall>get. blobs = Some (\<lambda>ks. Some (map get ks)) \<longrightarrow>
      (\<forall>(n, h) \<in> set (ma_Lists m). \<exists>b. get (BlobPrefix @ TrimPrefix h ''sha256:'') = Some b \<and>
         ''sha256:'' @ hex_encode (sha256 b) = h) \<longrightarrow>
      (\<exists>bodies. FetchLists blobs m = Inr bodies)) \<and>
    (blobs = None \<longrightarrow> FetchLists blobs m = (if ma_Lists m = [] then Inr Map.empty else Inl NoInternalRedis))"
proof (intro conjI allI impI)
  fix bodies
  assume "FetchLists blobs m = Inr bodies"
  from FetchLists_verified [OF this assms] show "dom bodies = fst ` set (ma_Lists m)"
    and "\<forall>(n, h) \<in> set (ma_Lists m). \<exists>b. bodies n = Some b \<and> ''sha256:'' @ hex_encode (sha256 b) = h"
    by (auto simp: body_hash_def)
next
  fix get
  assume b: "blobs = Some (\<lambda>ks. Some (map get ks))" and all: "\<forall>(n, h) \<in> set (ma_Lists m).
    \<exists>b. get (BlobPrefix @ TrimPrefix h ''sha256:'') = Some b \<and> ''sha256:'' @ hex_encode (sha256 b) = h"
  let ?key = "\<lambda>n. BlobPrefix @ TrimPrefix (sget (map_of (ma_Lists m)) n) ''sha256:''"
  have "sget (map_of (ma_Lists m)) n = h" if "(n, h) \<in> set (ma_Lists m)" for n h
    using that assms by (simp add: map_of_eq_Some_iff)
  with all have "\<forall>n \<in> set (sort (map fst (ma_Lists m))). \<exists>b. get (?key n) = Some b \<and> body_hash b = sget (map_of (ma_Lists m)) n"
    by (fastforce simp: body_hash_def)
  from fetch_bodies_complete [OF this, of Map.empty] show "\<exists>bodies. FetchLists blobs m = Inr bodies"
    by (auto simp: FetchLists_def b Let_def comp_def)
qed (simp add: FetchLists_def)

subsection \<open>Handling\<close>

text \<open>
  C17.  Handling a value of the desired state, on every branch.  A manifest that does not parse, or that
  is the one reported as applied, changes nothing.  When its lists cannot be fetched the report becomes a
  failure that keeps the hash, the revision and the names of the last applied generation, nothing else
  changes, and another try is asked for exactly when a store of lists is configured.  When they were
  fetched no other try is asked for: a generation that is applied is reported with its hash, revision
  and names, its log level holds if it sets one, the store holds the live tree, and handling the same
  value again changes nothing; one that fails is reported as a failure of the last applied one, the log
  level stays, and the store holds what it held or the old live tree.  As before, the store is taken to
  be touched by this call alone.
\<close>

theorem handle_spec:
  assumes "desired_handle en dataDir raw s = (again, s')"
  shows "case manifest_Parse (de_level en) (de_json en) raw of
      Inl e \<Rightarrow> s' = s \<and> \<not> again
    | Inr m \<Rightarrow>
        if ds_applied s = applied_set (ma_ConfigHash m) (ma_Rev m) ApplyOK (ap_names (ds_applied s)) then s' = s \<and> \<not> again
        else (case FetchLists (de_blobs en) m of
          Inl e \<Rightarrow> s' = s\<lparr>ds_applied := (ds_applied s)\<lparr>ap_apply := ApplyFailed\<rparr>\<rparr> \<and> (again \<longleftrightarrow> de_blobs en \<noteq> None)
        | Inr bodies \<Rightarrow> \<not> again \<and>
            (if fst (desired_Apply (de_apply en) dataDir m bodies (ds_dirs s, ds_store s)) = None
             then ds_applied s' = applied_set (ma_ConfigHash m) (ma_Rev m) ApplyOK (sort (map fst (ma_Profiles m))) \<and>
               ds_level s' = (case ma_Settings m of None \<Rightarrow> ds_level s | Some se \<Rightarrow> se_level se) \<and>
               serves (de_apply en) dataDir (ds_dirs s') (ds_store s') \<and> desired_handle en dataDir raw s' = (False, s')
             else ds_applied s' = (ds_applied s)\<lparr>ap_apply := ApplyFailed\<rparr> \<and> ds_level s' = ds_level s \<and>
               (st_current (ds_store s') = st_current (ds_store s) \<or> dd_live (ds_dirs s) \<noteq> None \<and>
                dd_live (ds_dirs s') = dd_live (ds_dirs s) \<and> serves (de_apply en) dataDir (ds_dirs s') (ds_store s'))))"
proof (cases "manifest_Parse (de_level en) (de_json en) raw")
  case (Inr m)
  let ?a = "ds_applied s"
  have same: "?a = applied_set (ma_ConfigHash m) (ma_Rev m) ApplyOK (ap_names ?a) \<longleftrightarrow>
      ap_apply ?a = ApplyOK \<and> ap_hash ?a = ma_ConfigHash m \<and> ap_rev ?a = ma_Rev m"
    by (cases ?a) (auto simp: applied_set_def)
  have failed: "applied_set (ap_hash ?a) (ap_rev ?a) ApplyFailed (ap_names ?a) = ?a\<lparr>ap_apply := ApplyFailed\<rparr>"
    by (cases ?a) (simp add: applied_set_def)
  note h = assms(1) [unfolded desired_handle_def Inr sum.case Let_def same [symmetric] failed]
  show ?thesis
  proof (cases "?a = applied_set (ma_ConfigHash m) (ma_Rev m) ApplyOK (ap_names ?a)")
    case True
    with h Inr show ?thesis by simp
  next
    case False
    show ?thesis
    proof (cases "FetchLists (de_blobs en) m")
      case (Inl e)
      with h Inr False show ?thesis by auto
    next
      case bodies: (Inr bodies)
      obtain err d st where a: "desired_Apply (de_apply en) dataDir m bodies (ds_dirs s, ds_store s) = (err, d, st)"
        by (cases "desired_Apply (de_apply en) dataDir m bodies (ds_dirs s, ds_store s)")
      show ?thesis
      proof (cases err)
        case None
        with h False bodies a have s': "\<not> again" "s' = s\<lparr>ds_dirs := d, ds_store := st,
            ds_applied := applied_set (ma_ConfigHash m) (ma_Rev m) ApplyOK (manifest_Names m),
            ds_level := settings_apply (ma_Settings m) (ds_level s)\<rparr>" by simp_all
        have "settings_apply (ma_Settings m) (ds_level s) = (case ma_Settings m of None \<Rightarrow> ds_level s | Some se \<Rightarrow> se_level se)"
          by (simp add: settings_apply_def split: option.split)
        moreover have "serves (de_apply en) dataDir d st"
          using apply_done(2) a None by (simp add: serves_def)
        moreover have "desired_handle en dataDir raw s' = (False, s')" using Inr by (simp add: desired_handle_def s'(2))
        ultimately show ?thesis using s' Inr False bodies a None by (simp add: manifest_Names_def)
      next
        case (Some e)
        note undone = apply_undone(1) [OF a [unfolded Some]]
        from h False bodies a Some have s': "\<not> again"
          "s' = s\<lparr>ds_dirs := d, ds_store := st, ds_applied := ?a\<lparr>ap_apply := ApplyFailed\<rparr>\<rparr>" by simp_all
        with undone Some Inr False bodies a show ?thesis by (simp add: serves_def) auto
      qed
    qed
  qed
qed (use assms in \<open>simp add: desired_handle_def\<close>)

text \<open>
  What a call does to the directories, its error and its report do not depend on the store: whatever
  another goroutine makes of the store while a generation is applied, they are the same.
\<close>

lemma load_or_undo_any_store:
  "fst (load_or_undo ae dataDir lived (d, st)) = fst (load_or_undo ae dataDir lived (d, st0))"
  "fst (snd (load_or_undo ae dataDir lived (d, st))) = fst (snd (load_or_undo ae dataDir lived (d, st0)))"
  by (auto simp: load_or_undo_def reload_live_cases Let_def split: sum.splits)

lemma Apply_any_store:
  "fst (desired_Apply ae dataDir m bodies (d, st)) = fst (desired_Apply ae dataDir m bodies (d, st0)) \<and>
   fst (snd (desired_Apply ae dataDir m bodies (d, st))) = fst (snd (desired_Apply ae dataDir m bodies (d, st0)))"
proof (cases "write_tree (ae_os ae) (rm_tree (os_RmStale (ae_os ae)) (dd_next d)) m bodies")
  case (Pair e t)
  then show ?thesis
    by (cases e) (auto simp: desired_Apply_def Let_def load_or_undo_any_store [of ae dataDir _ _ st st0])
qed

lemma handle_any_store:
  "fst (desired_handle en dataDir raw s) = fst (desired_handle en dataDir raw (s\<lparr>ds_store := st\<rparr>)) \<and>
   ds_dirs (snd (desired_handle en dataDir raw s)) = ds_dirs (snd (desired_handle en dataDir raw (s\<lparr>ds_store := st\<rparr>))) \<and>
   ds_applied (snd (desired_handle en dataDir raw s)) = ds_applied (snd (desired_handle en dataDir raw (s\<lparr>ds_store := st\<rparr>)))"
proof (cases "manifest_Parse (de_level en) (de_json en) raw")
  case (Inr m)
  show ?thesis
  proof (cases "FetchLists (de_blobs en) m")
    case bodies: (Inr bodies)
    obtain e d x where a: "desired_Apply (de_apply en) dataDir m bodies (ds_dirs s, ds_store s) = (e, d, x)"
      by (cases "desired_Apply (de_apply en) dataDir m bodies (ds_dirs s, ds_store s)")
    obtain e' d' x' where a': "desired_Apply (de_apply en) dataDir m bodies (ds_dirs s, st) = (e', d', x')"
      by (cases "desired_Apply (de_apply en) dataDir m bodies (ds_dirs s, st)")
    from Apply_any_store [of "de_apply en" dataDir m bodies "ds_dirs s" "ds_store s" st] a a' have "e' = e" "d' = d" by simp_all
    with a a' Inr bodies show ?thesis by (cases e) (simp_all add: desired_handle_def Let_def)
  qed (use Inr in \<open>simp add: desired_handle_def Let_def\<close>)
qed (simp add: desired_handle_def)

subsection \<open>Runs of the watcher\<close>

text \<open>
  Updates and retries in any order, and anything the goroutine that watches the directory of the store
  makes of the store meanwhile.  Every step meets its own operating system, object store and decoder;
  only the parser of profiles stays the same.  In a run with \<open>safe\<close>, what the program undoes it can
  undo.
\<close>

inductive watch_reach :: "bool \<Rightarrow> apply_env \<Rightarrow> path \<Rightarrow> desired_watch \<Rightarrow> desired_watch \<Rightarrow> bool"
  for safe ae dataDir w0 where
  here: "watch_reach safe ae dataDir w0 w0"
| update: "watch_reach safe ae dataDir w0 w \<Longrightarrow> de_apply en = ae\<lparr>ae_os := os\<rparr> \<Longrightarrow>
    (safe \<Longrightarrow> undo_works (de_apply en)) \<Longrightarrow> watch_reach safe ae dataDir w0 (watch_update en dataDir raw w)"
| retry: "watch_reach safe ae dataDir w0 w \<Longrightarrow> de_apply en = ae\<lparr>ae_os := os\<rparr> \<Longrightarrow>
    (safe \<Longrightarrow> undo_works (de_apply en)) \<Longrightarrow> dw_armed w \<Longrightarrow> watch_reach safe ae dataDir w0 (watch_retry en dataDir w)"
| reloaded: "watch_reach safe ae dataDir w0 w \<Longrightarrow>
    watch_reach safe ae dataDir w0 (w\<lparr>dw_state := (dw_state w)\<lparr>ds_store := st\<rparr>\<rparr>)"

text \<open>
  The turns of the two goroutines that run beside the requests: the watcher of the desired state
  takes what it receives until it ends, and the watcher of the store leaves the store changed.
\<close>

datatype turn = TurnDesired desired_env watch_event | TurnStore "store_state \<Rightarrow> store_state"

fun turns :: "path \<Rightarrow> turn list \<Rightarrow> bool \<Rightarrow> desired_watch \<Rightarrow> desired_watch" where
  "turns dataDir [] alive w = w"
| "turns dataDir (TurnStore f # ts) alive w =
     turns dataDir ts alive (w\<lparr>dw_state := (dw_state w)\<lparr>ds_store := f (ds_store (dw_state w))\<rparr>\<rparr>)"
| "turns dataDir (TurnDesired en ev # ts) alive w =
     (if \<not> alive then turns dataDir ts False w
      else case watch_select en dataDir ev w of
             None \<Rightarrow> turns dataDir ts False w
           | Some w' \<Rightarrow> turns dataDir ts True w')"

text \<open>A goroutine alone runs its loop.\<close>

lemma turns_dead: "turns dataDir (map (\<lambda>(en, ev). TurnDesired en ev) evs) False w = w"
  by (induction evs) auto

lemma turns_loop: "turns dataDir (map (\<lambda>(en, ev). TurnDesired en ev) evs) True w = watch_loop dataDir evs w"
  by (induction dataDir evs w rule: watch_loop.induct) (auto simp: turns_dead split: option.splits)

definition turn_env :: "apply_env \<Rightarrow> turn \<Rightarrow> bool" where
  "turn_env ae x \<longleftrightarrow> (case x of TurnDesired en ev \<Rightarrow> \<exists>os. de_apply en = ae\<lparr>ae_os := os\<rparr> | TurnStore f \<Rightarrow> True)"

lemma turns_reach:
  assumes "watch_reach False ae dataDir w0 w" and "\<forall>x \<in> set ts. turn_env ae x"
  shows "watch_reach False ae dataDir w0 (turns dataDir ts alive w)"
  using assms
proof (induction dataDir ts alive w rule: turns.induct)
  case (2 dataDir f ts alive w)
  then show ?case by (simp add: watch_reach.reloaded)
next
  case (3 dataDir en ev ts alive w)
  from 3(5) obtain os where os: "de_apply en = ae\<lparr>ae_os := os\<rparr>" by (auto simp: turn_env_def)
  have "watch_reach False ae dataDir w0 w'" if "watch_select en dataDir ev w = Some w'" for w'
    using that 3(4) watch_reach.update [OF 3(4) os] watch_reach.retry [OF 3(4) os]
    by (auto simp: watch_select_def split: watch_event.splits if_splits)
  with 3 show ?case by (auto split: option.splits)
qed simp

text \<open>
  A report and a live tree belong together: the report names a manifest that parsed, and the tree was
  written from it and loads.
\<close>

definition names_manifest :: "applied_state \<Rightarrow> manifest \<Rightarrow> bool" where
  "names_manifest a m \<longleftrightarrow> (\<exists>level. wf_manifest level m) \<and>
     ap_hash a = ma_ConfigHash m \<and> ap_rev a = ma_Rev m \<and> ap_names a = manifest_Names m"

definition generation :: "apply_env \<Rightarrow> path \<Rightarrow> applied_state \<Rightarrow> tree option \<Rightarrow> bool" where
  "generation ae dataDir a t \<longleftrightarrow> (\<exists>m os old bodies g. names_manifest a m \<and>
     write_tree os old m bodies = (None, t) \<and> load_tree ae dataDir t = Inr g)"

definition report_inv :: "bool \<Rightarrow> apply_env \<Rightarrow> path \<Rightarrow> tree option \<Rightarrow> desired_state \<Rightarrow> bool" where
  "report_inv safe ae dataDir live0 s \<longleftrightarrow>
     (ap_apply (ds_applied s) = ApplyOK \<longrightarrow> generation ae dataDir (ds_applied s) (dd_live (ds_dirs s))) \<and>
     (ap_hash (ds_applied s) \<noteq> [] \<longrightarrow> (\<exists>m. names_manifest (ds_applied s) m) \<and>
        (safe \<longrightarrow> generation ae dataDir (ds_applied s) (dd_live (ds_dirs s)))) \<and>
     (ap_hash (ds_applied s) = [] \<longrightarrow> ap_apply (ds_applied s) \<noteq> ApplyOK \<and>
        ap_rev (ds_applied s) = 0 \<and> ap_names (ds_applied s) = [] \<and> (safe \<longrightarrow> dd_live (ds_dirs s) = live0))"

lemma load_tree_os [simp]: "load_tree (ae\<lparr>ae_os := os\<rparr>) dataDir t = load_tree ae dataDir t"
  by (simp add: load_tree_def)

lemma serves_os [simp]: "serves (ae\<lparr>ae_os := os\<rparr>) dataDir d st = serves ae dataDir d st"
  by (simp add: serves_def)

lemma names_manifest_apply [simp]: "names_manifest (a\<lparr>ap_apply := x\<rparr>) m = names_manifest a m"
  by (simp add: names_manifest_def)

lemma generation_apply [simp]: "generation ae dataDir (a\<lparr>ap_apply := x\<rparr>) t = generation ae dataDir a t"
  by (simp add: generation_def)

lemma HashLists_nonempty [simp]: "HashLists ps ls se \<noteq> []"
  by (simp add: HashLists_def)

lemma parsed_hash: "manifest_Parse level json raw = Inr m \<Longrightarrow> ma_ConfigHash m \<noteq> []"
  using manifest_Parse_Inr [of level json raw m] by (simp add: wf_manifest_def)

lemma report_failed:
  assumes "report_inv safe ae dataDir live0 s" and "safe \<longrightarrow> dd_live (ds_dirs s') = dd_live (ds_dirs s)"
    and "ds_applied s' = (ds_applied s)\<lparr>ap_apply := ApplyFailed\<rparr>"
  shows "report_inv safe ae dataDir live0 s'"
  using assms by (auto simp: report_inv_def)

lemma handle_report:
  assumes "desired_handle en dataDir raw s = (again, s')" and "de_apply en = ae\<lparr>ae_os := os\<rparr>"
    and "safe \<Longrightarrow> undo_works (de_apply en)" and "report_inv safe ae dataDir live0 s"
  shows "report_inv safe ae dataDir live0 s'"
proof (cases "manifest_Parse (de_level en) (de_json en) raw")
  case (Inr m)
  have failed: "applied_set (ap_hash a) (ap_rev a) ApplyFailed (ap_names a) = a\<lparr>ap_apply := ApplyFailed\<rparr>" for a
    by (cases a) (simp add: applied_set_def)
  show ?thesis
  proof (cases "FetchLists (de_blobs en) m")
    case (Inl e)
    with assms(1) Inr have "s' = s \<or> s' = s\<lparr>ds_applied := (ds_applied s)\<lparr>ap_apply := ApplyFailed\<rparr>\<rparr>"
      by (auto simp: desired_handle_def Let_def failed split: if_splits)
    with report_failed [OF assms(4), of s'] assms(4) show ?thesis by auto
  next
    case bodies: (Inr bodies)
    obtain err d st where a: "desired_Apply (de_apply en) dataDir m bodies (ds_dirs s, ds_store s) = (err, d, st)"
      by (cases "desired_Apply (de_apply en) dataDir m bodies (ds_dirs s, ds_store s)")
    show ?thesis
    proof (cases err)
      case None
      note fin = apply_done [OF a [unfolded None]]
      have names: "names_manifest (applied_set (ma_ConfigHash m) (ma_Rev m) ApplyOK (manifest_Names m)) m"
        using manifest_Parse_Inr [OF Inr] by (auto simp: names_manifest_def)
      with fin assms(2) have gen: "generation ae dataDir (applied_set (ma_ConfigHash m) (ma_Rev m) ApplyOK (manifest_Names m)) (dd_live d)"
        unfolding generation_def by auto
      have "s' = s \<or> ds_dirs s' = d \<and>
          ds_applied s' = applied_set (ma_ConfigHash m) (ma_Rev m) ApplyOK (manifest_Names m)"
        using assms(1) Inr bodies a None by (auto simp: desired_handle_def Let_def split: if_splits)
      with gen names show ?thesis using assms(4) parsed_hash [OF Inr] by (elim disjE) (auto simp: report_inv_def)
    next
      case (Some e)
      with assms(1) Inr bodies a have "s' = s \<or>
          s' = s\<lparr>ds_dirs := d, ds_store := st, ds_applied := (ds_applied s)\<lparr>ap_apply := ApplyFailed\<rparr>\<rparr>"
        by (auto simp: desired_handle_def Let_def failed split: if_splits)
      with report_failed [OF assms(4), of s'] apply_undone(2) [OF a [unfolded Some]] assms(3,4) show ?thesis by auto
    qed
  qed
qed (use assms in \<open>simp add: desired_handle_def\<close>)

text \<open>A report says that a generation was applied or that one failed, or nothing at all.\<close>

lemma handle_words:
  "ap_apply (ds_applied (snd (desired_handle en dataDir raw s))) \<in> {ApplyOK, ApplyFailed, ap_apply (ds_applied s)}"
  by (auto simp: desired_handle_def Let_def split: sum.splits prod.splits option.splits)

lemma watch_words:
  assumes "watch_reach safe ae dataDir w0 w"
  shows "ap_apply (ds_applied (dw_state w)) \<in> {ApplyOK, ApplyFailed, ap_apply (ds_applied (dw_state w0))}"
  using assms
proof (induction rule: watch_reach.induct)
  case (update w en os raw)
  then show ?case using handle_words [of en dataDir raw "dw_state w"] by (auto simp: watch_update_def split: prod.splits)
next
  case (retry w en os)
  then show ?case using handle_words [of en dataDir "the (dw_pending w)" "dw_state w"]
    by (auto simp: watch_retry_def split: prod.splits option.splits)
qed simp_all

lemma watch_report:
  assumes "watch_reach safe ae dataDir w0 w" and "ds_applied (dw_state w0) = no_applied"
  shows "report_inv safe ae dataDir (dd_live (ds_dirs (dw_state w0))) (dw_state w)"
  using assms
proof (induction rule: watch_reach.induct)
  case here
  then show ?case by (simp add: report_inv_def no_applied_def)
next
  case (update w en os raw)
  then show ?case using handle_report [of en dataDir raw "dw_state w", where ae = ae and os = os and safe = safe]
    by (auto simp: watch_update_def split: prod.splits)
next
  case (retry w en os)
  then show ?case using handle_report [of en dataDir "the (dw_pending w)" "dw_state w", where ae = ae and os = os and safe = safe]
    by (auto simp: watch_retry_def split: prod.splits option.splits)
next
  case (reloaded w st)
  then show ?case by (simp add: report_inv_def)
qed

subsection \<open>A data directory\<close>

text \<open>
  A generation with two profiles, one of them under a name the store skips, over a directory that
  serves an earlier one; every call of the operating system succeeds.
\<close>

definition blank_yaml :: yaml where
  "blank_yaml raw = Some \<lparr>fp_Mode = [], fp_Conditions = [], fp_Cookies = [], fp_Rules = []\<rparr>"

definition blank_profile :: "string \<Rightarrow> profile" where
  "blank_profile n = \<lparr>p_Name = n, p_Mode = ModeEnforce, p_Cookies = [], p_Rules = []\<rparr>"

definition demo_apply :: apply_env where
  "demo_apply = \<lparr>ae_uni = ascii_only, ae_yaml = blank_yaml, ae_stat = (\<lambda>_. None),
     ae_os = \<lparr>os_MkdirData = True, os_MkdirNext = True, os_Write = (\<lambda>_. Written), os_MkdirLists = True,
       os_Park = True, os_Promote = True, os_Unpark = True, os_Restore = True, os_RmStale = Gone,
       os_RmNext = Gone, os_RmPrev = Gone, os_RmLive = Gone, os_RmOld = Gone\<rparr>\<rparr>"

definition demo_manifest :: manifest where
  "demo_manifest = \<lparr>ma_V = 1, ma_Rev = 7, ma_ConfigHash = [],
     ma_Profiles = [(''default'', [\<lparr>mf_Name = ''profile.yaml'', mf_Text = ''a''\<rparr>]),
                    (''_x'', [\<lparr>mf_Name = ''profile.yaml'', mf_Text = ''b''\<rparr>])],
     ma_Lists = [], ma_Settings = None\<rparr>"

definition demo_parsed :: manifest where
  "demo_parsed = demo_manifest\<lparr>ma_ConfigHash := HashLists (ma_Profiles demo_manifest) [] None\<rparr>"

definition demo_dirs :: data_dir where
  "demo_dirs = \<lparr>dd_next = None, dd_prev = None,
     dd_live = Some \<lparr>tr_files = [(''default.yaml'', ''old'')], tr_lists = None\<rparr>\<rparr>"

definition demo_served :: store_state where
  "demo_served = \<lparr>st_dir = [''d'', treeDir], st_print = [],
     st_current = [(''default'', blank_profile ''default'')], st_loads = None\<rparr>"

lemmas demo_apply_defs = demo_apply_def demo_manifest_def demo_parsed_def demo_dirs_def demo_served_def

lemma blank_parse: "policy_Parse u blank_yaml n raw = Inr (blank_profile n)"
  by (simp add: policy_Parse_def blank_yaml_def profile_mode_def blank_profile_def)

lemma default_entry:
  "profileName ascii_only \<lparr>de_Name = ''default.yaml'', de_IsDir = False\<rparr> = Some ''default''"
  using profileName_yaml [of "''default''" ascii_only] 
  by (simp add: HasPrefix_def ToLower_def lower1_def ascii_only_def char_class_defs)

lemma x_entry: "profileName ascii_only \<lparr>de_Name = ''_x.yaml'', de_IsDir = False\<rparr> = None"
  by (simp add: profileName_def HasPrefix_def)

lemma demo_serves: "serves demo_apply [''d''] demo_dirs demo_served"
  by (simp add: serves_def load_tree_def LoadDir_def demo_apply_defs tree_entries_def default_entry
      tree_fs_def blank_parse loadStatic_def Names_def blank_profile_def)

lemma demo_manifest_Parse: "manifest_Parse (\<lambda>_. None) (\<lambda>_. Some demo_manifest) raw = Inr demo_parsed"
  by (simp add: manifest_Parse_def demo_manifest_def demo_parsed_def check_profile_def
      bad_profile_name_def ContainsAny_def settings_validate_def)

lemma demo_Apply: "\<exists>d' st'. desired_Apply demo_apply [''d''] demo_parsed Map.empty (demo_dirs, demo_served) = (None, d', st')"
  by (simp add: desired_Apply_def demo_apply_defs write_tree_def Let_def empty_tree_def can_rename_def
      load_or_undo_def reload_live_cases load_tree_def LoadDir_def tree_entries_def default_entry x_entry
      tree_fs_def blank_parse loadStatic_def Names_def blank_profile_def)

lemma demo_rev: "ma_Rev demo_parsed = 7" and demo_lists: "ma_Lists demo_parsed = []"
  by (simp_all add: demo_parsed_def demo_manifest_def)

theorem manifest_Parse_wf_witness:
  "manifest_Parse (\<lambda>_. None) (\<lambda>_. Some demo_manifest) [] = Inr demo_parsed \<and> wf_manifest (\<lambda>_. None) demo_parsed"
  using manifest_Parse_wf [OF demo_manifest_Parse] demo_manifest_Parse by simp

text \<open>The first generation: there is no live tree, and the store serves profiles of another directory.\<close>

definition first_dirs :: data_dir where
  "first_dirs = \<lparr>dd_next = None, dd_prev = None, dd_live = None\<rparr>"

lemma first_Apply: "\<exists>d' st'. desired_Apply demo_apply [''d''] demo_parsed Map.empty (first_dirs, demo_served) = (None, d', st')"
  by (simp add: desired_Apply_def demo_apply_defs first_dirs_def write_tree_def Let_def empty_tree_def can_rename_def
      load_or_undo_def reload_live_cases load_tree_def LoadDir_def tree_entries_def default_entry x_entry
      tree_fs_def blank_parse loadStatic_def Names_def blank_profile_def)

theorem Apply_all_or_nothing_witness:
  "\<exists>d' st'. desired_Apply demo_apply [''d''] demo_parsed Map.empty (first_dirs, demo_served) = (None, d', st') \<and>
     serves demo_apply [''d''] d' st'"
  using first_Apply Apply_all_or_nothing by blast

theorem applied_profiles_served_witness:
  "\<exists>d' st'. desired_Apply demo_apply [''d''] demo_parsed Map.empty (demo_dirs, demo_served) = (None, d', st') \<and>
     fst ` set (st_current st') = {''default''} \<and>
     (\<forall>k p. map_of (st_current st') k = Some p \<longrightarrow> served_of demo_apply demo_parsed Map.empty k p)"
proof -
  obtain d' st' where a:
    "desired_Apply demo_apply [''d''] demo_parsed Map.empty (demo_dirs, demo_served) = (None, d', st')"
    using demo_Apply by blast
  have "rm_tree (os_RmStale (ae_os demo_apply)) (dd_next demo_dirs) = None" by (simp add: demo_apply_def)
  note served = applied_profiles_served [OF demo_manifest_Parse this a]
  then have "fst ` set (st_current st') =
      ToLower ascii_only ` {n \<in> {''_x'', ''default''}. \<not> HasPrefix n ''.'' \<and> \<not> HasPrefix n ''_''}"
    by (simp add: demo_apply_defs manifest_Names_def)
  also have "{n \<in> {''_x'', ''default''}. \<not> HasPrefix n ''.'' \<and> \<not> HasPrefix n ''_''} = {''default''}"
    by (auto simp: HasPrefix_def)
  finally have "fst ` set (st_current st') = {''default''}"
    by (simp add: ToLower_def lower1_def ascii_only_def char_class_defs)
  with a served show ?thesis by blast
qed

text \<open>A list of the manifest whose body is the one in the store of objects.\<close>

theorem FetchLists_verified_witness:
  "\<exists>bodies. FetchLists (Some (\<lambda>_. Some [Some ''x'']))
       (demo_manifest\<lparr>ma_Lists := [(''l'', body_hash ''x'')]\<rparr>) = Inr bodies \<and> dom bodies = {''l''}"
proof -
  let ?m = "demo_manifest\<lparr>ma_Lists := [(''l'', body_hash ''x'')]\<rparr>"
  have "FetchLists (Some (\<lambda>_. Some [Some ''x''])) ?m = Inr [''l'' \<mapsto> ''x'']"
    by (simp add: FetchLists_def Let_def)
  from this FetchLists_verified [OF this] show ?thesis by simp
qed

theorem fetched_lists_authentic_witness:
  "\<exists>bodies. FetchLists (Some (\<lambda>ks. Some (map (\<lambda>_. Some ''x'') ks)))
       (demo_manifest\<lparr>ma_Lists := [(''l'', body_hash ''x'')]\<rparr>) = Inr bodies \<and>
     (\<exists>b. bodies ''l'' = Some b \<and> body_hash b = body_hash ''x'')"
proof -
  let ?m = "demo_manifest\<lparr>ma_Lists := [(''l'', body_hash ''x'')]\<rparr>"
  have "distinct (map fst (ma_Lists ?m))" by simp
  note fetched = fetched_lists_authentic [OF this, of "Some (\<lambda>ks. Some (map (\<lambda>_. Some ''x'') ks))"]
  then obtain bodies where "FetchLists (Some (\<lambda>ks. Some (map (\<lambda>_. Some ''x'') ks))) ?m = Inr bodies"
    by (auto simp: body_hash_def)
  with fetched show ?thesis by (auto simp: body_hash_def)
qed

definition demo_desired :: desired_env where
  "demo_desired = \<lparr>de_apply = demo_apply, de_level = (\<lambda>_. None), de_json = (\<lambda>_. Some demo_manifest), de_blobs = None\<rparr>"

theorem handle_spec_witness:
  "\<exists>s'. desired_handle demo_desired [''d''] []
          \<lparr>ds_dirs = first_dirs, ds_store = demo_served, ds_applied = no_applied, ds_level = 0\<rparr> = (False, s') \<and>
        ds_applied s' = applied_set (ma_ConfigHash demo_parsed) 7 ApplyOK [''_x'', ''default''] \<and>
        desired_handle demo_desired [''d''] [] s' = (False, s')"
proof -
  let ?s = "\<lparr>ds_dirs = first_dirs, ds_store = demo_served, ds_applied = no_applied, ds_level = 0\<rparr>"
  obtain again s' where h: "desired_handle demo_desired [''d''] [] ?s = (again, s')"
    by (cases "desired_handle demo_desired [''d''] [] ?s")
  have p: "manifest_Parse (de_level demo_desired) (de_json demo_desired) [] = Inr demo_parsed"
    "FetchLists (de_blobs demo_desired) demo_parsed = Inr Map.empty" "sort (map fst (ma_Profiles demo_parsed)) = [''_x'', ''default'']"
    by (simp_all add: demo_desired_def demo_manifest_Parse FetchLists_def demo_lists)
      (simp add: demo_parsed_def demo_manifest_def)
  have "ds_applied ?s \<noteq> applied_set (ma_ConfigHash demo_parsed) (ma_Rev demo_parsed) ApplyOK (ap_names (ds_applied ?s))"
    by (simp add: no_applied_def applied_set_def)
  moreover have "fst (desired_Apply (de_apply demo_desired) [''d''] demo_parsed Map.empty (ds_dirs ?s, ds_store ?s)) = None"
    using first_Apply by (auto simp: demo_desired_def)
  ultimately show ?thesis using handle_spec [OF h] h by (simp add: p demo_rev)
qed

text \<open>A watcher after one update.\<close>

definition demo_watch :: desired_watch where
  "demo_watch = \<lparr>dw_state = \<lparr>ds_dirs = demo_dirs, ds_store = demo_served, ds_applied = no_applied, ds_level = 0\<rparr>,
     dw_pending = None, dw_armed = False\<rparr>"

lemma demo_watch_reach: "watch_reach safe demo_apply [''d''] demo_watch (watch_update demo_desired [''d''] [] demo_watch)"
  by (rule watch_reach.update [OF watch_reach.here, where os = "ae_os demo_apply"])
    (simp_all add: demo_desired_def undo_works_def demo_apply_def)

end
