(* ===== verification/Config.thy ===== *)
theory Config
  imports GoTime
begin

text \<open>
  The configuration (\<^verbatim>\<open>internal/config/config.go\<close>, \<^verbatim>\<open>file.go\<close>, \<^verbatim>\<open>logship.go\<close>): the file
  \<^verbatim>\<open>inspector.conf\<close> with its directives and its block of Redis addresses, the environment that
  overrides it, and the check of the result.  The process (environment, files, working directory,
  host name), the URL parser, the table of log levels (a shared package) and the letters of Unicode
  beyond ASCII are fields of an argument.
\<close>

record cfg_env =
  ce_LookupEnv :: "string gomap"
  ce_ReadFile :: "string \<Rightarrow> string option"
  ce_IsDir :: "string \<Rightarrow> bool option"
  ce_Abs :: "string \<Rightarrow> string option"
  ce_Hostname :: "string option"
  ce_GOMAXPROCS :: int
  ce_level :: "string \<Rightarrow> int option"
  ce_url :: "string \<Rightarrow> (string \<times> string) option"
  ce_word :: "string \<Rightarrow> bool"

abbreviation Getenv :: "cfg_env \<Rightarrow> string \<Rightarrow> string" where
  "Getenv e name \<equiv> sget (ce_LookupEnv e) name"

subsection \<open>The file\<close>

abbreviation (input) QueueFullDrop :: string where "QueueFullDrop \<equiv> ''drop''"
abbreviation (input) QueueFullWait :: string where "QueueFullWait \<equiv> ''wait''"
abbreviation (input) QueueExpandOff :: string where "QueueExpandOff \<equiv> ''off''"
abbreviation (input) QueueExpandAsk :: string where "QueueExpandAsk \<equiv> ''ask''"
abbreviation (input) InternalFromExchange :: string where "InternalFromExchange \<equiv> ''exchange''"

record queue_file =
  qf_Max :: "int option"
  qf_Full :: string
  qf_Expand :: string
  qf_RedisURL :: string
  qf_RedisInternal :: string

definition no_file :: queue_file where
  "no_file = \<lparr>qf_Max = None, qf_Full = [], qf_Expand = [], qf_RedisURL = [], qf_RedisInternal = []\<rparr>"

datatype conf_err =
  UnexpectedClose | UnknownBlock string | BlockTwice string | MissingSemicolon | EmptyDirective
| NoValue string | BadDirectiveName string | OneValue string | SetTwice string | BadQueueMax string
| BadQueueFull string | BadQueueExpand string | UnknownDirective string | RedisSetTwice string
| UnknownRedisKey string | BadRedisURL string string | BlockNotClosed string

definition confText :: "string \<Rightarrow> string" where
  "confText line =
     TrimSpace (case IndexByte line (CHR ''#'') of Some i \<Rightarrow> take i line | None \<Rightarrow> line)"

definition requireSemicolon :: "string \<Rightarrow> conf_err + string" where
  "requireSemicolon s =
     (if \<not> HasSuffix s '';'' then Inl MissingSemicolon else Inr (TrimSpace (TrimSuffix s '';'')))"

definition isConfName :: "(string \<Rightarrow> bool) \<Rightarrow> string \<Rightarrow> bool" where
  "isConfName word s \<longleftrightarrow>
     s \<noteq> [] \<and> (if list_all ascii s then list_all (\<lambda>r. r = CHR ''_'' \<or> isAlnum r) s else word s)"

definition splitDirective :: "(string \<Rightarrow> bool) \<Rightarrow> string \<Rightarrow> conf_err + (string \<times> string)" where
  "splitDirective word s =
     (let stmt = TrimSpace s
      in if stmt = [] then Inl EmptyDirective
         else case Cut stmt (CHR '' '') of (key, rest, ok) \<Rightarrow>
           if \<not> ok then Inl (NoValue stmt)
           else if \<not> isConfName word key then Inl (BadDirectiveName key)
           else (let v = TrimSpace rest
                 in if v = [] \<or> ContainsAny v [CHR '' '', CHR 0x09] then Inl (OneValue key)
                    else Inr (key, v)))"

definition isRedisURL :: "(string \<Rightarrow> (string \<times> string) option) \<Rightarrow> string \<Rightarrow> bool" where
  "isRedisURL url s =
     (case url s of
        None \<Rightarrow> False
      | Some (scheme, host) \<Rightarrow> host \<noteq> [] \<and> (scheme = ''redis'' \<or> scheme = ''rediss''))"

text \<open>What the loop over the lines carries: the result, the names seen, the open block and its line.\<close>

record conf_state =
  cs_out :: queue_file
  cs_seen :: "string set"
  cs_block :: string
  cs_opened :: nat

definition parseRedisKey :: "cfg_env \<Rightarrow> string \<Rightarrow> conf_state \<Rightarrow> conf_err + conf_state" where
  "parseRedisKey e s cs =
     (case requireSemicolon s of
        Inl x \<Rightarrow> Inl x
      | Inr stmt \<Rightarrow>
          (case splitDirective (ce_word e) stmt of
             Inl x \<Rightarrow> Inl x
           | Inr (key, v) \<Rightarrow>
               (let i = ''redis.'' @ key
                in if i \<in> cs_seen cs then Inl (RedisSetTwice key)
                   else if key \<noteq> ''url'' \<and> key \<noteq> ''internal'' then Inl (UnknownRedisKey key)
                   else if \<not> isRedisURL (ce_url e) v then Inl (BadRedisURL key v)
                   else Inr (cs\<lparr>cs_seen := insert i (cs_seen cs),
                          cs_out := (if key = ''url'' then (cs_out cs)\<lparr>qf_RedisURL := v\<rparr>
                                     else (cs_out cs)\<lparr>qf_RedisInternal := v\<rparr>)\<rparr>))))"

definition set_directive :: "string \<Rightarrow> string \<Rightarrow> queue_file \<Rightarrow> conf_err + queue_file" where
  "set_directive key v f =
     (if key = ''queue_max'' then
        (case Atoi v of
           None \<Rightarrow> Inl (BadQueueMax v)
         | Some n \<Rightarrow> if n < 1 then Inl (BadQueueMax v) else Inr (f\<lparr>qf_Max := Some n\<rparr>))
      else if key = ''queue_full'' then
        if v = QueueFullDrop \<or> v = QueueFullWait then Inr (f\<lparr>qf_Full := v\<rparr>) else Inl (BadQueueFull v)
      else if key = ''queue_expand'' then
        if v = QueueExpandOff \<or> v = QueueExpandAsk then Inr (f\<lparr>qf_Expand := v\<rparr>) else Inl (BadQueueExpand v)
      else Inl (UnknownDirective key))"

definition parse_stmt :: "cfg_env \<Rightarrow> string \<Rightarrow> conf_state \<Rightarrow> conf_err + conf_state" where
  "parse_stmt e s cs =
     (case requireSemicolon s of
        Inl x \<Rightarrow> Inl x
      | Inr stmt \<Rightarrow>
          (case splitDirective (ce_word e) stmt of
             Inl x \<Rightarrow> Inl x
           | Inr (key, v) \<Rightarrow>
               if key \<in> cs_seen cs then Inl (SetTwice key)
               else (case set_directive key v (cs_out cs) of
                       Inl x \<Rightarrow> Inl x
                     | Inr f \<Rightarrow> Inr (cs\<lparr>cs_seen := insert key (cs_seen cs), cs_out := f\<rparr>))))"

text \<open>The body of the loop: the line with its number, then what it does.\<close>

definition conf_line :: "cfg_env \<Rightarrow> nat \<Rightarrow> string \<Rightarrow> conf_state \<Rightarrow> conf_err + conf_state" where
  "conf_line e n line cs =
     (let s = confText line
      in if s = [] then Inr cs
         else if cs_block cs \<noteq> [] then
           if s = ''}'' then Inr (cs\<lparr>cs_block := []\<rparr>) else parseRedisKey e s cs
         else if s = ''}'' then Inl UnexpectedClose
         else case CutSuffix s ''{'' of
           (h, True) \<Rightarrow>
             (let name = TrimSpace h
              in if name \<noteq> ''redis'' then Inl (UnknownBlock name)
                 else if name \<in> cs_seen cs then Inl (BlockTwice name)
                 else Inr (cs\<lparr>cs_seen := insert name (cs_seen cs), cs_block := name, cs_opened := n\<rparr>))
         | (_, False) \<Rightarrow> parse_stmt e s cs)"

fun conf_lines :: "cfg_env \<Rightarrow> nat \<Rightarrow> string list \<Rightarrow> conf_state \<Rightarrow> nat \<times> conf_err + conf_state" where
  "conf_lines e n [] cs = Inr cs"
| "conf_lines e n (l # ls) cs =
     (case conf_line e n l cs of
        Inl x \<Rightarrow> Inl (n, x)
      | Inr cs' \<Rightarrow> conf_lines e (Suc n) ls cs')"

definition conf_start :: conf_state where
  "conf_start = \<lparr>cs_out = no_file, cs_seen = {}, cs_block = [], cs_opened = 0\<rparr>"

text \<open>An error comes with the number of its line.\<close>

definition parseQueueFile :: "cfg_env \<Rightarrow> string \<Rightarrow> nat \<times> conf_err + queue_file" where
  "parseQueueFile e src =
     (case conf_lines e 1 (Split src (CHR 0x0A)) conf_start of
        Inl x \<Rightarrow> Inl x
      | Inr cs \<Rightarrow>
          if cs_block cs \<noteq> [] then Inl (cs_opened cs, BlockNotClosed (cs_block cs)) else Inr (cs_out cs))"

subsection \<open>The environment\<close>

datatype cfg_err =
  ConfUnreadable string | ConfBad string nat conf_err | BadInt string | BadDuration string
| NotPositive string | BadLevel string | SecretUnreadable | SecretShort nat
| NoServers | EmptyName | BadWorkers int | BadDepth int | BadFull string | BadExpand string
| NegativeBudget | NoVersions | NoProfilesDir | NotADirectory string | BadDataDir

definition env :: "cfg_env \<Rightarrow> string \<Rightarrow> string \<Rightarrow> string" where
  "env e name d =
     (case ce_LookupEnv e name of Some v \<Rightarrow> if v \<noteq> [] then v else d | None \<Rightarrow> d)"

text \<open>A value that is there and not blank, trimmed (\<open>confPath\<close>, \<open>exchangeRedis\<close>, \<open>envOverride\<close>).\<close>

definition trimmed_env :: "cfg_env \<Rightarrow> string \<Rightarrow> string option" where
  "trimmed_env e name =
     (case ce_LookupEnv e name of
        Some v \<Rightarrow> if TrimSpace v \<noteq> [] then Some (TrimSpace v) else None
      | None \<Rightarrow> None)"

definition envIntIfSet :: "cfg_env \<Rightarrow> string \<Rightarrow> int \<Rightarrow> cfg_err + int" where
  "envIntIfSet e name d =
     (case ce_LookupEnv e name of
        None \<Rightarrow> Inr d
      | Some raw \<Rightarrow>
          if raw = [] then Inr d
          else (case Atoi (TrimSpace raw) of None \<Rightarrow> Inl (BadInt name) | Some v \<Rightarrow> Inr v))"

definition envInt :: "cfg_env \<Rightarrow> string \<Rightarrow> int \<Rightarrow> cfg_err + int" where
  "envInt e name d = envIntIfSet e name d"

definition splitList :: "string \<Rightarrow> string list" where
  "splitList s = filter (\<lambda>part. part \<noteq> []) (map TrimSpace (Split s (CHR '','')))"

definition envIntList :: "cfg_env \<Rightarrow> string \<Rightarrow> int list \<Rightarrow> cfg_err + int list" where
  "envIntList e name d =
     (case ce_LookupEnv e name of
        None \<Rightarrow> Inr d
      | Some raw \<Rightarrow>
          if raw = [] then Inr d
          else mapE (\<lambda>part. case Atoi part of None \<Rightarrow> Inl (BadInt name) | Some v \<Rightarrow> Inr v) (splitList raw))"

definition envDuration :: "cfg_env \<Rightarrow> string \<Rightarrow> duration \<Rightarrow> cfg_err + duration" where
  "envDuration e name d =
     (case ce_LookupEnv e name of
        None \<Rightarrow> Inr d
      | Some raw \<Rightarrow>
          if raw = [] then Inr d
          else (case ParseDuration (TrimSpace raw) of
                  None \<Rightarrow> Inl (BadDuration name)
                | Some v \<Rightarrow> if v \<le> 0 then Inl (NotPositive name) else Inr v))"

definition parseLevel :: "cfg_env \<Rightarrow> string \<Rightarrow> cfg_err + int" where
  "parseLevel e s = (case ce_level e s of None \<Rightarrow> Inl (BadLevel s) | Some l \<Rightarrow> Inr l)"

definition envOverride :: "cfg_env \<Rightarrow> string \<Rightarrow> string \<Rightarrow> string" where
  "envOverride e name current = (case trimmed_env e name of Some v \<Rightarrow> v | None \<Rightarrow> current)"

definition confPath :: "cfg_env \<Rightarrow> string \<Rightarrow> string" where
  "confPath e name =
     (case trimmed_env e name of
        Some v \<Rightarrow> v
      | None \<Rightarrow>
          (case find (\<lambda>c. ce_IsDir e c = Some False) [''inspector.conf'', ''/app/inspector.conf''] of
             Some c \<Rightarrow> c | None \<Rightarrow> []))"

definition loadQueueFile :: "cfg_env \<Rightarrow> string \<Rightarrow> cfg_err + queue_file" where
  "loadQueueFile e path =
     (case ce_ReadFile e path of
        None \<Rightarrow> Inl (ConfUnreadable path)
      | Some raw \<Rightarrow>
          (case parseQueueFile e raw of Inl (n, x) \<Rightarrow> Inl (ConfBad path n x) | Inr f \<Rightarrow> Inr f))"

definition exchangeRedis :: "cfg_env \<Rightarrow> queue_file \<Rightarrow> string" where
  "exchangeRedis e f = (case trimmed_env e ''REDIS_URL'' of Some v \<Rightarrow> v | None \<Rightarrow> qf_RedisURL f)"

definition internalRedis :: "cfg_env \<Rightarrow> string \<Rightarrow> queue_file \<Rightarrow> string \<Rightarrow> string \<times> string" where
  "internalRedis e path f exchange =
     (case trimmed_env e ''REDIS_INTERNAL_URL'' of
        Some v \<Rightarrow> (v, ''REDIS_INTERNAL_URL'')
      | None \<Rightarrow>
          if qf_RedisInternal f \<noteq> [] then (qf_RedisInternal f, path)
          else if exchange \<noteq> [] then (exchange, InternalFromExchange)
          else ([], []))"

record queue_settings =
  qs_Max :: int
  qs_Full :: string
  qs_Expand :: string

definition applyQueueFile :: "queue_settings \<Rightarrow> queue_file \<Rightarrow> queue_settings" where
  "applyQueueFile q f =
     \<lparr>qs_Max = (case qf_Max f of Some m \<Rightarrow> m | None \<Rightarrow> qs_Max q),
      qs_Full = (if qf_Full f \<noteq> [] then qf_Full f else qs_Full q),
      qs_Expand = (if qf_Expand f \<noteq> [] then qf_Expand f else qs_Expand q)\<rparr>"

subsection \<open>The signing key\<close>

abbreviation (input) SecretMin :: nat where "SecretMin \<equiv> 16"

definition checkSecret :: "string \<Rightarrow> cfg_err + string" where
  "checkSecret key =
     (if length key = 0 then Inr [] else if length key < SecretMin then Inl (SecretShort (length key)) else Inr key)"

definition loadSecret :: "cfg_env \<Rightarrow> cfg_err + string" where
  "loadSecret e =
     (let path = TrimSpace (Getenv e ''WAF_COOKIE_SECRET_FILE'')
      in if path \<noteq> [] then
           (case ce_ReadFile e path of
              None \<Rightarrow> Inl SecretUnreadable
            | Some raw \<Rightarrow> checkSecret (TrimSpace raw))
         else checkSecret (TrimSpace (Getenv e ''WAF_COOKIE_SECRET'')))"

subsection \<open>Loading\<close>

record config =
  cf_Servers :: "string list"
  cf_Subject :: string
  cf_Name :: string
  cf_Queue :: string
  cf_ProfilesDir :: string
  cf_DataDir :: string
  cf_ReloadEvery :: duration
  cf_Workers :: int
  cf_QueueDepth :: int
  cf_QueueFull :: string
  cf_QueueExpand :: string
  cf_ConfPath :: string
  cf_ReserveMS :: int
  cf_MinBudgetMS :: int
  cf_Versions :: "int list"
  cf_LogLevel :: int
  cf_HeartbeatEvery :: duration
  cf_RedisURL :: string
  cf_InternalURL :: string
  cf_InternalFrom :: string
  cf_GeoAddr :: string
  cf_GeoTimeout :: duration
  cf_GeoNegMax :: int
  cf_Secret :: string

definition check_fields :: "config \<Rightarrow> cfg_err option" where
  "check_fields c =
     (if length (cf_Servers c) = 0 then Some NoServers
      else if cf_Subject c = [] \<or> cf_Name c = [] \<or> cf_Queue c = [] then Some EmptyName
      else if cf_Workers c < 1 then Some (BadWorkers (cf_Workers c))
      else if cf_QueueDepth c < 1 then Some (BadDepth (cf_QueueDepth c))
      else if cf_QueueFull c \<noteq> QueueFullDrop \<and> cf_QueueFull c \<noteq> QueueFullWait then Some (BadFull (cf_QueueFull c))
      else if cf_QueueExpand c \<noteq> QueueExpandOff \<and> cf_QueueExpand c \<noteq> QueueExpandAsk
        then Some (BadExpand (cf_QueueExpand c))
      else if cf_ReserveMS c < 0 \<or> cf_MinBudgetMS c < 0 then Some NegativeBudget
      else if length (cf_Versions c) = 0 then Some NoVersions else None)"

definition config_validate :: "cfg_env \<Rightarrow> config \<Rightarrow> cfg_err + config" where
  "config_validate e c =
     (case check_fields c of
        Some x \<Rightarrow> Inl x
      | None \<Rightarrow>
          (case ce_Abs e (cf_ProfilesDir c) of
             None \<Rightarrow> Inl NoProfilesDir
           | Some a \<Rightarrow>
               (case ce_IsDir e a of
                  None \<Rightarrow> Inl NoProfilesDir
                | Some dir \<Rightarrow>
                    if \<not> dir then Inl (NotADirectory a)
                    else (case ce_Abs e (if cf_DataDir c = [] then a @ ''.applied'' else cf_DataDir c) of
                            None \<Rightarrow> Inl BadDataDir
                          | Some d \<Rightarrow> Inr (c\<lparr>cf_ProfilesDir := a, cf_DataDir := d\<rparr>)))))"

text \<open>The first part of \<open>Load\<close>: names and directories; the rest is filled in as it is read.\<close>

definition load_names :: "cfg_env \<Rightarrow> config" where
  "load_names e =
     (let name = env e ''WAF_COOKIE_NAME'' ''cookie''
      in \<lparr>cf_Servers = splitList (env e ''NATS_URL'' ''nats://127.0.0.1:4222''),
          cf_Subject = env e ''WAF_COOKIE_SUBJECT'' ''waf.req.cookie'', cf_Name = name,
          cf_Queue = env e ''WAF_COOKIE_QUEUE'' name,
          cf_ProfilesDir = env e ''WAF_COOKIE_PROFILES'' ''./profiles'',
          cf_DataDir = env e ''WAF_COOKIE_DATA'' [], cf_ReloadEvery = 0, cf_Workers = 0,
          cf_QueueDepth = 0, cf_QueueFull = [], cf_QueueExpand = [], cf_ConfPath = [], cf_ReserveMS = 0,
          cf_MinBudgetMS = 0, cf_Versions = [], cf_LogLevel = 0, cf_HeartbeatEvery = 0, cf_RedisURL = [],
          cf_InternalURL = [], cf_InternalFrom = [], cf_GeoAddr = env e ''WAF_COOKIE_GEO_ADDR'' [],
          cf_GeoTimeout = 0, cf_GeoNegMax = 0, cf_Secret = []\<rparr>)"

definition default_queue :: queue_settings where
  "default_queue = \<lparr>qs_Max = 256, qs_Full = QueueFullDrop, qs_Expand = QueueExpandOff\<rparr>"

text \<open>The configuration file, and the settings it may change.\<close>

definition load_file :: "cfg_env \<Rightarrow> cfg_err + queue_file" where
  "load_file e =
     (let path = confPath e ''WAF_COOKIE_CONF'' in if path = [] then Inr no_file else loadQueueFile e path)"

definition load_queue :: "cfg_env \<Rightarrow> config \<Rightarrow> cfg_err + config" where
  "load_queue e c =
     bindE (load_file e) (\<lambda>f.
       let q = applyQueueFile default_queue f;
           path = confPath e ''WAF_COOKIE_CONF'';
           redis = exchangeRedis e f;
           (internal, src) = internalRedis e path f redis
       in bindE (envIntIfSet e ''WAF_COOKIE_QUEUE_DEPTH'' (qs_Max q)) (\<lambda>depth.
            Inr (c\<lparr>cf_ConfPath := path, cf_RedisURL := redis, cf_InternalURL := internal,
                   cf_InternalFrom := src, cf_QueueDepth := depth,
                   cf_QueueFull := envOverride e ''WAF_COOKIE_QUEUE_FULL'' (qs_Full q),
                   cf_QueueExpand := envOverride e ''WAF_COOKIE_QUEUE_EXPAND'' (qs_Expand q)\<rparr>)))"

definition config_Load :: "cfg_env \<Rightarrow> cfg_err + config" where
  "config_Load e =
     bindE (envInt e ''WAF_COOKIE_WORKERS'' (ce_GOMAXPROCS e)) (\<lambda>workers.
     bindE (load_queue e ((load_names e)\<lparr>cf_Workers := workers\<rparr>)) (\<lambda>c.
     bindE (envInt e ''WAF_COOKIE_RESERVE_MS'' 1) (\<lambda>reserve.
     bindE (envInt e ''WAF_COOKIE_MIN_BUDGET_MS'' 1) (\<lambda>minBudget.
     bindE (envIntList e ''WAF_COOKIE_VERSIONS'' [2]) (\<lambda>versions.
     bindE (parseLevel e (env e ''WAF_COOKIE_LOG'' ''info'')) (\<lambda>level.
     bindE (envDuration e ''WAF_HEARTBEAT_EVERY'' (4 * Second)) (\<lambda>beat.
     bindE (envDuration e ''WAF_COOKIE_RELOAD_EVERY'' Second) (\<lambda>reload.
     bindE (envDuration e ''WAF_COOKIE_GEO_TIMEOUT'' (500 * Millisecond)) (\<lambda>geo.
     bindE (envInt e ''WAF_COOKIE_GEO_NEG_MAX'' 0) (\<lambda>neg.
     bindE (loadSecret e) (\<lambda>secret.
       config_validate e (c\<lparr>cf_ReserveMS := reserve, cf_MinBudgetMS := minBudget, cf_Versions := versions,
         cf_LogLevel := level, cf_HeartbeatEvery := beat, cf_ReloadEvery := reload, cf_GeoTimeout := geo,
         cf_GeoNegMax := neg, cf_Secret := secret\<rparr>))))))))))))"

subsection \<open>Shipping the log\<close>

definition LogShip :: "unicode \<Rightarrow> cfg_env \<Rightarrow> bool" where
  "LogShip u e \<longleftrightarrow> ToLower u (TrimSpace (Getenv e ''WAF_LOG_SHIP'')) \<notin> {''off'', ''0'', ''no'', ''false''}"

definition LogWriter :: "cfg_env \<Rightarrow> string \<Rightarrow> string" where
  "LogWriter e d =
     (let v = TrimSpace (Getenv e ''WAF_LOG_WRITER'')
      in if v \<noteq> [] then v
         else (case ce_Hostname e of Some name \<Rightarrow> if name \<noteq> [] then name else d | None \<Rightarrow> d))"

subsection \<open>The file format\<close>

text \<open>
  Valid settings of a file, and the file that a careful administrator would write for them: one
  directive per line and the addresses in their block.
\<close>

definition plain_value :: "string \<Rightarrow> bool" where
  "plain_value v \<longleftrightarrow> list_all solid v \<and> CHR ''#'' \<notin> set v"

definition valid_file :: "cfg_env \<Rightarrow> queue_file \<Rightarrow> bool" where
  "valid_file e f \<longleftrightarrow>
     (\<forall>m. qf_Max f = Some m \<longrightarrow> 1 \<le> m \<and> in64 m) \<and>
     qf_Full f \<in> {[], QueueFullDrop, QueueFullWait} \<and> qf_Expand f \<in> {[], QueueExpandOff, QueueExpandAsk} \<and>
     (qf_RedisURL f = [] \<or> isRedisURL (ce_url e) (qf_RedisURL f)) \<and>
     (qf_RedisInternal f = [] \<or> isRedisURL (ce_url e) (qf_RedisInternal f))"

definition conf_directive :: "string \<Rightarrow> string \<Rightarrow> string" where
  "conf_directive key v = key @ CHR '' '' # v @ '';''"

definition opt_line :: "string \<Rightarrow> string \<Rightarrow> string list" where
  "opt_line key v = (if v = [] then [] else [conf_directive key v])"

definition max_text :: "queue_file \<Rightarrow> string" where
  "max_text f = (case qf_Max f of None \<Rightarrow> [] | Some m \<Rightarrow> FormatInt m 10)"

definition conf_render_lines :: "queue_file \<Rightarrow> string list" where
  "conf_render_lines f =
     opt_line ''queue_max'' (max_text f) @ opt_line ''queue_full'' (qf_Full f) @
     opt_line ''queue_expand'' (qf_Expand f) @
     ''redis {'' # opt_line ''url'' (qf_RedisURL f) @ opt_line ''internal'' (qf_RedisInternal f) @ [''}'']"

definition conf_render :: "queue_file \<Rightarrow> string" where
  "conf_render f = concat (map (\<lambda>l. l @ [CHR 0x0A]) (conf_render_lines f))"

lemma Split_lines:
  "\<forall>l \<in> set ls. c \<notin> set l \<Longrightarrow> Split (concat (map (\<lambda>l. l @ [c]) ls)) c = ls @ [[]]"
  by (induction ls) (simp_all add: Split_append)

definition conf_key :: "string \<Rightarrow> bool" where
  "conf_key k \<longleftrightarrow> k \<noteq> [] \<and> list_all (\<lambda>c. c = CHR ''_'' \<or> isAlnum c) k"

lemma conf_key_char:
  assumes "c = CHR ''_'' \<or> isAlnum c"
  shows "solid c" "ascii c" "c \<noteq> CHR ''#''" "c \<noteq> CHR '' ''" "c \<noteq> CHR 0x0A"
  using assms by (auto simp: solid_def ascii_def char_class_defs)

lemma conf_key_text:
  assumes "conf_key k"
  shows "list_all solid k" "isConfName word k" "CHR ''#'' \<notin> set k" "CHR '' '' \<notin> set k" "CHR 0x0A \<notin> set k"
  using assms conf_key_char by (force simp: conf_key_def list_all_iff isConfName_def)+

lemma plain_value_text:
  assumes "plain_value v"
  shows "TrimSpace v = v" "CHR '' '' \<notin> set v" "CHR 0x09 \<notin> set v" "CHR 0x0A \<notin> set v"
  using assms TrimSpace_all_solid [of v] by (auto simp: plain_value_def list_all_iff solid_def)

lemma directive_parts:
  assumes "conf_key k" and "plain_value v" and "v \<noteq> []"
  shows "confText (conf_directive k v) = conf_directive k v"
    and "requireSemicolon (conf_directive k v) = Inr (k @ CHR '' '' # v)"
    and "splitDirective word (k @ CHR '' '' # v) = Inr (k, v)"
    and "\<not> HasSuffix (conf_directive k v) ''{''" and "conf_directive k v \<noteq> ''}''"
proof -
  have k: "k \<noteq> []" "solid (hd k)" using assms(1) conf_key_text(1) [OF assms(1)]
    by (auto simp: conf_key_def list_all_iff)
  have v: "solid (last v)" using assms(2,3) by (simp add: plain_value_def list_all_iff)
  have t: "TrimSpace (k @ CHR '' '' # v) = k @ CHR '' '' # v" "TrimSpace (conf_directive k v) = conf_directive k v"
    using k v assms(3) by (auto intro!: TrimSpace_solid simp: conf_directive_def solid_def)
  have "CHR ''#'' \<notin> set (conf_directive k v)"
    using conf_key_text(3) [OF assms(1)] assms(2) by (simp add: conf_directive_def plain_value_def)
  then show "confText (conf_directive k v) = conf_directive k v"
    by (simp add: confText_def IndexByte_def t)
  have s: "conf_directive k v = (k @ CHR '' '' # v) @ '';''" by (simp add: conf_directive_def)
  show "requireSemicolon (conf_directive k v) = Inr (k @ CHR '' '' # v)"
    unfolding requireSemicolon_def s TrimSuffix_append using t HasSuffix_append [of "k @ CHR '' '' # v" "'';''"] by simp
  show "splitDirective word (k @ CHR '' '' # v) = Inr (k, v)"
    using t k conf_key_text [OF assms(1)] plain_value_text [OF assms(2)] assms(3)
    by (simp add: splitDirective_def Let_def ContainsAny_iff)
  show "\<not> HasSuffix (conf_directive k v) ''{''" unfolding s by (simp add: HasSuffix_def suffix_def)
  show "conf_directive k v \<noteq> ''}''" using k by (simp add: conf_directive_def)
qed

lemma conf_line_directive:
  assumes "conf_key k" and "plain_value v" and "v \<noteq> []"
  shows "conf_line e n (conf_directive k v) cs =
    (if cs_block cs \<noteq> [] then parseRedisKey e (conf_directive k v) cs else parse_stmt e (conf_directive k v) cs)"
  using directive_parts(1,4,5) [OF assms] assms(1)
  by (auto simp: conf_line_def CutSuffix_def conf_directive_def conf_key_def)

lemma conf_lines_append:
  "conf_lines e n (xs @ ys) cs =
     (case conf_lines e n xs cs of Inl x \<Rightarrow> Inl x | Inr cs' \<Rightarrow> conf_lines e (n + length xs) ys cs')"
  by (induction xs arbitrary: n cs) (simp_all split: sum.splits)

text \<open>The names a line adds to the ones seen.\<close>

definition seen_with :: "string \<Rightarrow> string \<Rightarrow> string set \<Rightarrow> string set" where
  "seen_with k v seen = (if v = [] then seen else insert k seen)"

lemma seen_with_iff [simp]: "x \<in> seen_with k v seen \<longleftrightarrow> x \<in> seen \<or> v \<noteq> [] \<and> x = k"
  by (auto simp: seen_with_def)

lemma conf_lines_opt:
  assumes "conf_key k" and "plain_value v" and "cs_block cs = []" and "k \<notin> cs_seen cs"
    and "v \<noteq> [] \<Longrightarrow> set_directive k v (cs_out cs) = Inr f" and "v = [] \<Longrightarrow> f = cs_out cs"
  shows "conf_lines e n (opt_line k v) cs = Inr (cs\<lparr>cs_out := f, cs_seen := seen_with k v (cs_seen cs)\<rparr>)"
proof (cases "v = []")
  case False
  with assms directive_parts [OF assms(1,2)] conf_line_directive [OF assms(1,2)] show ?thesis
    by (simp add: parse_stmt_def opt_line_def seen_with_def)
qed (use assms(6) in \<open>simp add: opt_line_def seen_with_def\<close>)

lemma conf_lines_redis:
  assumes "conf_key k" and "plain_value v" and "cs_block cs \<noteq> []" and "''redis.'' @ k \<notin> cs_seen cs"
    and "k = ''url'' \<or> k = ''internal''" and "v = [] \<or> isRedisURL (ce_url e) v"
    and "v \<noteq> [] \<Longrightarrow> f = (if k = ''url'' then (cs_out cs)\<lparr>qf_RedisURL := v\<rparr> else (cs_out cs)\<lparr>qf_RedisInternal := v\<rparr>)"
    and "v = [] \<Longrightarrow> f = cs_out cs"
  shows "conf_lines e n (opt_line k v) cs = Inr (cs\<lparr>cs_out := f, cs_seen := seen_with (''redis.'' @ k) v (cs_seen cs)\<rparr>)"
proof (cases "v = []")
  case False
  with assms directive_parts [OF assms(1,2)] conf_line_directive [OF assms(1,2)] show ?thesis
    by (auto simp: parseRedisKey_def opt_line_def seen_with_def Let_def)
qed (use assms(8) in \<open>simp add: opt_line_def seen_with_def\<close>)

lemma TrimSpace_trailing:
  assumes "s \<noteq> []" and "solid (hd s)" and "solid (last s)"
  shows "TrimSpace (s @ '' '') = s"
proof -
  have "strip space_runes (s @ '' '') = s @ '' ''"
    using assms by (intro strip_id unspaced_solid) simp
  moreover have "strip (map rev space_runes) (CHR '' '' # rev s) = strip (map rev space_runes) (rev s)"
  proof -
    have "find (\<lambda>p. p \<noteq> [] \<and> prefix p (CHR '' '' # rev s)) (map rev space_runes) = Some '' ''"
      by (simp add: space_runes_def char_of_eq_iff)
    then show ?thesis by (subst strip.simps) simp
  qed
  moreover have "strip (map rev space_runes) (rev s) = rev s"
    using assms by (intro strip_id unspaced_solid_rev) simp
  ultimately show ?thesis by (simp add: TrimSpace_def)
qed

lemma redis_open:
  assumes "cs_block cs = []" and "''redis'' \<notin> cs_seen cs"
  shows "conf_line e n ''redis {'' cs = Inr (cs\<lparr>cs_seen := insert ''redis'' (cs_seen cs), cs_block := ''redis'', cs_opened := n\<rparr>)"
proof -
  have t: "TrimSpace ''redis {'' = ''redis {''" "TrimSpace ''redis '' = ''redis''"
    using TrimSpace_trailing [of "''redis''"] by (simp_all add: TrimSpace_solid solid_def)
  have "CutSuffix ''redis {'' ''{'' = (''redis '', True)"
    using TrimSuffix_append [of "''redis ''" "''{''"] HasSuffix_append [of "''redis ''" "''{''"] by (simp add: CutSuffix_def)
  with t assms show ?thesis by (simp add: conf_line_def confText_def IndexByte_def Let_def)
qed

lemma redis_close: "cs_block cs \<noteq> [] \<Longrightarrow> conf_line e n ''}'' cs = Inr (cs\<lparr>cs_block := []\<rparr>)"
  by (simp add: conf_line_def confText_def IndexByte_def TrimSpace_all_solid solid_def)

lemma conf_line_blank [simp]: "conf_line e n [] cs = Inr cs"
  by (simp add: conf_line_def confText_def IndexByte_def)

lemma plain_number: "1 \<le> m \<Longrightarrow> plain_value (FormatInt m 10) \<and> FormatInt m 10 \<noteq> []"
  using nat_digits_base36 [of 10 "nat m"]
  by (fastforce simp: FormatInt_def plain_value_def list_all_iff base36_def solid_def char_class_defs)

lemma conf_keys:
  "conf_key ''queue_max''" "conf_key ''queue_full''" "conf_key ''queue_expand''" "conf_key ''url''" "conf_key ''internal''"
  by (simp_all add: conf_key_def char_class_defs)

lemma valid_file_plain:
  assumes "valid_file e f"
  shows "plain_value (max_text f)" "plain_value (qf_Full f)" "plain_value (qf_Expand f)"
  using assms plain_number by (auto simp: valid_file_def max_text_def plain_value_def solid_def split: option.splits)

lemma conf_render_split:
  assumes "valid_file e f" and "plain_value (qf_RedisURL f)" and "plain_value (qf_RedisInternal f)"
  shows "Split (conf_render f) (CHR 0x0A) = conf_render_lines f @ [[]]"
proof -
  have "CHR 0x0A \<notin> set l" if "l \<in> set (opt_line k v)" "conf_key k" "plain_value v" for l k v
    using that conf_key_text(5) plain_value_text(4) by (auto simp: opt_line_def conf_directive_def split: if_splits)
  then have "\<forall>l \<in> set (conf_render_lines f). CHR 0x0A \<notin> set l"
    using conf_keys valid_file_plain [OF assms(1)] assms(2,3) by (auto simp: conf_render_lines_def)
  then show ?thesis by (simp add: conf_render_def Split_lines)
qed

lemma max_step:
  assumes "valid_file e f"
  shows "max_text f = [] \<Longrightarrow> qf_Max f = None"
    and "max_text f \<noteq> [] \<Longrightarrow> set_directive ''queue_max'' (max_text f) no_file = Inr (no_file\<lparr>qf_Max := qf_Max f\<rparr>)"
  using assms plain_number ParseInt_FormatInt [of _ 10]
  by (auto simp: valid_file_def max_text_def set_directive_def Atoi_def split: option.splits)

lemma queue_lines:
  assumes "valid_file e f"
  shows "\<exists>seen. conf_lines e n (opt_line ''queue_max'' (max_text f) @ opt_line ''queue_full'' (qf_Full f) @
        opt_line ''queue_expand'' (qf_Expand f)) conf_start =
      Inr (conf_start\<lparr>cs_out := f\<lparr>qf_RedisURL := [], qf_RedisInternal := []\<rparr>, cs_seen := seen\<rparr>) \<and>
    seen \<subseteq> {''queue_max'', ''queue_full'', ''queue_expand''}"
proof -
  note valid = assms [unfolded valid_file_def] and vals = valid_file_plain [OF assms]
  define c1 where "c1 = conf_start\<lparr>cs_out := no_file\<lparr>qf_Max := qf_Max f\<rparr>,
    cs_seen := seen_with ''queue_max'' (max_text f) (cs_seen conf_start)\<rparr>"
  define c2 where "c2 = c1\<lparr>cs_out := (cs_out c1)\<lparr>qf_Full := qf_Full f\<rparr>,
    cs_seen := seen_with ''queue_full'' (qf_Full f) (cs_seen c1)\<rparr>"
  define c3 where "c3 = c2\<lparr>cs_out := (cs_out c2)\<lparr>qf_Expand := qf_Expand f\<rparr>,
    cs_seen := seen_with ''queue_expand'' (qf_Expand f) (cs_seen c2)\<rparr>"
  note c_defs = conf_start_def no_file_def c1_def c2_def c3_def
  have 1: "conf_lines e n (opt_line ''queue_max'' (max_text f)) conf_start = Inr c1" for n
    unfolding c1_def using conf_keys(1) vals(1)
    by (rule conf_lines_opt) (use max_step [OF assms] in \<open>auto simp: conf_start_def no_file_def\<close>)
  have 2: "conf_lines e n (opt_line ''queue_full'' (qf_Full f)) c1 = Inr c2" for n
    unfolding c2_def using conf_keys(2) vals(2)
    by (rule conf_lines_opt) (use valid in \<open>auto simp: c_defs set_directive_def\<close>)
  have 3: "conf_lines e n (opt_line ''queue_expand'' (qf_Expand f)) c2 = Inr c3" for n
    unfolding c3_def using conf_keys(3) vals(3)
    by (rule conf_lines_opt) (use valid in \<open>auto simp: c_defs set_directive_def\<close>)
  have "c3 = conf_start\<lparr>cs_out := f\<lparr>qf_RedisURL := [], qf_RedisInternal := []\<rparr>, cs_seen := cs_seen c3\<rparr>"
    by (simp add: c_defs)
  moreover have "cs_seen c3 \<subseteq> {''queue_max'', ''queue_full'', ''queue_expand''}"
    by (auto simp: c_defs seen_with_def)
  ultimately show ?thesis by (auto simp: conf_lines_append 1 2 3)
qed

lemma redis_lines:
  assumes "valid_file e f" and "plain_value (qf_RedisURL f)" and "plain_value (qf_RedisInternal f)"
    and "cs_block cs = ''redis''" and "''redis.url'' \<notin> cs_seen cs" and "''redis.internal'' \<notin> cs_seen cs"
    and "cs_out cs = f\<lparr>qf_RedisURL := [], qf_RedisInternal := []\<rparr>"
  shows "\<exists>seen. conf_lines e n (opt_line ''url'' (qf_RedisURL f) @ opt_line ''internal'' (qf_RedisInternal f)) cs =
    Inr (cs\<lparr>cs_out := f, cs_seen := seen\<rparr>)"
proof -
  note valid = assms(1) [unfolded valid_file_def]
  define c1 where "c1 = cs\<lparr>cs_out := (cs_out cs)\<lparr>qf_RedisURL := qf_RedisURL f\<rparr>,
    cs_seen := seen_with ''redis.url'' (qf_RedisURL f) (cs_seen cs)\<rparr>"
  define c2 where "c2 = c1\<lparr>cs_out := (cs_out c1)\<lparr>qf_RedisInternal := qf_RedisInternal f\<rparr>,
    cs_seen := seen_with ''redis.internal'' (qf_RedisInternal f) (cs_seen c1)\<rparr>"
  have 1: "conf_lines e n (opt_line ''url'' (qf_RedisURL f)) cs = Inr c1" for n
    unfolding c1_def using conf_lines_redis [OF conf_keys(4) assms(2), of cs] valid assms by simp
  have 2: "conf_lines e n (opt_line ''internal'' (qf_RedisInternal f)) c1 = Inr c2" for n
    unfolding c2_def using conf_lines_redis [OF conf_keys(5) assms(3), of c1] valid assms by (simp add: c1_def)
  have "c2 = cs\<lparr>cs_out := f, cs_seen := cs_seen c2\<rparr>" using assms(7) by (simp add: c1_def c2_def)
  then show ?thesis by (auto simp: conf_lines_append 1 2)
qed

lemma conf_render_parsed:
  assumes "valid_file e f" and "plain_value (qf_RedisURL f)" and "plain_value (qf_RedisInternal f)"
  shows "parseQueueFile e (conf_render f) = Inr f"
proof -
  let ?q = "opt_line ''queue_max'' (max_text f) @ opt_line ''queue_full'' (qf_Full f) @ opt_line ''queue_expand'' (qf_Expand f)"
  let ?r = "opt_line ''url'' (qf_RedisURL f) @ opt_line ''internal'' (qf_RedisInternal f)"
  obtain seen c1 where q: "conf_lines e 1 ?q conf_start = Inr c1"
    and c1: "c1 = conf_start\<lparr>cs_out := f\<lparr>qf_RedisURL := [], qf_RedisInternal := []\<rparr>, cs_seen := seen\<rparr>"
      "seen \<subseteq> {''queue_max'', ''queue_full'', ''queue_expand''}"
    using queue_lines [OF assms(1)] by blast
  define c2 where "c2 = c1\<lparr>cs_seen := insert ''redis'' (cs_seen c1), cs_block := ''redis'', cs_opened := 1 + length ?q\<rparr>"
  have o: "conf_line e (1 + length ?q) ''redis {'' c1 = Inr c2"
    unfolding c2_def by (rule redis_open) (use c1 in \<open>auto simp: conf_start_def\<close>)
  obtain seen' where r: "conf_lines e (Suc (1 + length ?q)) ?r c2 = Inr (c2\<lparr>cs_out := f, cs_seen := seen'\<rparr>)"
    using redis_lines [OF assms, of c2] c1 by (auto simp: c2_def)
  have lines: "conf_render_lines f @ [[]] = ?q @ ''redis {'' # ?r @ [''}'', []]" by (simp add: conf_render_lines_def)
  have "conf_lines e 1 (conf_render_lines f @ [[]]) conf_start = conf_lines e (Suc (1 + length ?q)) (?r @ [''}'', []]) c2"
    unfolding lines by (simp only: conf_lines_append [of _ _ ?q] q sum.case conf_lines.simps o)
  also have "\<dots> = Inr (c2\<lparr>cs_out := f, cs_seen := seen', cs_block := []\<rparr>)"
    by (simp only: conf_lines_append [of _ _ ?r] r sum.case) (simp add: redis_close c2_def)
  finally show ?thesis by (simp add: parseQueueFile_def conf_render_split [OF assms])
qed

text \<open>
  The format of the configuration file loses nothing: valid settings written one directive per
  line, with the addresses in their block, are read back as they were.
\<close>

theorem conf_roundtrip:
  assumes "valid_file e f" and "plain_value (qf_RedisURL f)" and "plain_value (qf_RedisInternal f)"
  shows "parseQueueFile e (conf_render f) = Inr f"
  using assms by (rule conf_render_parsed)

subsection \<open>What loads is valid\<close>

lemma set_directive_Inr:
  assumes "set_directive k v f = Inr f'"
  shows "(\<exists>n. 1 \<le> n \<and> in64 n \<and> f' = f\<lparr>qf_Max := Some n\<rparr>) \<or>
    v \<in> {QueueFullDrop, QueueFullWait} \<and> f' = f\<lparr>qf_Full := v\<rparr> \<or>
    v \<in> {QueueExpandOff, QueueExpandAsk} \<and> f' = f\<lparr>qf_Expand := v\<rparr>"
proof (cases "k = ''queue_max''")
  case True
  with assms obtain n where "Atoi v = Some n" "\<not> n < 1" "f' = f\<lparr>qf_Max := Some n\<rparr>"
    by (auto simp: set_directive_def)
  then have "1 \<le> n \<and> in64 n \<and> f' = f\<lparr>qf_Max := Some n\<rparr>"
    using ParseInt_in64 [of v 10 n] by (simp add: Atoi_def)
  then show ?thesis by blast
next
  case False
  with assms have "(v = QueueFullDrop \<or> v = QueueFullWait) \<and> f' = f\<lparr>qf_Full := v\<rparr> \<or>
      (v = QueueExpandOff \<or> v = QueueExpandAsk) \<and> f' = f\<lparr>qf_Expand := v\<rparr>"
    unfolding set_directive_def by (simp only: if_False split: if_splits) simp_all
  then show ?thesis by simp
qed

lemma set_directive_valid: "set_directive k v f = Inr f' \<Longrightarrow> valid_file e f \<Longrightarrow> valid_file e f'"
  by (drule set_directive_Inr, elim disjE exE conjE) (simp_all add: valid_file_def)

lemma conf_line_valid:
  assumes "conf_line e n l cs = Inr cs'" and "valid_file e (cs_out cs)"
  shows "valid_file e (cs_out cs')"
proof -
  have st: "valid_file e (cs_out cs')" if s: "parse_stmt e s cs = Inr cs'" for s
  proof -
    from s obtain k v f where "set_directive k v (cs_out cs) = Inr f" "cs_out cs' = f"
      by (auto simp: parse_stmt_def split: if_splits)
    with assms(2) show ?thesis using set_directive_valid by simp
  qed
  have rk: "valid_file e (cs_out cs')" if s: "parseRedisKey e s cs = Inr cs'" for s
  proof -
    from s obtain k v where "isRedisURL (ce_url e) v"
      "cs_out cs' = (if k = ''url'' then (cs_out cs)\<lparr>qf_RedisURL := v\<rparr> else (cs_out cs)\<lparr>qf_RedisInternal := v\<rparr>)"
      unfolding parseRedisKey_def Let_def by fastforce
    with assms(2) show ?thesis by (simp add: valid_file_def split: if_splits)
  qed
  from assms(1) consider "cs' = cs" | "cs_out cs' = cs_out cs" | "parseRedisKey e (confText l) cs = Inr cs'"
    | "parse_stmt e (confText l) cs = Inr cs'"
    by (cases "CutSuffix (confText l) ''{''") (auto simp: conf_line_def Let_def split: if_splits bool.splits)
  then show ?thesis using st rk assms(2) by cases simp_all
qed

lemma conf_lines_valid:
  "conf_lines e n ls cs = Inr cs' \<Longrightarrow> valid_file e (cs_out cs) \<Longrightarrow> valid_file e (cs_out cs')"
  by (induction ls arbitrary: n cs) (auto split: sum.splits dest: conf_line_valid)

lemma valid_no_file: "valid_file e no_file"
  by (simp add: valid_file_def no_file_def)

lemma parseQueueFile_valid: "parseQueueFile e src = Inr f \<Longrightarrow> valid_file e f"
  using conf_lines_valid [of e 1 _ conf_start] valid_no_file
  by (auto simp: parseQueueFile_def conf_start_def split: if_splits sum.splits)

lemma load_file_valid:
  assumes "load_file e = Inr f"
  shows "valid_file e f" "confPath e ''WAF_COOKIE_CONF'' = [] \<Longrightarrow> f = no_file"
proof -
  show "confPath e ''WAF_COOKIE_CONF'' = [] \<Longrightarrow> f = no_file" using assms by (simp add: load_file_def)
  show "valid_file e f"
  proof (cases "confPath e ''WAF_COOKIE_CONF'' = []")
    case False
    with assms obtain raw where "(case parseQueueFile e raw of Inl (n, x) \<Rightarrow>
        Inl (ConfBad (confPath e ''WAF_COOKIE_CONF'') n x) | Inr f \<Rightarrow> Inr f) = Inr f"
      by (auto simp: load_file_def loadQueueFile_def Let_def)
    then have "parseQueueFile e raw = Inr f" by (cases "parseQueueFile e raw") (auto split: prod.splits)
    then show ?thesis by (rule parseQueueFile_valid)
  qed (use assms valid_no_file in \<open>simp add: load_file_def\<close>)
qed

definition valid_config :: "cfg_env \<Rightarrow> config \<Rightarrow> bool" where
  "valid_config e c \<longleftrightarrow>
     cf_Servers c \<noteq> [] \<and> [] \<notin> set (cf_Servers c) \<and> cf_Subject c \<noteq> [] \<and> cf_Name c \<noteq> [] \<and> cf_Queue c \<noteq> [] \<and>
     1 \<le> cf_Workers c \<and> 1 \<le> cf_QueueDepth c \<and> cf_QueueFull c \<in> {QueueFullDrop, QueueFullWait} \<and>
     cf_QueueExpand c \<in> {QueueExpandOff, QueueExpandAsk} \<and> 0 \<le> cf_ReserveMS c \<and> 0 \<le> cf_MinBudgetMS c \<and>
     cf_Versions c \<noteq> [] \<and> 0 < cf_HeartbeatEvery c \<and> 0 < cf_ReloadEvery c \<and> 0 < cf_GeoTimeout c \<and>
     (cf_Secret c = [] \<or> SecretMin \<le> length (cf_Secret c)) \<and> TrimSpace (cf_Secret c) = cf_Secret c \<and>
     ce_IsDir e (cf_ProfilesDir c) = Some True \<and>
     (cf_RedisURL c \<noteq> [] \<longrightarrow> cf_InternalURL c \<noteq> []) \<and> (cf_InternalURL c = [] \<longleftrightarrow> cf_InternalFrom c = [])"

lemma loadSecret_Inr:
  "loadSecret e = Inr k \<Longrightarrow> (k = [] \<or> 16 \<le> length k) \<and> TrimSpace k = k"
  by (auto simp: loadSecret_def checkSecret_def Let_def split: if_splits option.splits)

lemma envDuration_Inr: "envDuration e name d = Inr v \<Longrightarrow> 0 < d \<Longrightarrow> 0 < v"
  by (auto simp: envDuration_def split: if_splits option.splits)

lemma trimmed_env_Some: "trimmed_env e name = Some v \<Longrightarrow> v \<noteq> []"
  by (auto simp: trimmed_env_def split: option.splits if_splits)

lemma config_validate_Inr:
  assumes "config_validate e c = Inr c'"
  shows "\<exists>a d. c' = c\<lparr>cf_ProfilesDir := a, cf_DataDir := d\<rparr> \<and> ce_IsDir e a = Some True \<and> check_fields c = None"
  using assms by (auto simp: config_validate_def split: option.splits if_splits)

lemma check_fields_None:
  "check_fields c = None \<longleftrightarrow> cf_Servers c \<noteq> [] \<and> cf_Subject c \<noteq> [] \<and> cf_Name c \<noteq> [] \<and> cf_Queue c \<noteq> [] \<and>
     1 \<le> cf_Workers c \<and> 1 \<le> cf_QueueDepth c \<and> cf_QueueFull c \<in> {QueueFullDrop, QueueFullWait} \<and>
     cf_QueueExpand c \<in> {QueueExpandOff, QueueExpandAsk} \<and> 0 \<le> cf_ReserveMS c \<and> 0 \<le> cf_MinBudgetMS c \<and>
     cf_Versions c \<noteq> []"
  by (simp add: check_fields_def not_less)

lemma load_queue_Inr:
  assumes "load_queue e c = Inr c'"
  shows "cf_Servers c' = cf_Servers c \<and> (cf_RedisURL c' \<noteq> [] \<longrightarrow> cf_InternalURL c' \<noteq> []) \<and>
    (cf_InternalURL c' = [] \<longleftrightarrow> cf_InternalFrom c' = [])"
proof -
  obtain f where f: "load_file e = Inr f" using assms by (auto simp: load_queue_def bindE_Inr)
  have c': "cf_Servers c' = cf_Servers c" "cf_RedisURL c' = exchangeRedis e f"
    "(cf_InternalURL c', cf_InternalFrom c') = internalRedis e (confPath e ''WAF_COOKIE_CONF'') f (exchangeRedis e f)"
    using assms f by (cases "internalRedis e (confPath e ''WAF_COOKIE_CONF'') f (exchangeRedis e f)",
      auto simp: load_queue_def bindE_Inr Let_def)+
  from load_file_valid(2) [OF f] have "confPath e ''WAF_COOKIE_CONF'' = [] \<Longrightarrow> qf_RedisInternal f = []"
    by (simp add: no_file_def)
  with c' trimmed_env_Some show ?thesis
    by (auto simp: internalRedis_def split: option.splits if_splits)
qed

lemma config_Load_Inr:
  assumes "config_Load e = Inr c"
  shows "valid_config e c"
proof -
  from assms obtain c0 w c1 where q: "load_queue e ((load_names e)\<lparr>cf_Workers := w\<rparr>) = Inr c1"
    and v: "config_validate e c0 = Inr c"
    and s: "loadSecret e = Inr (cf_Secret c0)"
    and d: "envDuration e ''WAF_HEARTBEAT_EVERY'' (4 * Second) = Inr (cf_HeartbeatEvery c0)"
      "envDuration e ''WAF_COOKIE_RELOAD_EVERY'' Second = Inr (cf_ReloadEvery c0)"
      "envDuration e ''WAF_COOKIE_GEO_TIMEOUT'' (500 * Millisecond) = Inr (cf_GeoTimeout c0)"
    and c0: "cf_Servers c0 = cf_Servers c1" "cf_RedisURL c0 = cf_RedisURL c1"
      "cf_InternalURL c0 = cf_InternalURL c1" "cf_InternalFrom c0 = cf_InternalFrom c1"
    unfolding config_Load_def bindE_Inr by fastforce
  have pos: "0 < cf_HeartbeatEvery c0" "0 < cf_ReloadEvery c0" "0 < cf_GeoTimeout c0"
    using d envDuration_Inr by (auto simp: Second_def Millisecond_def)
  have "[] \<notin> set (cf_Servers c1)"
    using load_queue_Inr [OF q] by (auto simp: load_names_def splitList_def Let_def)
  moreover obtain a d where c: "c = c0\<lparr>cf_ProfilesDir := a, cf_DataDir := d\<rparr>" "ce_IsDir e a = Some True"
      "check_fields c0 = None"
    using config_validate_Inr [OF v] by blast
  ultimately show ?thesis
    using check_fields_None [of c0] load_queue_Inr [OF q] loadSecret_Inr [OF s] pos c0
    by (simp add: valid_config_def c) blast
qed

text \<open>
  A configuration that loads is usable: there is a server and every name is set, the numbers
  and intervals are in range, the queue has a known mode, the directory of profiles is a directory,
  and the signing key is absent or has at least 16 bytes.
\<close>

theorem config_Load_valid:
  assumes "config_Load e = Inr c"
  shows "valid_config e c"
  using assms by (rule config_Load_Inr)

subsection \<open>A process\<close>

text \<open>No configuration file, a signing key in the environment, and everything else left to its default.\<close>

definition demo_process :: cfg_env where
  "demo_process = \<lparr>ce_LookupEnv = [''WAF_COOKIE_SECRET'' \<mapsto> ''0123456789abcdef''], ce_ReadFile = (\<lambda>_. None),
     ce_IsDir = [''/srv/profiles'' \<mapsto> True], ce_Abs = (\<lambda>p. Some ''/srv/profiles''), ce_Hostname = None,
     ce_GOMAXPROCS = 4, ce_level = (\<lambda>_. Some 0), ce_url = (\<lambda>_. Some (''redis'', ''cache'')), ce_word = (\<lambda>_. False)\<rparr>"

lemma demo_fields: "ce_LookupEnv demo_process = [''WAF_COOKIE_SECRET'' \<mapsto> ''0123456789abcdef'']"
  "ce_GOMAXPROCS demo_process = 4" "ce_level demo_process = (\<lambda>_. Some 0)"
  "ce_Abs demo_process = (\<lambda>p. Some ''/srv/profiles'')" "ce_IsDir demo_process = [''/srv/profiles'' \<mapsto> True]"
  by (simp_all add: demo_process_def)

lemma demo_secret: "loadSecret demo_process = Inr ''0123456789abcdef''"
proof -
  have "TrimSpace ''0123456789abcdef'' = ''0123456789abcdef''"
    by (rule TrimSpace_all_solid) (simp add: solid_def)
  then show ?thesis by (simp add: loadSecret_def checkSecret_def demo_process_def)
qed

lemma demo_queue: "load_queue demo_process c = Inr (c\<lparr>cf_QueueDepth := 256, cf_QueueFull := QueueFullDrop,
    cf_QueueExpand := QueueExpandOff, cf_ConfPath := [], cf_RedisURL := [], cf_InternalURL := [], cf_InternalFrom := []\<rparr>)"
  by (simp add: load_queue_def load_file_def confPath_def trimmed_env_def demo_process_def no_file_def
      applyQueueFile_def default_queue_def exchangeRedis_def internalRedis_def envIntIfSet_def envOverride_def)

lemma demo_servers: "splitList ''nats://127.0.0.1:4222'' = [''nats://127.0.0.1:4222'']"
proof -
  have "Split ''nats://127.0.0.1:4222'' (CHR '','') = [''nats://127.0.0.1:4222'']" by (rule Split_absent) simp
  moreover have "TrimSpace ''nats://127.0.0.1:4222'' = ''nats://127.0.0.1:4222''"
    by (rule TrimSpace_all_solid) (simp add: solid_def)
  ultimately show ?thesis by (simp add: splitList_def)
qed

lemma demo_loads: "\<exists>c. config_Load demo_process = Inr c \<and> cf_Secret c = ''0123456789abcdef'' \<and> cf_QueueDepth c = 256"
  by (simp add: config_Load_def demo_secret demo_queue envInt_def envIntIfSet_def envIntList_def envDuration_def
      parseLevel_def load_names_def env_def demo_servers config_validate_def check_fields_def demo_fields Let_def)

theorem config_Load_valid_witness:
  "\<exists>c. config_Load demo_process = Inr c \<and> valid_config demo_process c \<and> cf_Secret c = ''0123456789abcdef''"
  using demo_loads config_Load_valid by blast

definition demo_file :: queue_file where
  "demo_file = \<lparr>qf_Max = Some 512, qf_Full = QueueFullWait, qf_Expand = [],
     qf_RedisURL = ''redis://cache:6379'', qf_RedisInternal = []\<rparr>"

theorem conf_roundtrip_witness: "parseQueueFile demo_process (conf_render demo_file) = Inr demo_file"
  by (rule conf_roundtrip)
    (simp_all add: valid_file_def demo_file_def demo_process_def isRedisURL_def in64_def plain_value_def solid_def)

end
