(* ===== verification/Service.thy ===== *)
theory Service
  imports Keeper AuditSink Desired Config
begin

text \<open>
  The program put together (\<^verbatim>\<open>cmd/inspector/main.go\<close>): the queue and the handler made from a
  configuration, the lists that a load of profiles asks the mirror to follow, the heartbeat, and
  the request that the probe (\<^verbatim>\<open>cmd/probe/main.go\<close>) sends to a running inspector.
\<close>

subsection \<open>Wiring\<close>

definition run_pool :: "config \<Rightarrow> pool" where
  "run_pool c = pool_New (cf_QueueDepth c) (cf_ReserveMS c) (cf_MinBudgetMS c) (cf_QueueFull c)"

text \<open>The handler, with the mirror as it is at a time and the rest of what it calls.\<close>

definition run_handler :: "config \<Rightarrow> source_env \<Rightarrow> geo_ops \<Rightarrow> (reply \<Rightarrow> string) \<Rightarrow> mirror \<Rightarrow> gotime \<Rightarrow> handler" where
  "run_handler c en geo json m now =
     \<lparr>hd_name = cf_Name c, hd_versions = cf_Versions c, hd_secret = cf_Secret c, hd_env = en,
      hd_sets = Some (mirror_Contains m now), hd_lists = True, hd_geo = geo, hd_json = json\<rparr>"

text \<open>The callback of a load; subscriptions may fail and take their time.\<close>

definition on_load :: "(string \<Rightarrow> bool) \<Rightarrow> (string \<Rightarrow> gotime) \<Rightarrow> (string \<times> profile) list \<Rightarrow> mirror \<Rightarrow> mirror" where
  "on_load subs now s m = foldl (\<lambda>m n. Ensure (subs n) (now n) n m) m (snapshot_Datasets s)"

subsection \<open>The heartbeat\<close>

record heartbeat =
  hb_Workers :: int
  hb_QueueDepth :: int
  hb_Queued :: nat
  hb_Accepted :: nat
  hb_Shed :: nat
  hb_Expired :: nat
  hb_ConfigHash :: string
  hb_Rev :: int
  hb_Apply :: string
  hb_Profiles :: "string list"

text \<open>\<open>Snapshot\<close> of what was applied; the pointer is nil when the desired state is not watched.\<close>

definition applied_Snapshot :: "applied_state option \<Rightarrow> applied_state" where
  "applied_Snapshot oa = (case oa of None \<Rightarrow> no_applied | Some a \<Rightarrow> a)"

abbreviation (input) pool_Queued :: "pool \<Rightarrow> nat" where
  "pool_Queued p \<equiv> length (pl_q p)"

definition beat :: "config \<Rightarrow> pool \<Rightarrow> applied_state option \<Rightarrow> store_state \<Rightarrow> heartbeat" where
  "beat c p oa st =
     (let a = applied_Snapshot oa;
          msg = \<lparr>hb_Workers = cf_Workers c, hb_QueueDepth = cf_QueueDepth c, hb_Queued = pool_Queued p,
                 hb_Accepted = pl_Accepted p, hb_Shed = pl_Shed p, hb_Expired = pl_Expired p,
                 hb_ConfigHash = [], hb_Rev = 0, hb_Apply = [], hb_Profiles = []\<rparr>
      in if ap_apply a \<noteq> []
         then msg\<lparr>hb_ConfigHash := ap_hash a, hb_Rev := ap_rev a, hb_Apply := ap_apply a, hb_Profiles := ap_names a\<rparr>
         else msg\<lparr>hb_Profiles := Names (st_current st)\<rparr>)"

subsection \<open>The probe\<close>

text \<open>\<^verbatim>\<open>%016x\<close> of a signed number.\<close>

definition hex16 :: "int \<Rightarrow> string" where
  "hex16 n =
     (let d = nat_digits 16 (nat \<bar>n\<bar>)
      in if n < 0 then CHR ''-'' # replicate (15 - length d) (CHR ''0'') @ d
         else replicate (16 - length d) (CHR ''0'') @ d)"

definition probe_request :: "string \<Rightarrow> string \<Rightarrow> string \<Rightarrow> string \<Rightarrow> string \<Rightarrow> int \<Rightarrow> duration \<Rightarrow> int \<Rightarrow> request" where
  "probe_request name prof uri method phase status timeout nanos =
     (case Cut uri (CHR ''?'') of (path, args, _) \<Rightarrow>
        \<lparr>rq_V = Version, rq_RID = hex16 nanos, rq_Ray = [], rq_Phase = phase, rq_Wave = 0, rq_Inspector = name,
         rq_DeadlineMS = quot timeout Millisecond, rq_AuditSubject = None, rq_Node = ''probe'',
         rq_Conn = \<lparr>cn_ClientIP = ''127.0.0.1'', cn_ClientPort = 12345, cn_ServerIP = ''127.0.0.1'',
                    cn_ServerPort = 8080, cn_TLS = None\<rparr>,
         rq_HTTP = \<lparr>h_Method = method, h_Scheme = ''http'', h_Host = ''probe.local'', h_URI = path,
                    h_ArgsSize = int (length args), h_Version = ''HTTP/1.1''\<rparr>,
         rq_Vars = None, rq_Needs = [], rq_Store = \<lparr>s_Headers = None, s_Args = None, s_Body = None\<rparr>,
         rq_RequestStore = None,
         rq_Route = \<lparr>rt_ServerName = ''probe.local'', rt_Location = ''/'', rt_Profile = prof\<rparr>,
         rq_Score = \<lparr>sc_Total = 0, sc_DenyAt = 100\<rparr>, rq_Prior = [],
         rq_Response = (if phase = PhaseResponse
           then Some \<lparr>rs_Status = status, rs_Headers = [], rs_UpstreamMS = 0\<rparr> else None),
         rq_Release = None\<rparr>)"

datatype probe_err = NoConnection | NoVerdict | MalformedReply | WrongVerdict string

text \<open>\<open>run\<close> of the probe: the answer the bus brought, if any, and its decoder.\<close>

definition probe_run :: "bool \<Rightarrow> string option \<Rightarrow> (string \<Rightarrow> reply option) \<Rightarrow> string \<Rightarrow> probe_err option" where
  "probe_run connected got json want =
     (if \<not> connected then Some NoConnection
      else case got of
        None \<Rightarrow> Some NoVerdict
      | Some msg \<Rightarrow>
          (case json msg of
             None \<Rightarrow> Some MalformedReply
           | Some r \<Rightarrow> if want \<noteq> [] \<and> rp_Verdict r \<noteq> want then Some (WrongVerdict (rp_Verdict r)) else None))"

text \<open>\<open>env\<close> and \<open>main\<close> of the probe: the flags as they are without arguments, and the exit code.\<close>

definition probe_env :: "string gomap \<Rightarrow> string \<Rightarrow> string \<Rightarrow> string" where
  "probe_env vars name d = (case vars name of Some v \<Rightarrow> if v \<noteq> [] then v else d | None \<Rightarrow> d)"

record probe_flags =
  pf_servers :: string
  pf_subject :: string
  pf_name :: string
  pf_profile :: string
  pf_uri :: string
  pf_method :: string
  pf_phase :: string
  pf_status :: int
  pf_expect :: string
  pf_timeout :: duration
  pf_quiet :: bool

definition probe_defaults :: "string gomap \<Rightarrow> probe_flags" where
  "probe_defaults vars =
     \<lparr>pf_servers = probe_env vars ''NATS_URL'' ''nats://127.0.0.1:4222'',
      pf_subject = probe_env vars ''WAF_COOKIE_SUBJECT'' ''waf.req.cookie'',
      pf_name = probe_env vars ''WAF_COOKIE_NAME'' ''cookie'', pf_profile = ''default'', pf_uri = ''/healthcheck'',
      pf_method = ''GET'', pf_phase = PhaseRequest, pf_status = 200, pf_expect = [], pf_timeout = Second,
      pf_quiet = False\<rparr>"

definition probe_message :: "probe_flags \<Rightarrow> int \<Rightarrow> request" where
  "probe_message f nanos =
     probe_request (pf_name f) (pf_profile f) (pf_uri f) (pf_method f) (pf_phase f) (pf_status f) (pf_timeout f) nanos"

definition probe_exit :: "probe_err option \<Rightarrow> int" where
  "probe_exit r = (case r of None \<Rightarrow> 0 | Some e \<Rightarrow> 1)"

subsection \<open>A configured queue\<close>

text \<open>
  The queue runs as configured: with a configuration that loads none of the fallbacks of the
  queue applies, it has the configured depth and mode, and it starts empty and open.
\<close>

theorem configured_pool:
  assumes "config_Load e = Inr c"
  shows "int (pl_depth (run_pool c)) = cf_QueueDepth c \<and> 1 \<le> pl_depth (run_pool c) \<and>
    pl_full (run_pool c) = cf_QueueFull c \<and> pl_full (run_pool c) \<in> {FullDrop, FullWait} \<and>
    pl_q (run_pool c) = [] \<and> \<not> pl_closed (run_pool c)"
  using config_Load_Inr [OF assms] by (auto simp: valid_config_def run_pool_def pool_New_def)

subsection \<open>Lists of the loaded profiles\<close>

lemma datasets_loop_iff:
  "x \<in> set (datasets_loop rs out) \<longleftrightarrow>
     x \<in> set out \<or> (\<exists>r \<in> set rs. \<exists>l. r_Listed r = Some l \<and> \<not> lc_Static l \<and> lc_List l = x)"
  by (induction rs out rule: datasets_loop.induct) (auto split: option.splits)

lemma add_new_set: "set (foldl (\<lambda>acc d. if d \<in> set acc then acc else acc @ [d]) out ds) = set out \<union> set ds"
  by (induction ds arbitrary: out) auto

lemma snapshot_datasets_iff:
  "x \<in> set (snapshot_datasets m ns out) \<longleftrightarrow>
     x \<in> set out \<or> (\<exists>n \<in> set ns. \<exists>p. map_of m n = Some p \<and> x \<in> set (profile_Datasets p))"
  by (induction m ns out rule: snapshot_datasets.induct) (auto simp: add_new_set split: option.splits)

lemma Ensure_keeps: "mi_sets m x \<noteq> None \<Longrightarrow> mi_sets (Ensure ok now n m) x \<noteq> None"
  by (simp add: Ensure_def Let_def)

lemma ensure_all:
  assumes "mirror_reach m"
  shows "mirror_reach (foldl (\<lambda>m n. Ensure (subs n) (now n) n m) m ns) \<and>
    (x \<noteq> [] \<longrightarrow> x \<in> set ns \<or> mi_sets m x \<noteq> None \<longrightarrow> mi_sets (foldl (\<lambda>m n. Ensure (subs n) (now n) n m) m ns) x \<noteq> None)"
  using assms
proof (induction ns arbitrary: m)
  case (Cons n ns)
  have r: "mirror_reach (Ensure (subs n) (now n) n m)"
    using Cons.prems mirror_step.ensure by (rule mirror_reach.step)
  have "x \<noteq> [] \<Longrightarrow> x = n \<or> mi_sets m x \<noteq> None \<Longrightarrow> mi_sets (Ensure (subs n) (now n) n m) x \<noteq> None"
    using Ensure_keeps [of m x] by (auto simp: Ensure_def Let_def)
  with Cons.IH [OF r] show ?case by auto
qed simp

text \<open>
  Every dynamic list that a rule of a loaded profile asks about is registered with the mirror
  once the load is announced, and the mirror stays in a state its own steps reach.
\<close>

theorem loaded_lists_followed:
  assumes "mirror_reach m" and "map_of s n = Some p" and "r \<in> set (p_Rules p)" and "r_Listed r = Some l"
    and "\<not> lc_Static l" and "lc_List l \<noteq> []"
  shows "mirror_reach (on_load subs now s m) \<and> mi_sets (on_load subs now s m) (lc_List l) \<noteq> None"
proof -
  have "n \<in> set (Names s)" using assms(2) by (auto simp: Names_def dest: map_of_SomeD intro: rev_image_eqI)
  with assms(2-5) have "lc_List l \<in> set (snapshot_Datasets s)"
    by (auto simp: snapshot_Datasets_def snapshot_datasets_iff profile_Datasets_def datasets_loop_iff)
  with ensure_all [OF assms(1), of subs now "snapshot_Datasets s" "lc_List l"] assms(6) show ?thesis
    by (simp add: on_load_def)
qed

text \<open>
  A list runs in the mirror exactly when it is registered and its subscription succeeded; one that was
  registered without is never tried again.
\<close>

definition runs_as :: "(string \<Rightarrow> bool) \<Rightarrow> mirror \<Rightarrow> bool" where
  "runs_as subs m \<longleftrightarrow> (\<forall>x. mi_runs m x \<noteq> None \<longleftrightarrow> mi_sets m x \<noteq> None \<and> subs x)"

lemma ensure_runs: "runs_as subs m \<Longrightarrow> runs_as subs (foldl (\<lambda>m n. Ensure (subs n) (now n) n m) m ns)"
proof (induction ns arbitrary: m)
  case (Cons n ns)
  from Cons.prems have "runs_as subs (Ensure (subs n) (now n) n m)"
    by (auto simp: runs_as_def Ensure_def Let_def)
  from Cons.IH [OF this] show ?case by simp
qed simp

lemma started_lists_followed:
  assumes "map_of s n = Some p" and "r \<in> set (p_Rules p)" and "r_Listed r = Some l"
    and "\<not> lc_Static l" and "lc_List l \<noteq> []"
  shows "mi_sets (on_load subs now s mirror_New) (lc_List l) \<noteq> None \<and>
    (mi_runs (on_load subs now s mirror_New) (lc_List l) \<noteq> None \<longleftrightarrow> subs (lc_List l))"
proof -
  have "runs_as subs mirror_New" by (simp add: runs_as_def mirror_New_def)
  from ensure_runs [OF this, of now "snapshot_Datasets s"] loaded_lists_followed [OF mirror_reach.init assms, of subs now]
  show ?thesis by (auto simp: runs_as_def on_load_def)
qed

text \<open>
  A rule on a list the mirror has not received yet.  While the list has no snapshot, a rule
  that asks whether a value is on it does not fire, a rule that asks whether it is off it does, and
  the outcome notes that the list was not ready.
\<close>

theorem unready_list_rule:
  assumes "\<forall>st. mi_sets m (lc_List l) = Some st \<longrightarrow> \<not> lv_ready st"
    and "tg_Sets t = Some (mirror_Contains m now)" and "r \<in> set (p_Rules p)" and "rule_passes u t r"
    and "r_Listed r = Some l" and "\<not> lc_Static l" and "sget (tg_Tags t) (r_Cookie r) \<noteq> []"
  shows "(selected u t r \<longleftrightarrow> lc_Not l) \<and>
    out_Rules (profile_Collect u p t) = map r_Name (filter (selected u t) (p_Rules p)) \<and>
    \<lparr>n_List = lc_List l, n_Why = NoteNotReady\<rparr> \<in> set (out_Notes (profile_Collect u p t))"
proof -
  have "mirror_Contains m now (lc_List l) v = (False, False)" for v
    using assms(1) by (auto simp: mirror_Contains_def split: option.splits)
  with assms(2,6,7) have miss: "list_missing t l (sget (tg_Tags t) (r_Cookie r))"
    by (simp add: list_missing_def)
  have "lc_List l \<in> set (missing_lists u t (p_Rules p))"
    using assms(3-5) miss by (force simp: missing_lists_def)
  with mirror_lists.missing_selected [OF assms(2,4,5) miss] show ?thesis
    by (simp add: collect_refines collect_spec_def Let_def)
qed

subsection \<open>What the heartbeat says\<close>

text \<open>A report goes into the heartbeat as it is; without one the names are those being served.\<close>

lemma beat_report:
  "hb_Apply (beat c p oa st) = ap_apply (applied_Snapshot oa)"
  "ap_apply (applied_Snapshot oa) \<noteq> [] \<Longrightarrow> hb_ConfigHash (beat c p oa st) = ap_hash (applied_Snapshot oa)"
  "ap_apply (applied_Snapshot oa) \<noteq> [] \<Longrightarrow> hb_Rev (beat c p oa st) = ap_rev (applied_Snapshot oa)"
  "ap_apply (applied_Snapshot oa) \<noteq> [] \<Longrightarrow> hb_Profiles (beat c p oa st) = ap_names (applied_Snapshot oa)"
  "ap_apply (applied_Snapshot oa) = [] \<Longrightarrow> hb_Profiles (beat c p oa st) = Names (st_current st)"
  by (simp_all add: beat_def Let_def)

subsection \<open>The probe is served\<close>

lemma hex16_nonempty [simp]: "hex16 n \<noteq> []"
  by (simp add: hex16_def Let_def)

text \<open>
  An inspector accepts the request of the probe: sent with a name, a method, a path and a phase
  of a request or a response, it becomes a task of the queue, for every profile, status, timeout
  and time, provided the inspector supports the version of the protocol.
\<close>

theorem probe_is_served:
  assumes "Supports h Version" and "unmarshal payload = Some (probe_request name prof uri method phase status timeout nanos)"
    and "name \<noteq> []" and "method \<noteq> []" and "fst (Cut uri (CHR ''?'')) \<noteq> []"
    and "phase \<in> {PhaseRequest, PhaseResponse}"
  shows "receive h unmarshal subject payload =
    Submitted \<lparr>tk_Req = probe_request name prof uri method phase status timeout nanos, tk_Reply = subject,
      tk_Fill = 0, tk_enqueued = 0\<rparr>"
  using assms
  by (cases "Cut uri (CHR ''?'')") (auto simp: receive_def protocol_Parse_def probe_request_def locator_validate_def Version_def)

text \<open>Run without arguments, in any environment, the probe sends a request that is served.\<close>

corollary default_probe_is_served:
  assumes "Supports h Version" and "unmarshal payload = Some (probe_message (probe_defaults vars) nanos)"
  shows "\<exists>t. receive h unmarshal subject payload = Submitted t"
proof -
  have "pf_name (probe_defaults vars) \<noteq> []"
    by (auto simp: probe_defaults_def probe_env_def split: option.splits)
  moreover have "fst (Cut ''/healthcheck'' (CHR ''?'')) \<noteq> []" by simp
  ultimately show ?thesis
    using probe_is_served [of h unmarshal payload "pf_name (probe_defaults vars)" "''default''" "''/healthcheck''" "''GET''"
        PhaseRequest 200 Second nanos subject] assms
    by (auto simp: probe_message_def probe_defaults_def)
qed

subsection \<open>A small service\<close>

theorem configured_pool_witness:
  "\<exists>c. config_Load demo_process = Inr c \<and> int (pl_depth (run_pool c)) = 256"
  using demo_loads configured_pool by fastforce

text \<open>A profile with one rule on a dynamic list, of its value or of the values off it.\<close>

definition listed_rule :: "bool \<Rightarrow> rule" where
  "listed_rule neg = (plain_rule ''listed'' [] ''uid'' [])\<lparr>r_Listed :=
     Some \<lparr>lc_List = ''bots'', lc_Not = neg, lc_MD5 = False, lc_Static = False, lc_set = {}\<rparr>\<rparr>"

definition listed_profile :: "bool \<Rightarrow> profile" where
  "listed_profile neg = \<lparr>p_Name = ''shop'', p_Mode = ModeEnforce, p_Cookies = [uid_cookie], p_Rules = [listed_rule neg]\<rparr>"

theorem loaded_lists_followed_witness:
  "mi_sets (on_load (\<lambda>_. True) (\<lambda>_. 0) [(''shop'', listed_profile False)] mirror_New) ''bots'' \<noteq> None"
  using loaded_lists_followed [OF mirror_reach.init, of "[(''shop'', listed_profile False)]" "''shop''"
      "listed_profile False" "listed_rule False" _ "\<lambda>_. True" "\<lambda>_. 0"]
  by (simp add: listed_profile_def listed_rule_def)

definition listed_target :: target where
  "listed_target = \<lparr>tg_Phase = PhaseRequest, tg_Method = ''GET'', tg_URI = ''/'', tg_Status = 0,
     tg_States = [''uid'' \<mapsto> StatePresent], tg_Tags = [''uid'' \<mapsto> ''a''],
     tg_Sets = Some (mirror_Contains (Ensure True 0 ''bots'' mirror_New) 5)\<rparr>"

theorem unready_list_rule_witness:
  "out_Rules (profile_Collect ascii_only (listed_profile True) listed_target) = [''listed''] \<and>
   out_Rules (profile_Collect ascii_only (listed_profile False) listed_target) = []"
proof -
  let ?m = "Ensure True 0 ''bots'' mirror_New"
  let ?l = "\<lambda>neg. \<lparr>lc_List = ''bots'', lc_Not = neg, lc_MD5 = False, lc_Static = False, lc_set = {}\<rparr>"
  have m: "\<forall>st. mi_sets ?m (lc_List (?l neg)) = Some st \<longrightarrow> \<not> lv_ready st" for neg
    by (simp add: Ensure_def mirror_New_def new_set_def Let_def)
  have t: "tg_Sets listed_target = Some (mirror_Contains ?m 5)" by (simp add: listed_target_def)
  have p: "rule_passes ascii_only listed_target (listed_rule neg)" for neg
    by (simp add: rule_passes_def listed_rule_def plain_rule_def listed_target_def Matches_def)
  have "(selected ascii_only listed_target (listed_rule neg) \<longleftrightarrow> neg) \<and>
      out_Rules (profile_Collect ascii_only (listed_profile neg) listed_target) =
        map r_Name (filter (selected ascii_only listed_target) [listed_rule neg])" for neg
    using unready_list_rule [OF m t _ p, of neg "listed_profile neg" neg]
    by (simp add: listed_rule_def listed_profile_def listed_target_def plain_rule_def)
  from this [of True] this [of False] show ?thesis by (simp add: listed_rule_def plain_rule_def)
qed

theorem probe_is_served_witness:
  "receive (demo_handler []) (\<lambda>_. Some (probe_request ''cookie'' ''default'' ''/healthcheck'' ''GET'' PhaseRequest 200 Second 1))
     ''_INBOX.1'' [] \<noteq> Ignored"
  using probe_is_served [of "demo_handler []" "\<lambda>_. Some (probe_request ''cookie'' ''default'' ''/healthcheck'' ''GET''
      PhaseRequest 200 Second 1)" "[]" "''cookie''" "''default''" "''/healthcheck''" "''GET''" PhaseRequest 200 Second 1 "''_INBOX.1''"]
  by (simp add: Supports_def demo_handler_def Version_def)

end
