(* ===== verification/Workers.thy ===== *)
theory Workers
  imports Queue
begin

text \<open>
  The goroutines of the queue (\<^verbatim>\<open>internal/queue/queue.go\<close>) with their condition variable: workers and
  submitters sleep in \<^verbatim>\<open>cond.Wait\<close> and are woken by \<^verbatim>\<open>Signal\<close>, which wakes any one of them, and
  \<^verbatim>\<open>Broadcast\<close>, which wakes all.  Every section under the lock is one step; the sections are the ones
  of theory \<open>Queue\<close>, and every run of the goroutines is a run of \<open>pool_step\<close>.  Between two rounds of
  the loop of \<^verbatim>\<open>submitWaitLocked\<close> other goroutines may run even where the code keeps the lock, so the
  runs here include the ones of the code.
\<close>

subsection \<open>Sections\<close>

text \<open>One round of the loop of \<open>pop\<close>.\<close>

datatype pop_result =
  PopTask task "task list" pool | PopClosed "task list" pool | PopDead "task list" pool | PopWait

definition pop_try :: "pool \<Rightarrow> gotime \<Rightarrow> pop_result" where
  "pop_try p now =
     (case takeExpiredLocked p now of (dead, p1) \<Rightarrow>
        (case pl_q p1 of
           t # ts \<Rightarrow> PopTask t dead (p1\<lparr>pl_q := ts\<rparr>)
         | [] \<Rightarrow>
             if pl_closed p1 then PopClosed dead p1
             else if dead \<noteq> [] then PopDead dead p1
             else PopWait))"

text \<open>\<open>collectExpired\<close> takes the lock for one call.\<close>

abbreviation (input) collectExpired :: "pool \<Rightarrow> gotime \<Rightarrow> task list \<times> pool" where
  "collectExpired \<equiv> takeExpiredLocked"

subsection \<open>Goroutines\<close>

text \<open>
  A worker: about to enter \<open>pop\<close> or back in its loop, asleep, answering what \<open>pop\<close> found expired (with
  what else it returned: a task, nothing, or that the queue is closed and empty), running a task, or gone.
\<close>

datatype popped = GotTask task | GotNothing | GotStop

datatype wstate = WPop | WSleep | WReply "task list" popped | WRun task | WExit

text \<open>
  A submitter: before the first check, before \<open>collectExpired\<close>, answering what that found, before the
  lock, in the loop of \<open>submitWaitLocked\<close> (with the flag its timer sets), asleep there with its timer
  running, answering expired tasks there, or done.
\<close>

datatype sstate =
  SNew task | SCollect task | SReply "task list" task | SLock task | SWait task bool | SSleep task
| SWaitReply "task list" task bool | SDone

datatype sweeper = SwIdle | SwReply "task list" | SwExit

datatype closer = CloseNot | CloseStopped | CloseWaits | CloseDone

record gsys =
  gs_pool :: pool
  gs_workers :: "wstate list"
  gs_subs :: "sstate list"
  gs_sweep :: sweeper
  gs_close :: closer
  gs_answers :: "(task \<times> string) list"
  gs_submitted :: "task list"
  gs_accepted :: "task list"
  gs_taken :: "task list"

text \<open>\<open>New\<close> starts the goroutines.\<close>

definition go_start :: "nat \<Rightarrow> pool \<Rightarrow> gsys" where
  "go_start workers p =
     \<lparr>gs_pool = p, gs_workers = replicate workers WPop, gs_subs = [], gs_sweep = SwIdle, gs_close = CloseNot,
      gs_answers = [], gs_submitted = [], gs_accepted = [], gs_taken = []\<rparr>"

subsection \<open>The condition variable\<close>

definition wake_worker :: "wstate \<Rightarrow> wstate" where
  "wake_worker w = (if w = WSleep then WPop else w)"

fun wake_sub :: "sstate \<Rightarrow> sstate" where
  "wake_sub (SSleep t) = SWait t False"
| "wake_sub x = x"

definition Broadcast :: "gsys \<Rightarrow> gsys" where
  "Broadcast s = s\<lparr>gs_workers := map wake_worker (gs_workers s), gs_subs := map wake_sub (gs_subs s)\<rparr>"

definition broadcast_if :: "bool \<Rightarrow> gsys \<Rightarrow> gsys" where
  "broadcast_if b s = (if b then Broadcast s else s)"

definition sub_asleep :: "sstate \<Rightarrow> bool" where
  "sub_asleep x \<longleftrightarrow> (\<exists>t. x = SSleep t)"

inductive Signal :: "gsys \<Rightarrow> gsys \<Rightarrow> bool" where
  a_worker: "i < length (gs_workers s) \<Longrightarrow> gs_workers s ! i = WSleep \<Longrightarrow>
    Signal s (s\<lparr>gs_workers := (gs_workers s)[i := WPop]\<rparr>)"
| a_sub: "i < length (gs_subs s) \<Longrightarrow> sub_asleep (gs_subs s ! i) \<Longrightarrow>
    Signal s (s\<lparr>gs_subs := (gs_subs s)[i := wake_sub (gs_subs s ! i)]\<rparr>)"
| nobody: "WSleep \<notin> set (gs_workers s) \<Longrightarrow> \<not> (\<exists>x \<in> set (gs_subs s). sub_asleep x) \<Longrightarrow> Signal s s"

text \<open>The timer of a waiting submitter: its flag and a broadcast.  Fired late it only broadcasts.\<close>

fun fire :: "sstate \<Rightarrow> sstate" where
  "fire (SSleep t) = SWait t True"
| "fire (SWait t b) = SWait t True"
| "fire (SWaitReply ds t b) = SWaitReply ds t True"
| "fire x = x"

subsection \<open>Steps\<close>

definition set_sub :: "nat \<Rightarrow> sstate \<Rightarrow> gsys \<Rightarrow> gsys" where
  "set_sub i x s = s\<lparr>gs_subs := (gs_subs s)[i := x]\<rparr>"

definition set_worker :: "nat \<Rightarrow> wstate \<Rightarrow> gsys \<Rightarrow> gsys" where
  "set_worker i w s = s\<lparr>gs_workers := (gs_workers s)[i := w]\<rparr>"

definition g_answer :: "task \<Rightarrow> string \<Rightarrow> pool \<Rightarrow> gsys \<Rightarrow> gsys" where
  "g_answer t why p s = s\<lparr>gs_answers := gs_answers s @ [(t, why)], gs_pool := p\<rparr>"

text \<open>\<open>expire\<close>: counted, and answered as past its deadline.\<close>

definition g_expire :: "task \<Rightarrow> gsys \<Rightarrow> gsys" where
  "g_expire t s = g_answer t ReasonDeadlineExceeded (pool_expire (gs_pool s)) s"

definition g_accept :: "task \<Rightarrow> pool \<Rightarrow> gsys \<Rightarrow> gsys" where
  "g_accept t p s = s\<lparr>gs_pool := p, gs_accepted := gs_accepted s @ [t]\<rparr>"

definition set_gpool :: "pool \<Rightarrow> gsys \<Rightarrow> gsys" where
  "set_gpool p s = s\<lparr>gs_pool := p\<rparr>"

text \<open>What a worker does once the expired tasks are answered.\<close>

fun after_reply :: "popped \<Rightarrow> wstate" where
  "after_reply (GotTask t) = WRun t"
| "after_reply GotNothing = WPop"
| "after_reply GotStop = WExit"

abbreviation is_sub :: "gsys \<Rightarrow> nat \<Rightarrow> sstate \<Rightarrow> bool" where
  "is_sub s i x \<equiv> i < length (gs_subs s) \<and> gs_subs s ! i = x"

abbreviation is_worker :: "gsys \<Rightarrow> nat \<Rightarrow> wstate \<Rightarrow> bool" where
  "is_worker s i w \<equiv> i < length (gs_workers s) \<and> gs_workers s ! i = w"

text \<open>\<open>Submit\<close> and \<open>submitWaitLocked\<close>.\<close>

inductive submit_step :: "gsys \<Rightarrow> gsys \<Rightarrow> bool" where
  submit: "tk_Fill t0 = 0 \<Longrightarrow> t = t0\<lparr>tk_enqueued := now\<rparr> \<Longrightarrow>
    submit_step s (s\<lparr>gs_subs := gs_subs s @ [SNew t], gs_submitted := gs_submitted s @ [t]\<rparr>)"
| s_late: "is_sub s i (SNew t) \<Longrightarrow> late (gs_pool s) now t \<Longrightarrow> submit_step s (g_expire t (set_sub i SDone s))"
| s_in_time: "is_sub s i (SNew t) \<Longrightarrow> \<not> late (gs_pool s) now t \<Longrightarrow> submit_step s (set_sub i (SCollect t) s)"
| s_collect: "is_sub s i (SCollect t) \<Longrightarrow> collectExpired (gs_pool s) now = (dead, p) \<Longrightarrow>
    submit_step s (broadcast_if (dead \<noteq> []) (set_gpool p (set_sub i (SReply dead t) s)))"
| s_reply: "is_sub s i (SReply (d # ds) t) \<Longrightarrow> submit_step s (g_expire d (set_sub i (SReply ds t) s))"
| s_replied: "is_sub s i (SReply [] t) \<Longrightarrow> submit_step s (set_sub i (SLock t) s)"
| s_closed: "is_sub s i (SLock t) \<Longrightarrow> submit_locked (gs_pool s) t = (t', SubmitClosed) \<Longrightarrow>
    submit_step s (g_expire t' (set_sub i SDone s))"
| s_enqueue: "is_sub s i (SLock t) \<Longrightarrow> submit_locked (gs_pool s) t = (t', SubmitEnqueued p) \<Longrightarrow>
    Signal (g_accept t' p (set_sub i SDone s)) s' \<Longrightarrow> submit_step s s'"
| s_shed: "is_sub s i (SLock t) \<Longrightarrow> submit_locked (gs_pool s) t = (t', SubmitShed) \<Longrightarrow>
    submit_step s (g_answer t' ReasonQueueLimit (shedLimit (gs_pool s)) (set_sub i SDone s))"
| s_wait_late: "is_sub s i (SLock t) \<Longrightarrow> submit_locked (gs_pool s) t = (t', SubmitWait) \<Longrightarrow>
    late (gs_pool s) now t' \<Longrightarrow> submit_step s (g_expire t' (set_sub i SDone s))"
| s_wait: "is_sub s i (SLock t) \<Longrightarrow> submit_locked (gs_pool s) t = (t', SubmitWait) \<Longrightarrow>
    \<not> late (gs_pool s) now t' \<Longrightarrow> submit_step s (set_sub i (SWait t' False) s)"
| w_sleep: "is_sub s i (SWait t b) \<Longrightarrow> wait_locked (gs_pool s) t b = WaitOn \<Longrightarrow>
    takeExpiredLocked (gs_pool s) now = ([], p) \<Longrightarrow> submit_step s (set_sub i (SSleep t) s)"
| w_dead: "is_sub s i (SWait t b) \<Longrightarrow> wait_locked (gs_pool s) t b = WaitOn \<Longrightarrow>
    takeExpiredLocked (gs_pool s) now = (dead, p) \<Longrightarrow> dead \<noteq> [] \<Longrightarrow>
    submit_step s (Broadcast (set_gpool p (set_sub i (SWaitReply dead t b) s)))"
| w_reply: "is_sub s i (SWaitReply (d # ds) t b) \<Longrightarrow>
    submit_step s (g_expire d (set_sub i (SWaitReply ds t b) s))"
| w_replied: "is_sub s i (SWaitReply [] t b) \<Longrightarrow> submit_step s (set_sub i (SWait t b) s)"
| w_enqueue: "is_sub s i (SWait t b) \<Longrightarrow> wait_locked (gs_pool s) t b = WaitEnqueued p \<Longrightarrow>
    Signal (g_accept t p (set_sub i SDone s)) s' \<Longrightarrow> submit_step s s'"
| w_over: "is_sub s i (SWait t b) \<Longrightarrow> wait_locked (gs_pool s) t b \<in> {WaitClosed, WaitTimeout} \<Longrightarrow>
    submit_step s (g_expire t (set_sub i SDone s))"
| timer: "i < length (gs_subs s) \<Longrightarrow> submit_step s (Broadcast (set_sub i (fire (gs_subs s ! i)) s))"

text \<open>\<open>work\<close> and \<open>pop\<close>.\<close>

inductive work_step :: "gsys \<Rightarrow> gsys \<Rightarrow> bool" where
  pop_task: "is_worker s i WPop \<Longrightarrow> pop_try (gs_pool s) now = PopTask t dead p \<Longrightarrow>
    work_step s (Broadcast (set_gpool p (set_worker i (WReply dead (GotTask t))
      (s\<lparr>gs_taken := gs_taken s @ [t]\<rparr>))))"
| pop_closed: "is_worker s i WPop \<Longrightarrow> pop_try (gs_pool s) now = PopClosed dead p \<Longrightarrow>
    work_step s (broadcast_if (dead \<noteq> []) (set_gpool p (set_worker i (WReply dead GotStop) s)))"
| pop_dead: "is_worker s i WPop \<Longrightarrow> pop_try (gs_pool s) now = PopDead dead p \<Longrightarrow>
    work_step s (Broadcast (set_gpool p (set_worker i (WReply dead GotNothing) s)))"
| pop_wait: "is_worker s i WPop \<Longrightarrow> pop_try (gs_pool s) now = PopWait \<Longrightarrow>
    work_step s (set_worker i WSleep s)"
| reply: "is_worker s i (WReply (d # ds) r) \<Longrightarrow> work_step s (g_expire d (set_worker i (WReply ds r) s))"
| replied: "is_worker s i (WReply [] r) \<Longrightarrow> work_step s (set_worker i (after_reply r) s)"
| run: "is_worker s i (WRun t) \<Longrightarrow> pool_budget (gs_pool s) t now = ((left, shed), p) \<Longrightarrow>
    work_step s (g_answer t shed p (set_worker i WPop s))"

text \<open>\<open>sweep\<close> with \<open>collectExpired\<close> and \<open>replyDead\<close>.\<close>

inductive sweep_step :: "gsys \<Rightarrow> gsys \<Rightarrow> bool" where
  tick: "gs_sweep s = SwIdle \<Longrightarrow> collectExpired (gs_pool s) now = (dead, p) \<Longrightarrow>
    sweep_step s (broadcast_if (dead \<noteq> []) (set_gpool p (s\<lparr>gs_sweep := SwReply dead\<rparr>)))"
| sw_reply: "gs_sweep s = SwReply (d # ds) \<Longrightarrow> sweep_step s (g_expire d (s\<lparr>gs_sweep := SwReply ds\<rparr>))"
| sw_replied: "gs_sweep s = SwReply [] \<Longrightarrow> sweep_step s (s\<lparr>gs_sweep := SwIdle\<rparr>)"
| sw_stop: "gs_sweep s = SwIdle \<Longrightarrow> gs_close s \<noteq> CloseNot \<Longrightarrow> sweep_step s (s\<lparr>gs_sweep := SwExit\<rparr>)"

text \<open>\<open>Close\<close>: stop the sweeper, close the queue, wait for the workers and the sweeper.\<close>

definition all_gone :: "gsys \<Rightarrow> bool" where
  "all_gone s \<longleftrightarrow> (\<forall>w \<in> set (gs_workers s). w = WExit) \<and> gs_sweep s = SwExit"

inductive close_step :: "gsys \<Rightarrow> gsys \<Rightarrow> bool" where
  stop: "gs_close s = CloseNot \<Longrightarrow> close_step s (s\<lparr>gs_close := CloseStopped\<rparr>)"
| close: "gs_close s = CloseStopped \<Longrightarrow>
    close_step s (Broadcast (set_gpool ((gs_pool s)\<lparr>pl_closed := True\<rparr>) (s\<lparr>gs_close := CloseWaits\<rparr>)))"
| returns: "gs_close s = CloseWaits \<Longrightarrow> all_gone s \<Longrightarrow> close_step s (s\<lparr>gs_close := CloseDone\<rparr>)"

definition go_step :: "gsys \<Rightarrow> gsys \<Rightarrow> bool" where
  "go_step s s' \<longleftrightarrow> submit_step s s' \<or> work_step s s' \<or> sweep_step s s' \<or> close_step s s'"

inductive go_reach :: "gsys \<Rightarrow> gsys \<Rightarrow> bool" for s0 where
  init: "go_reach s0 s0"
| step: "go_reach s0 s \<Longrightarrow> go_step s s' \<Longrightarrow> go_reach s0 s'"

lemmas g_defs = set_sub_def set_worker_def g_answer_def g_expire_def g_accept_def set_gpool_def Broadcast_def
  broadcast_if_def

subsection \<open>Every run is a run of the pool\<close>

fun w_hands :: "wstate \<Rightarrow> hand list" where
  "w_hands (WReply ds (GotTask t)) = map Dead ds @ [Popped t]"
| "w_hands (WReply ds r) = map Dead ds"
| "w_hands (WRun t) = [Popped t]"
| "w_hands w = []"

fun s_hands :: "sstate \<Rightarrow> hand list" where
  "s_hands (SNew t) = [Submitting t]"
| "s_hands (SCollect t) = [Submitting t]"
| "s_hands (SReply ds t) = map Dead ds @ [Submitting t]"
| "s_hands (SLock t) = [Submitting t]"
| "s_hands (SWait t b) = [Waiting t]"
| "s_hands (SSleep t) = [Waiting t]"
| "s_hands (SWaitReply ds t b) = map Dead ds @ [Waiting t]"
| "s_hands SDone = []"

fun sw_hands :: "sweeper \<Rightarrow> hand list" where
  "sw_hands (SwReply ds) = map Dead ds"
| "sw_hands x = []"

definition g_hands :: "gsys \<Rightarrow> hand multiset" where
  "g_hands s = mset (concat (map w_hands (gs_workers s))) + mset (concat (map s_hands (gs_subs s))) +
     mset (sw_hands (gs_sweep s))"

definition pool_of :: "gsys \<Rightarrow> pool_sys" where
  "pool_of s = \<lparr>ps_pool = gs_pool s, ps_hands = g_hands s, ps_answers = gs_answers s,
     ps_submitted = gs_submitted s, ps_accepted = gs_accepted s, ps_taken = gs_taken s\<rparr>"

lemma mset_concat_update:
  assumes "i < length xs"
  shows "\<exists>H. mset (concat (map f xs)) = mset (f (xs ! i)) + H \<and>
    (\<forall>x. mset (concat (map f (xs[i := x]))) = mset (f x) + H)"
proof -
  have "mset (concat (map f xs)) = mset (f (xs ! i)) + mset (concat (map f (take i xs @ drop (Suc i) xs)))"
    by (subst id_take_nth_drop [OF assms]) (simp add: ac_simps)
  moreover have "mset (concat (map f (xs[i := x]))) = mset (f x) + mset (concat (map f (take i xs @ drop (Suc i) xs)))" for x
    using assms by (simp add: upd_conv_take_nth_drop ac_simps)
  ultimately show ?thesis by blast
qed

text \<open>The hands of all goroutines but one, which stay as they are when that one moves.\<close>

lemma worker_hands:
  assumes "i < length (gs_workers s)"
  obtains H where "g_hands s = mset (w_hands (gs_workers s ! i)) + H"
    "\<And>w. g_hands (set_worker i w s) = mset (w_hands w) + H"
proof -
  from mset_concat_update [OF assms, of w_hands] obtain H where
    "mset (concat (map w_hands (gs_workers s))) = mset (w_hands (gs_workers s ! i)) + H"
    "\<And>x. mset (concat (map w_hands ((gs_workers s)[i := x]))) = mset (w_hands x) + H" by blast
  then show thesis
    by (intro that [of "H + mset (concat (map s_hands (gs_subs s))) + mset (sw_hands (gs_sweep s))"])
      (simp_all add: g_hands_def set_worker_def ac_simps)
qed

lemma sub_hands:
  assumes "i < length (gs_subs s)"
  obtains H where "g_hands s = mset (s_hands (gs_subs s ! i)) + H"
    "\<And>x. g_hands (set_sub i x s) = mset (s_hands x) + H"
proof -
  from mset_concat_update [OF assms, of s_hands] obtain H where
    "mset (concat (map s_hands (gs_subs s))) = mset (s_hands (gs_subs s ! i)) + H"
    "\<And>x. mset (concat (map s_hands ((gs_subs s)[i := x]))) = mset (s_hands x) + H" by blast
  then show thesis
    by (intro that [of "H + mset (concat (map w_hands (gs_workers s))) + mset (sw_hands (gs_sweep s))"])
      (simp_all add: g_hands_def set_sub_def ac_simps)
qed

lemma sweep_hands:
  "g_hands s = mset (sw_hands (gs_sweep s)) + (g_hands (s\<lparr>gs_sweep := SwIdle\<rparr>))"
  "g_hands (s\<lparr>gs_sweep := x\<rparr>) = mset (sw_hands x) + (g_hands (s\<lparr>gs_sweep := SwIdle\<rparr>))"
  by (simp_all add: g_hands_def ac_simps)

lemma wake_hands [simp]: "w_hands (wake_worker w) = w_hands w" "s_hands (wake_sub x) = s_hands x"
  by (simp add: wake_worker_def) (cases x; simp)

lemma g_hands_upd [simp]:
  "g_hands (s\<lparr>gs_pool := p\<rparr>) = g_hands s" "g_hands (s\<lparr>gs_answers := a\<rparr>) = g_hands s"
  "g_hands (s\<lparr>gs_accepted := ts\<rparr>) = g_hands s" "g_hands (s\<lparr>gs_taken := ts\<rparr>) = g_hands s"
  "g_hands (s\<lparr>gs_close := c\<rparr>) = g_hands s" "g_hands (s\<lparr>gs_submitted := ts\<rparr>) = g_hands s"
  by (simp_all add: g_hands_def)

lemma pool_of_Broadcast [simp]: "pool_of (Broadcast s) = pool_of s" "pool_of (broadcast_if b s) = pool_of s"
  by (simp_all add: pool_of_def g_hands_def Broadcast_def broadcast_if_def comp_def)

lemma fire_hands [simp]: "s_hands (fire x) = s_hands x"
  by (cases x) simp_all

lemma pool_of_set_sub:
  assumes "i < length (gs_subs s)" and "s_hands x = s_hands (gs_subs s ! i)"
  shows "pool_of (set_sub i x s) = pool_of s"
proof -
  from sub_hands [OF assms(1)] obtain H where "g_hands s = mset (s_hands (gs_subs s ! i)) + H"
    "g_hands (set_sub i x s) = mset (s_hands x) + H" by metis
  with assms(2) have "g_hands (set_sub i x s) = g_hands s" by simp
  then show ?thesis by (simp add: pool_of_def set_sub_def)
qed

lemma pool_of_set_worker:
  assumes "i < length (gs_workers s)" and "w_hands w = w_hands (gs_workers s ! i)"
  shows "pool_of (set_worker i w s) = pool_of s"
proof -
  from worker_hands [OF assms(1)] obtain H where "g_hands s = mset (w_hands (gs_workers s ! i)) + H"
    "g_hands (set_worker i w s) = mset (w_hands w) + H" by metis
  with assms(2) have "g_hands (set_worker i w s) = g_hands s" by simp
  then show ?thesis by (simp add: pool_of_def set_worker_def)
qed

lemma pool_of_Signal:
  assumes "Signal s s'"
  shows "pool_of s' = pool_of s"
  using assms
proof cases
  case (a_worker i)
  then show ?thesis using pool_of_set_worker [of i s WPop] by (simp add: set_worker_def)
next
  case (a_sub i)
  then show ?thesis using pool_of_set_sub [of i s "wake_sub (gs_subs s ! i)"] by (simp add: set_sub_def)
qed simp

text \<open>A goroutine lets go of a task by answering it.\<close>

lemma sub_lets_go:
  assumes "is_sub s i x" and "mset (s_hands x) = add_mset h (mset (s_hands y))"
  shows "g_hands (set_sub i y s) = g_hands s - {#h#} \<and> h \<in># g_hands s"
proof -
  from assms(1) sub_hands obtain H where "g_hands s = mset (s_hands x) + H"
    "g_hands (set_sub i y s) = mset (s_hands y) + H" by metis
  with assms(2) show ?thesis by simp
qed

lemma worker_lets_go:
  assumes "is_worker s i x" and "mset (w_hands x) = add_mset h (mset (w_hands y))"
  shows "g_hands (set_worker i y s) = g_hands s - {#h#} \<and> h \<in># g_hands s"
proof -
  from assms(1) worker_hands obtain H where "g_hands s = mset (w_hands x) + H"
    "g_hands (set_worker i y s) = mset (w_hands y) + H" by metis
  with assms(2) show ?thesis by simp
qed

lemma g_fields [simp]:
  "gs_pool (set_sub i x s) = gs_pool s" "gs_pool (set_worker i w s) = gs_pool s"
  "gs_answers (set_sub i x s) = gs_answers s" "gs_answers (set_worker i w s) = gs_answers s"
  "gs_submitted (set_sub i x s) = gs_submitted s" "gs_submitted (set_worker i w s) = gs_submitted s"
  "gs_accepted (set_sub i x s) = gs_accepted s" "gs_accepted (set_worker i w s) = gs_accepted s"
  "gs_taken (set_sub i x s) = gs_taken s" "gs_taken (set_worker i w s) = gs_taken s"
  by (simp_all add: set_sub_def set_worker_def)

lemma pool_of_answer:
  assumes "g_hands s' = g_hands s - {#h#}" and "gs_pool s' = gs_pool s" and "gs_answers s' = gs_answers s"
    and "gs_submitted s' = gs_submitted s" and "gs_accepted s' = gs_accepted s" and "gs_taken s' = gs_taken s"
  shows "pool_of (g_answer t why p s') = answer t why (set_pool p (let_go h (pool_of s)))"
  using assms by (simp add: pool_of_def g_answer_def answer_def set_pool_def let_go_def)

lemma pool_of_sub_answer:
  assumes "is_sub s i x" and "mset (s_hands x) = add_mset h (mset (s_hands y))"
  shows "pool_of (g_answer t why p (set_sub i y s)) = answer t why (set_pool p (let_go h (pool_of s)))"
  using sub_lets_go [OF assms] by (intro pool_of_answer) simp_all

lemma pool_of_worker_answer:
  assumes "is_worker s i x" and "mset (w_hands x) = add_mset h (mset (w_hands y))"
  shows "pool_of (g_answer t why p (set_worker i y s)) = answer t why (set_pool p (let_go h (pool_of s)))"
  using worker_lets_go [OF assms] by (intro pool_of_answer) simp_all

lemma pool_of_fields [simp]: "ps_pool (pool_of s) = gs_pool s" "ps_hands (pool_of s) = g_hands s"
  by (simp_all add: pool_of_def)

text \<open>Collecting expired tasks into the hands of a goroutine.\<close>

lemma collect_step:
  assumes "takeExpiredLocked (gs_pool s) now = (dead, p)" and "g_hands s' = g_hands s + image_mset Dead (mset dead)"
    and "gs_answers s' = gs_answers s" and "gs_submitted s' = gs_submitted s" and "gs_accepted s' = gs_accepted s"
    and "gs_taken s' = gs_taken s"
  shows "pool_step (pool_of s) (pool_of (set_gpool p s')) \<or> pool_of (set_gpool p s') = pool_of s"
proof (cases "dead = []")
  case True
  with assms(1) have "filter (\<lambda>t. \<not> late (gs_pool s) now t) (pl_q (gs_pool s)) = pl_q (gs_pool s)"
    by (auto simp: takeExpiredLocked_def filter_empty_conv filter_id_conv)
  with assms True have "p = gs_pool s" by (auto simp: takeExpiredLocked_def)
  with assms True show ?thesis by (simp add: pool_of_def set_gpool_def)
next
  case False
  have "pool_of (set_gpool p s') = hold (image_mset Dead (mset dead)) (set_pool p (pool_of s))"
    using assms by (simp add: pool_of_def set_gpool_def hold_def set_pool_def)
  with pool_step.collect [of "pool_of s" now dead p] assms(1) False show ?thesis by simp
qed

lemma sub_takes:
  assumes "is_sub s i x" and "mset (s_hands y) = mset (s_hands x) + M"
  shows "g_hands (set_sub i y s) = g_hands s + M"
proof -
  from assms(1) sub_hands obtain H where "g_hands s = mset (s_hands x) + H"
    "g_hands (set_sub i y s) = mset (s_hands y) + H" by metis
  with assms(2) show ?thesis by simp
qed

lemma worker_takes:
  assumes "is_worker s i x" and "mset (w_hands y) = mset (w_hands x) + M"
  shows "g_hands (set_worker i y s) = g_hands s + M"
proof -
  from assms(1) worker_hands obtain H where "g_hands s = mset (w_hands x) + H"
    "g_hands (set_worker i y s) = mset (w_hands y) + H" by metis
  with assms(2) show ?thesis by simp
qed

lemma pool_of_accept:
  assumes "g_hands s' = g_hands s - {#h#}" and "gs_answers s' = gs_answers s" and "gs_submitted s' = gs_submitted s"
    and "gs_accepted s' = gs_accepted s" and "gs_taken s' = gs_taken s"
  shows "pool_of (g_accept t p s') = accept t p (let_go h (pool_of s))"
  using assms by (simp add: pool_of_def g_accept_def accept_def let_go_def)

text \<open>What a submitter does to the tasks in its hands: answer one, pass one to the queue, take dead ones.\<close>

lemma sub_answers:
  assumes "is_sub s i x" and "mset (s_hands x) = add_mset h (mset (s_hands y))"
    and "h \<in># ps_hands (pool_of s) \<Longrightarrow> pool_step (pool_of s) (answer t why (set_pool p (let_go h (pool_of s))))"
  shows "pool_step (pool_of s) (pool_of (g_answer t why p (set_sub i y s)))"
  using assms sub_lets_go [OF assms(1,2)] by (simp add: pool_of_sub_answer [OF assms(1,2)])

lemma sub_expires:
  assumes "is_sub s i x" and "mset (s_hands x) = add_mset h (mset (s_hands y))"
    and "h \<in># ps_hands (pool_of s) \<Longrightarrow> pool_step (pool_of s)
      (answer t ReasonDeadlineExceeded (set_pool (pool_expire (ps_pool (pool_of s))) (let_go h (pool_of s))))"
  shows "pool_step (pool_of s) (pool_of (g_expire t (set_sub i y s)))"
  using sub_answers [OF assms(1,2)] assms(3) by (simp add: g_expire_def)

lemma sub_accepts:
  assumes "is_sub s i x" and "mset (s_hands x) = {#h#}" and "Signal (g_accept t p (set_sub i SDone s)) s'"
    and "h \<in># ps_hands (pool_of s) \<Longrightarrow> pool_step (pool_of s) (accept t p (let_go h (pool_of s)))"
  shows "pool_step (pool_of s) (pool_of s')"
  using assms sub_lets_go [OF assms(1), of h SDone] pool_of_Signal [OF assms(3)]
  by (simp add: pool_of_accept [of "set_sub i SDone s" s h t p])

lemma sub_collects:
  assumes "is_sub s i x" and "mset (s_hands y) = mset (s_hands x) + image_mset Dead (mset dead)"
    and "takeExpiredLocked (gs_pool s) now = (dead, p)"
  shows "pool_step (pool_of s) (pool_of (set_gpool p (set_sub i y s))) \<or>
    pool_of (set_gpool p (set_sub i y s)) = pool_of s"
  using sub_takes [OF assms(1,2)] by (intro collect_step [OF assms(3)]) simp_all

lemma sub_waits:
  assumes "is_sub s i (SLock t)"
  shows "Submitting t \<in># ps_hands (pool_of s)"
    and "pool_of (set_sub i (SWait t' False) s) = hold {#Waiting t'#} (let_go (Submitting t) (pool_of s))"
proof -
  have g: "g_hands (set_sub i SDone s) = g_hands s - {#Submitting t#}" "Submitting t \<in># g_hands s"
    using sub_lets_go [OF assms, of "Submitting t" SDone] by simp_all
  have "g_hands (set_sub i (SWait t' False) s) = g_hands (set_sub i SDone s) + {#Waiting t'#}"
    using sub_takes [of i "set_sub i SDone s" SDone "SWait t' False" "{#Waiting t'#}"] assms
    by (simp add: set_sub_def)
  with g show "Submitting t \<in># ps_hands (pool_of s)"
    and "pool_of (set_sub i (SWait t' False) s) = hold {#Waiting t'#} (let_go (Submitting t) (pool_of s))"
    by (simp_all add: pool_of_def hold_def let_go_def)
qed

lemma submit_simulated:
  assumes "submit_step s s'"
  shows "pool_step (pool_of s) (pool_of s') \<or> pool_of s' = pool_of s"
  using assms
proof cases
  case (submit t0 t now)
  have "pool_of s' = hold {#Submitting t#} ((pool_of s)\<lparr>ps_submitted := ps_submitted (pool_of s) @ [t]\<rparr>)"
    by (simp add: submit pool_of_def hold_def g_hands_def)
  with pool_step.arrive [OF submit(2,3), of "pool_of s"] show ?thesis by simp
next
  case (s_late i t now)
  with sub_expires [OF s_late(2), of "Submitting t" SDone t] pool_step.submit_late [of t "pool_of s" now] show ?thesis by simp
next
  case (s_collect i t now dead p)
  with sub_collects [OF s_collect(2), of "SReply dead t"] show ?thesis by simp
next
  case (s_reply i d ds t)
  with sub_expires [OF s_reply(2), of "Dead d" "SReply ds t" d] pool_step.reply_dead [of d "pool_of s"] show ?thesis by simp
next
  case (s_closed i t t')
  with sub_expires [OF s_closed(2), of "Submitting t" SDone t'] pool_step.submit_closed [of t "pool_of s" t'] show ?thesis by simp
next
  case (s_enqueue i t t' p)
  with sub_accepts [OF s_enqueue(1) _ s_enqueue(3), of "Submitting t"] pool_step.submit_enqueue [of t "pool_of s" t' p]
  show ?thesis by simp
next
  case (s_shed i t t')
  with sub_answers [OF s_shed(2), of "Submitting t" SDone] pool_step.submit_shed [of t "pool_of s" t'] show ?thesis by simp
next
  case (s_wait_late i t t' now)
  with sub_expires [OF s_wait_late(2), of "Submitting t" SDone t'] pool_step.submit_wait_late [of t "pool_of s" t' now]
  show ?thesis by simp
next
  case (s_wait i t t' now)
  with sub_waits [OF s_wait(2)] pool_step.submit_wait [of t "pool_of s" t' now] show ?thesis by simp
next
  case (w_dead i t b now dead p)
  with sub_collects [OF w_dead(2), of "SWaitReply dead t b"] show ?thesis by simp
next
  case (w_reply i d ds t b)
  with sub_expires [OF w_reply(2), of "Dead d" "SWaitReply ds t b" d] pool_step.reply_dead [of d "pool_of s"] show ?thesis by simp
next
  case (w_enqueue i t b p)
  with sub_accepts [OF w_enqueue(1) _ w_enqueue(3), of "Waiting t"] pool_step.wait_enqueue [of t "pool_of s" b p]
  show ?thesis by simp
next
  case (w_over i t b)
  with sub_expires [OF w_over(2), of "Waiting t" SDone t] pool_step.wait_over [of t "pool_of s" b] show ?thesis by simp
qed (simp_all add: pool_of_set_sub)

text \<open>The two renderings of \<open>pop\<close> agree.\<close>

lemma pop_try_cases:
  "pop_try p now = PopTask t dead p' \<Longrightarrow> pop_locked p now = (Some t, dead, p')"
  "pop_try p now = PopClosed dead p' \<Longrightarrow> takeExpiredLocked p now = (dead, p') \<and> pl_q p' = [] \<and> pl_closed p"
  "pop_try p now = PopDead dead p' \<Longrightarrow>
     takeExpiredLocked p now = (dead, p') \<and> pl_q p' = [] \<and> \<not> pl_closed p \<and> dead \<noteq> []"
  "pop_try p now = PopWait \<Longrightarrow> pl_q p = [] \<and> \<not> pl_closed p"
  by (auto simp: pop_try_def pop_locked_def takeExpiredLocked_def split: list.splits if_splits)
    (auto simp: filter_empty_conv)

lemma work_simulated:
  assumes "work_step s s'"
  shows "pool_step (pool_of s) (pool_of s') \<or> pool_of s' = pool_of s"
  using assms
proof cases
  case (pop_task i now t dead p)
  have "g_hands (set_worker i (WReply dead (GotTask t)) s) = g_hands s + (image_mset Dead (mset dead) + {#Popped t#})"
    using worker_takes [of i s WPop "WReply dead (GotTask t)"] pop_task by simp
  then have "pool_of s' = hold (image_mset Dead (mset dead) + {#Popped t#})
      (set_pool p ((pool_of s)\<lparr>ps_taken := ps_taken (pool_of s) @ [t]\<rparr>))"
    unfolding pop_task(1) pool_of_Broadcast
    by (simp add: pool_of_def hold_def set_pool_def set_gpool_def set_worker_def g_hands_def)
  with pool_step.pop [of "pool_of s" now t dead p] pop_try_cases(1) [OF pop_task(3)] show ?thesis by simp
next
  case (pop_closed i now dead p)
  then show ?thesis using collect_step [of s now dead p "set_worker i (WReply dead GotStop) s"]
      worker_takes [of i s WPop "WReply dead GotStop" "image_mset Dead (mset dead)"]
      pop_try_cases(2) [OF pop_closed(3)] by simp
next
  case (pop_dead i now dead p)
  then show ?thesis using collect_step [of s now dead p "set_worker i (WReply dead GotNothing) s"]
      worker_takes [of i s WPop "WReply dead GotNothing" "image_mset Dead (mset dead)"]
      pop_try_cases(3) [OF pop_dead(3)] by simp
next
  case (pop_wait i now)
  then show ?thesis using pool_of_set_worker [of i s WSleep] by simp
next
  case (reply i d ds r)
  with pool_of_worker_answer [of i s "WReply (d # ds) r" "Dead d" "WReply ds r"]
    worker_lets_go [of i s "WReply (d # ds) r" "Dead d" "WReply ds r"]
    pool_step.reply_dead [of d "pool_of s"] show ?thesis by (cases r) (simp_all add: g_expire_def)
next
  case (replied i r)
  then show ?thesis using pool_of_set_worker [of i s "after_reply r"]
    by (cases r) simp_all
next
  case (run i t now left shed p)
  with pool_of_worker_answer [of i s "WRun t" "Popped t" WPop]
    worker_lets_go [of i s "WRun t" "Popped t" WPop]
    pool_step.work [of t "pool_of s" now left shed p] show ?thesis by simp
qed

lemma sweep_simulated:
  assumes "sweep_step s s'"
  shows "pool_step (pool_of s) (pool_of s') \<or> pool_of s' = pool_of s"
  using assms
proof cases
  case (tick now dead p)
  then show ?thesis using collect_step [of s now dead p "s\<lparr>gs_sweep := SwReply dead\<rparr>"]
    by (simp add: g_hands_def)
next
  case (sw_reply d ds)
  have "pool_of s' = answer d ReasonDeadlineExceeded (set_pool (pool_expire (gs_pool s)) (let_go (Dead d) (pool_of s)))"
    using sw_reply by (simp add: g_expire_def pool_of_answer g_hands_def)
  moreover have "Dead d \<in># g_hands s" using sw_reply(2) by (simp add: g_hands_def)
  ultimately show ?thesis using pool_step.reply_dead [of d "pool_of s"] by simp
qed (simp_all add: pool_of_def g_hands_def)

lemma close_simulated:
  assumes "close_step s s'"
  shows "pool_step (pool_of s) (pool_of s') \<or> pool_of s' = pool_of s"
  using assms
proof cases
  case close
  have "pool_of s' = set_pool ((ps_pool (pool_of s))\<lparr>pl_closed := True\<rparr>) (pool_of s)"
    unfolding close(1) pool_of_Broadcast by (simp add: pool_of_def set_pool_def set_gpool_def g_hands_def)
  with pool_step.close [of "pool_of s"] show ?thesis by simp
qed (simp_all add: pool_of_def)

lemma go_step_simulated: "go_step s s' \<Longrightarrow> pool_step (pool_of s) (pool_of s') \<or> pool_of s' = pool_of s"
  unfolding go_step_def using submit_simulated work_simulated sweep_simulated close_simulated by blast

lemma pool_of_start: "pool_of (go_start n p) = start p"
  by (simp add: pool_of_def go_start_def start_def g_hands_def)

lemma go_reach_simulated: "go_reach s0 s \<Longrightarrow> pool_reach (pool_of s0) (pool_of s)"
proof (induction rule: go_reach.induct)
  case (step s s')
  then show ?case using go_step_simulated pool_reach.next_step by metis
qed (rule pool_reach.init)

subsection \<open>No wake-up is lost\<close>

text \<open>
  A worker sleeps only while every queued task has a worker that is about to look at the queue; a
  submitter sleeps only while the queue is full; nobody sleeps once the queue is closed.
\<close>

definition rested :: "gsys \<Rightarrow> bool" where
  "rested s \<longleftrightarrow>
     (WSleep \<in> set (gs_workers s) \<longrightarrow>
        length (pl_q (gs_pool s)) \<le> count (mset (gs_workers s)) WPop \<and> \<not> pl_closed (gs_pool s)) \<and>
     ((\<exists>x \<in> set (gs_subs s). sub_asleep x) \<longrightarrow>
        pl_depth (gs_pool s) \<le> length (pl_q (gs_pool s)) \<and> \<not> pl_closed (gs_pool s))"

lemma nobody_asleep [simp]:
  "WSleep \<notin> set (gs_workers (Broadcast s))" "x \<in> set (gs_subs (Broadcast s)) \<Longrightarrow> \<not> sub_asleep x"
proof -
  have "WSleep \<noteq> wake_worker w" for w by (simp add: wake_worker_def)
  then show "WSleep \<notin> set (gs_workers (Broadcast s))" by (auto simp: Broadcast_def)
  have "\<not> sub_asleep (wake_sub y)" for y by (cases y) (simp_all add: sub_asleep_def)
  then show "x \<in> set (gs_subs (Broadcast s)) \<Longrightarrow> \<not> sub_asleep x" by (auto simp: Broadcast_def)
qed

lemma rested_Broadcast [simp]: "rested (Broadcast s)"
  using nobody_asleep by (auto simp: rested_def)

lemma rested_broadcast_if: "(\<not> b \<Longrightarrow> rested s) \<Longrightarrow> rested (broadcast_if b s)"
  by (simp add: broadcast_if_def)

text \<open>The fields the sections leave alone.\<close>

lemma pool_keeps [simp]:
  "pl_q (pool_expire p) = pl_q p" "pl_depth (pool_expire p) = pl_depth p" "pl_closed (pool_expire p) = pl_closed p"
  "pl_q (shedLimit p) = pl_q p" "pl_depth (shedLimit p) = pl_depth p" "pl_closed (shedLimit p) = pl_closed p"
  by (simp_all add: pool_expire_def shedLimit_def)

lemma rested_pool:
  assumes "rested s" and "pl_q p = pl_q (gs_pool s)" and "pl_depth p = pl_depth (gs_pool s)"
    and "pl_closed p = pl_closed (gs_pool s)"
  shows "rested (g_answer t why p s)" "rested (set_gpool p s)"
  using assms by (simp_all add: rested_def g_answer_def set_gpool_def)

lemma rested_expire: "rested s \<Longrightarrow> rested (g_expire t s)"
  unfolding g_expire_def by (rule rested_pool) simp_all

lemma rested_set_sub: "rested s \<Longrightarrow> \<not> sub_asleep x \<Longrightarrow> rested (set_sub i x s)"
  using set_update_subset_insert [of "gs_subs s" i x] by (auto simp: rested_def set_sub_def)

lemma count_set_worker:
  assumes "i < length ws"
  shows "count (mset (ws[i := w])) WPop + (if ws ! i = WPop then 1 else 0) =
    count (mset ws) WPop + (if w = WPop then 1 else 0)"
proof -
  from assms obtain M where "mset ws = add_mset (ws ! i) M" by (metis multi_member_split nth_mem_mset)
  then show ?thesis using assms by (simp add: mset_update)
qed

lemma rested_set_worker:
  assumes "rested s" and "is_worker s i v" and "v \<noteq> WPop" and "w \<noteq> WSleep"
  shows "rested (set_worker i w s)"
proof -
  have "WSleep \<in> set (gs_workers (set_worker i w s)) \<Longrightarrow> WSleep \<in> set (gs_workers s)"
    using set_update_subset_insert [of "gs_workers s" i w] assms(4) by (auto simp: set_worker_def)
  moreover have "count (mset (gs_workers s)) WPop \<le> count (mset (gs_workers (set_worker i w s))) WPop"
    using count_set_worker [of i "gs_workers s" w] assms(2,3) by (simp add: set_worker_def)
  ultimately show ?thesis using assms(1) by (auto simp: rested_def set_worker_def)
qed

lemma expired_nothing:
  assumes "takeExpiredLocked p now = ([], p')"
  shows "p' = p"
proof -
  from assms have "filter (\<lambda>t. \<not> late p now t) (pl_q p) = pl_q p"
    by (auto simp: takeExpiredLocked_def filter_empty_conv filter_id_conv)
  with assms show ?thesis by (simp add: takeExpiredLocked_def)
qed

text \<open>The one signal of an accepted task wakes a worker if one sleeps: no submitter sleeps then.\<close>

lemma rested_accept:
  assumes "rested s" and "pl_q p = pl_q (gs_pool s) @ [t]" and "pl_depth p = pl_depth (gs_pool s)"
    and "pl_closed p = pl_closed (gs_pool s)" and "length (pl_q (gs_pool s)) < pl_depth (gs_pool s)"
    and "Signal (g_accept t p s) s'"
  shows "rested s'"
  using assms(6)
proof cases
  case (a_worker i)
  have "count (mset ((gs_workers s)[i := WPop])) WPop = Suc (count (mset (gs_workers s)) WPop)"
    using count_set_worker [of i "gs_workers s" WPop] a_worker by (simp add: g_accept_def)
  moreover have "WSleep \<in> set (gs_workers s)" using a_worker(2,3) by (auto simp: g_accept_def dest: nth_mem)
  ultimately show ?thesis using assms(1-5) a_worker(1) by (auto simp: rested_def g_accept_def)
next
  case (a_sub i)
  then have "\<exists>x \<in> set (gs_subs s). sub_asleep x" by (auto simp: g_accept_def)
  with assms(1,5) show ?thesis by (auto simp: rested_def)
next
  case nobody
  then show ?thesis by (simp add: rested_def g_accept_def)
qed

lemma rested_submit:
  assumes "submit_step s s'" and "rested s"
  shows "rested s'"
  using assms(1)
proof cases
  case (submit t0 t now)
  with assms(2) show ?thesis by (auto simp: rested_def sub_asleep_def)
next
  case (s_collect i t now dead p)
  then show ?thesis
    using assms(2) expired_nothing [of "gs_pool s" now p]
    by (auto intro!: rested_broadcast_if rested_pool rested_set_sub simp: sub_asleep_def)
next
  case (s_enqueue i t t' p)
  show ?thesis
    by (rule rested_accept [OF _ _ _ _ _ s_enqueue(3)])
      (use submit_enqueued [OF s_enqueue(2)] assms(2) in
        \<open>simp_all add: enqueueLocked_def rested_set_sub sub_asleep_def\<close>)
next
  case (w_enqueue i t b p)
  show ?thesis
    by (rule rested_accept [OF _ _ _ _ _ w_enqueue(3)])
      (use wait_enqueued [OF w_enqueue(2)] assms(2) in
        \<open>simp_all add: enqueueLocked_def rested_set_sub sub_asleep_def\<close>)
next
  case (w_sleep i t b now p)
  have "pl_depth (gs_pool s) \<le> length (pl_q (gs_pool s)) \<and> \<not> pl_closed (gs_pool s)"
    using w_sleep(3) by (auto simp: wait_locked_def split: if_splits)
  with assms(2) w_sleep(1) show ?thesis by (simp add: rested_def set_sub_def)
qed (use assms(2) in \<open>auto intro!: rested_expire rested_pool rested_set_sub simp: sub_asleep_def\<close>)

lemma rested_work:
  assumes "work_step s s'" and "rested s"
  shows "rested s'"
  using assms(1)
proof cases
  case (pop_closed i now dead p)
  have c: "takeExpiredLocked (gs_pool s) now = (dead, p)" "pl_closed (gs_pool s)"
    using pop_try_cases(2) [OF pop_closed(3)] by simp_all
  then have "pl_closed p" by (auto simp: takeExpiredLocked_def)
  moreover have "WSleep \<notin> set ((gs_workers s)[i := WReply dead GotStop])"
    using c(2) assms(2) set_update_subset_insert [of "gs_workers s" i "WReply dead GotStop"]
    by (auto simp: rested_def)
  ultimately have "rested (set_gpool p (set_worker i (WReply dead GotStop) s))"
    using c(2) assms(2) by (auto simp: rested_def set_gpool_def set_worker_def)
  then show ?thesis by (simp add: pop_closed rested_broadcast_if)
next
  case (pop_wait i now)
  with assms(2) pop_try_cases(4) [OF pop_wait(3)] show ?thesis by (auto simp: rested_def set_worker_def)
next
  case (run i t now left shed p)
  then have "pl_q p = pl_q (gs_pool s)" "pl_depth p = pl_depth (gs_pool s)" "pl_closed p = pl_closed (gs_pool s)"
    by (auto simp: pool_budget_def Let_def split: if_splits)
  with run assms(2) rested_set_worker [of s i "WRun t" WPop] show ?thesis by (auto intro: rested_pool)
next
  case (reply i d ds r)
  with assms(2) rested_set_worker [of s i "WReply (d # ds) r"] show ?thesis by (auto intro: rested_expire)
next
  case (replied i r)
  moreover have "after_reply r \<noteq> WSleep" by (cases r) simp_all
  ultimately show ?thesis using assms(2) rested_set_worker [of s i "WReply [] r"] by auto
qed simp_all

lemma rested_other: "rested s \<Longrightarrow> rested (s\<lparr>gs_sweep := x\<rparr>)" "rested s \<Longrightarrow> rested (s\<lparr>gs_close := c\<rparr>)"
  by (simp_all add: rested_def)

lemma rested_sweep:
  assumes "sweep_step s s'" and "rested s"
  shows "rested s'"
  using assms(1)
proof cases
  case (tick now dead p)
  with assms(2) expired_nothing [of "gs_pool s" now p] show ?thesis
    by (auto intro!: rested_broadcast_if rested_pool rested_other)
qed (use assms(2) in \<open>auto intro!: rested_expire rested_other\<close>)

lemma rested_close: "close_step s s' \<Longrightarrow> rested s \<Longrightarrow> rested s'"
  by (induction rule: close_step.induct) (auto intro!: rested_other)

lemma rested_reach: "go_reach (go_start n p) s \<Longrightarrow> rested s"
proof (induction rule: go_reach.induct)
  case init
  then show ?case by (simp add: rested_def go_start_def)
next
  case (step s s')
  then show ?case unfolding go_step_def using rested_submit rested_work rested_sweep rested_close by blast
qed

subsection \<open>Closing\<close>

text \<open>What a step does to the workers of others: it may wake them.\<close>

definition woken :: "wstate list \<Rightarrow> wstate list \<Rightarrow> bool" where
  "woken = list_all2 (\<lambda>w w'. w' = w \<or> w = WSleep \<and> w' = WPop)"

lemma woken_refl [simp]: "woken ws ws"
  by (simp add: woken_def list_all2_refl)

lemma woken_Broadcast [simp]: "woken ws (map wake_worker ws)"
  by (simp add: woken_def list_all2_conv_all_nth wake_worker_def)

lemma Signal_frame:
  assumes "Signal s s'"
  shows "woken (gs_workers s) (gs_workers s') \<and> gs_sweep s' = gs_sweep s \<and> gs_close s' = gs_close s \<and>
    gs_pool s' = gs_pool s"
  using assms
proof cases
  case (a_worker i)
  then show ?thesis by (auto simp: woken_def list_all2_conv_all_nth nth_list_update)
qed simp_all

text \<open>Once the queue is closed, nothing but the workers themselves moves the workers on, and nothing grows.\<close>

definition others_frame :: "gsys \<Rightarrow> gsys \<Rightarrow> bool" where
  "others_frame s s' \<longleftrightarrow> woken (gs_workers s) (gs_workers s') \<and> gs_close s' = gs_close s \<and>
     pl_closed (gs_pool s') = pl_closed (gs_pool s) \<and>
     (pl_closed (gs_pool s) \<longrightarrow> length (pl_q (gs_pool s')) \<le> length (pl_q (gs_pool s)))"

lemma expired_shrinks:
  "takeExpiredLocked p now = (dead, p') \<Longrightarrow>
     length (pl_q p) = length dead + length (pl_q p') \<and> pl_closed p' = pl_closed p"
  using sum_length_filter_compl [of "late p now" "pl_q p"] by (auto simp: takeExpiredLocked_def)

lemma submit_frame:
  assumes "submit_step s s'"
  shows "others_frame s s' \<and> gs_sweep s' = gs_sweep s"
  using assms
proof cases
  case (s_enqueue i t t' p)
  then have "\<not> pl_closed (gs_pool s)" "p = enqueueLocked t' (gs_pool s)"
    by (auto simp: submit_locked_def Let_def split: if_splits)
  with Signal_frame [OF s_enqueue(3)] show ?thesis
    by (simp add: others_frame_def g_accept_def set_sub_def enqueueLocked_def)
next
  case (w_enqueue i t b p)
  then have "\<not> pl_closed (gs_pool s)" "p = enqueueLocked t (gs_pool s)"
    by (auto simp: wait_locked_def split: if_splits)
  with Signal_frame [OF w_enqueue(3)] show ?thesis
    by (simp add: others_frame_def g_accept_def set_sub_def enqueueLocked_def)
next
  case (s_collect i t now dead p)
  with expired_shrinks [OF s_collect(3)] show ?thesis by (simp add: others_frame_def g_defs)
next
  case (w_dead i t b now dead p)
  with expired_shrinks [OF w_dead(4)] show ?thesis by (simp add: others_frame_def g_defs)
qed (simp_all add: others_frame_def g_defs)

lemma sweep_frame:
  assumes "sweep_step s s'"
  shows "others_frame s s'"
  using assms
proof cases
  case (tick now dead p)
  with expired_shrinks [OF tick(3)] show ?thesis by (simp add: others_frame_def g_defs)
qed (simp_all add: others_frame_def g_defs)

text \<open>The rounds a worker has before it, and the work that keeps \<open>Close\<close> waiting.\<close>

fun w_left :: "wstate \<Rightarrow> nat" where
  "w_left WPop = 2"
| "w_left WSleep = 3"
| "w_left (WReply ds (GotTask t)) = 4 + length ds"
| "w_left (WReply ds GotNothing) = 3 + length ds"
| "w_left (WReply ds GotStop) = 1 + length ds"
| "w_left (WRun t) = 3"
| "w_left WExit = 0"

fun sw_left :: "sweeper \<Rightarrow> nat" where
  "sw_left SwIdle = 1"
| "sw_left (SwReply ds) = 2 + length ds"
| "sw_left SwExit = 0"

definition workers_left :: "gsys \<Rightarrow> nat" where
  "workers_left s = 3 * length (pl_q (gs_pool s)) + sum_list (map w_left (gs_workers s))"

definition close_left :: "gsys \<Rightarrow> nat" where
  "close_left s = workers_left s + sw_left (gs_sweep s)"

lemma woken_left: "woken ws ws' \<Longrightarrow> sum_list (map w_left ws') \<le> sum_list (map w_left ws)"
  unfolding woken_def by (induction rule: list_all2_induct) auto

lemma frame_left: "others_frame s s' \<Longrightarrow> pl_closed (gs_pool s) \<Longrightarrow> workers_left s' \<le> workers_left s"
  using woken_left [of "gs_workers s" "gs_workers s'"] by (simp add: others_frame_def workers_left_def)

lemma left_update:
  fixes f :: "'a \<Rightarrow> nat"
  assumes "i < length xs"
  shows "sum_list (map f (xs[i := x])) + f (xs ! i) = sum_list (map f xs) + f x"
proof -
  have "sum_list (map f xs) = f (xs ! i) + sum_list (map f (take i xs @ List.drop (Suc i) xs))"
    by (subst id_take_nth_drop [OF assms]) simp
  then show ?thesis using assms by (simp add: upd_conv_take_nth_drop)
qed

lemmas left_set_worker = left_update [of _ _ w_left]

lemma left_Broadcast: "workers_left (Broadcast s) \<le> workers_left s" "workers_left (broadcast_if b s) \<le> workers_left s"
  using woken_left [OF woken_Broadcast, of "gs_workers s"]
  by (simp_all add: workers_left_def Broadcast_def broadcast_if_def)

lemma work_less:
  assumes "work_step s s'" and "pl_closed (gs_pool s)"
  shows "workers_left s' < workers_left s"
  using assms(1)
proof cases
  case (pop_task i now t dead p)
  from pop_try_cases(1) [OF pop_task(3)] obtain ts where ts: "p = (gs_pool s)\<lparr>pl_q := ts\<rparr>"
    "mset (pl_q (gs_pool s)) = mset dead + add_mset t (mset ts)" by (rule pop_locked_Some)
  from arg_cong [OF ts(2), of size] ts(1)
  have "length (pl_q (gs_pool s)) = length dead + Suc (length (pl_q p))" by simp
  with left_set_worker [of i "gs_workers s" "WReply dead (GotTask t)"] pop_task(2)
  have "workers_left (set_gpool p (set_worker i (WReply dead (GotTask t)) (s\<lparr>gs_taken := gs_taken s @ [t]\<rparr>)))
      < workers_left s"
    by (simp add: workers_left_def set_gpool_def set_worker_def)
  with left_Broadcast(1) show ?thesis unfolding pop_task(1) by (rule le_less_trans)
next
  case (pop_closed i now dead p)
  with left_set_worker [of i "gs_workers s" "WReply dead GotStop"]
    pop_try_cases(2) [OF pop_closed(3)] expired_shrinks [of "gs_pool s" now dead p]
  have "workers_left (set_gpool p (set_worker i (WReply dead GotStop) s)) < workers_left s"
    by (simp add: workers_left_def set_gpool_def set_worker_def)
  with left_Broadcast(2) show ?thesis unfolding pop_closed(1) by (rule le_less_trans)
next
  case (pop_dead i now dead p)
  with assms(2) pop_try_cases(3) [OF pop_dead(3)] show ?thesis by simp
next
  case (pop_wait i now)
  with assms(2) pop_try_cases(4) [OF pop_wait(3)] show ?thesis by simp
next
  case (reply i d ds r)
  with left_set_worker [of i "gs_workers s" "WReply ds r"] show ?thesis
    by (cases r) (simp_all add: workers_left_def g_defs)
next
  case (replied i r)
  with left_set_worker [of i "gs_workers s" "after_reply r"] show ?thesis
    by (cases r) (simp_all add: workers_left_def set_worker_def)
next
  case (run i t now left shed p)
  then have "pl_q p = pl_q (gs_pool s)" by (auto simp: pool_budget_def Let_def split: if_splits)
  with run left_set_worker [of i "gs_workers s" WPop] show ?thesis
    by (simp add: workers_left_def g_defs)
qed

text \<open>How far \<open>Close\<close> is, and what a worker that leaves has seen.\<close>

fun stopped :: "wstate \<Rightarrow> bool" where
  "stopped WExit = True"
| "stopped (WReply ds GotStop) = True"
| "stopped w = False"

definition closing_ok :: "gsys \<Rightarrow> bool" where
  "closing_ok s \<longleftrightarrow>
     (pl_closed (gs_pool s) \<longleftrightarrow> gs_close s = CloseWaits \<or> gs_close s = CloseDone) \<and>
     ((\<exists>w \<in> set (gs_workers s). stopped w) \<longrightarrow> pl_closed (gs_pool s) \<and> pl_q (gs_pool s) = [])"

lemma woken_stopped: "woken ws ws' \<Longrightarrow> (\<exists>w \<in> set ws'. stopped w) \<longleftrightarrow> (\<exists>w \<in> set ws. stopped w)"
  unfolding woken_def by (induction rule: list_all2_induct) auto

lemma frame_closing:
  assumes "others_frame s s'" and "closing_ok s"
  shows "closing_ok s'"
  using assms woken_stopped [of "gs_workers s" "gs_workers s'"] by (auto simp: closing_ok_def others_frame_def)

lemma stopped_set_worker:
  "(\<exists>w \<in> set (ws[i := v]). stopped w) \<Longrightarrow> \<not> stopped v \<Longrightarrow> \<exists>w \<in> set ws. stopped w"
  using set_update_subset_insert [of ws i v] by auto

lemma closing_set_worker: "closing_ok s \<Longrightarrow> \<not> stopped w \<Longrightarrow> closing_ok (set_worker i w s)"
  unfolding closing_ok_def set_worker_def using stopped_set_worker by fastforce

lemma closing_Broadcast: "closing_ok (Broadcast s) = closing_ok s" "closing_ok (broadcast_if b s) = closing_ok s"
  using woken_stopped [OF woken_Broadcast, of "gs_workers s"]
  by (simp_all add: closing_ok_def Broadcast_def broadcast_if_def)

lemma closing_answer:
  "closing_ok s \<Longrightarrow> pl_q p = pl_q (gs_pool s) \<Longrightarrow> pl_closed p = pl_closed (gs_pool s) \<Longrightarrow>
     closing_ok (g_answer t why p s)"
  by (auto simp: closing_ok_def g_answer_def)

lemma stopped_seen: "closing_ok s \<Longrightarrow> w \<in> set (gs_workers s) \<Longrightarrow> stopped w \<Longrightarrow>
    pl_closed (gs_pool s) \<and> pl_q (gs_pool s) = []"
  by (auto simp: closing_ok_def)

lemma closing_work:
  assumes "work_step s s'" and "closing_ok s"
  shows "closing_ok s'"
  using assms(1)
proof cases
  case (pop_task i now t dead p)
  from pop_try_cases(1) [OF pop_task(3)] obtain ts where ts: "p = (gs_pool s)\<lparr>pl_q := ts\<rparr>"
    "mset (pl_q (gs_pool s)) = mset dead + add_mset t (mset ts)" by (rule pop_locked_Some)
  from ts(2) have "pl_q (gs_pool s) \<noteq> []" by auto
  with assms(2) have "\<not> (\<exists>w \<in> set (gs_workers s). stopped w)" by (auto simp: closing_ok_def)
  with stopped_set_worker [of "gs_workers s" i "WReply dead (GotTask t)"] assms(2) ts(1) show ?thesis
    unfolding pop_task(1) closing_Broadcast by (auto simp: closing_ok_def set_gpool_def set_worker_def)
next
  case (pop_closed i now dead p)
  with pop_try_cases(2) [OF pop_closed(3)] expired_shrinks [of "gs_pool s" now dead p] assms(2) show ?thesis
    unfolding pop_closed(1) closing_Broadcast by (auto simp: closing_ok_def set_gpool_def set_worker_def)
next
  case (pop_dead i now dead p)
  with pop_try_cases(3) [OF pop_dead(3)] expired_shrinks [of "gs_pool s" now dead p] assms(2)
    stopped_set_worker [of "gs_workers s" i "WReply dead GotNothing"]
  show ?thesis
    unfolding pop_dead(1) closing_Broadcast by (auto simp: closing_ok_def set_gpool_def set_worker_def)
next
  case (pop_wait i now)
  with assms(2) show ?thesis by (simp add: closing_set_worker)
next
  case (run i t now left shed p)
  then have "pl_q p = pl_q (gs_pool s)" "pl_closed p = pl_closed (gs_pool s)"
    by (auto simp: pool_budget_def Let_def split: if_splits)
  with run assms(2) show ?thesis by (simp add: closing_set_worker closing_answer)
next
  case (reply i d ds r)
  then have "WReply (d # ds) r \<in> set (gs_workers s)" by (metis nth_mem)
  then have "stopped (WReply ds r) \<Longrightarrow> pl_closed (gs_pool s) \<and> pl_q (gs_pool s) = []"
    using stopped_seen [OF assms(2)] by (cases r) fastforce+
  with assms(2) stopped_set_worker [of "gs_workers s" i "WReply ds r"] show ?thesis
    by (auto simp: reply(1) closing_ok_def g_defs)
next
  case (replied i r)
  then have "WReply [] r \<in> set (gs_workers s)" by (metis nth_mem)
  then have "stopped (after_reply r) \<Longrightarrow> pl_closed (gs_pool s) \<and> pl_q (gs_pool s) = []"
    using stopped_seen [OF assms(2)] by (cases r) fastforce+
  with assms(2) stopped_set_worker [of "gs_workers s" i "after_reply r"] show ?thesis
    by (auto simp: replied(1) closing_ok_def g_defs)
qed

lemma closing_close:
  assumes "close_step s s'" and "closing_ok s"
  shows "closing_ok s'"
  using assms(1)
proof cases
  case close
  show ?thesis using assms(2) close(2)
    unfolding close(1) closing_Broadcast by (auto simp: closing_ok_def set_gpool_def)
qed (use assms(2) in \<open>auto simp: closing_ok_def\<close>)

lemma closing_reach: "go_reach (go_start n p) s \<Longrightarrow> \<not> pl_closed p \<Longrightarrow> closing_ok s"
proof (induction rule: go_reach.induct)
  case init
  then show ?case by (simp add: closing_ok_def go_start_def)
next
  case (step s s')
  then show ?case unfolding go_step_def
    using closing_work closing_close frame_closing submit_frame sweep_frame by blast
qed

text \<open>Somebody moves while a task is queued or \<open>Close\<close> waits.\<close>

lemma worker_moves:
  assumes "is_worker s i w" and "w \<noteq> WExit" and "w \<noteq> WSleep" and "pl_closed (gs_pool s) \<or> pl_q (gs_pool s) \<noteq> []"
  shows "\<exists>s'. work_step s s'"
proof (cases w)
  case WPop
  show ?thesis
  proof (cases "pop_try (gs_pool s) 0")
    case (PopTask t dead p)
    then show ?thesis using assms(1) WPop work_step.pop_task by blast
  next
    case (PopClosed dead p)
    then show ?thesis using assms(1) WPop work_step.pop_closed by blast
  next
    case (PopDead dead p)
    then show ?thesis using assms(1) WPop work_step.pop_dead by blast
  qed (use assms(4) pop_try_cases(4) in auto)
next
  case (WReply ds r)
  then show ?thesis using assms(1) work_step.reply work_step.replied by (cases ds) blast+
next
  case (WRun t)
  obtain l w p where "pool_budget (gs_pool s) t 0 = ((l, w), p)" by (metis prod.exhaust)
  then show ?thesis using assms(1) WRun work_step.run by blast
qed (use assms in simp_all)

lemma work_keeps_sweep: "work_step s s' \<Longrightarrow> gs_sweep s' = gs_sweep s \<and> gs_close s' = gs_close s"
  by (induction rule: work_step.induct) (simp_all add: g_defs)

lemma sweeper_moves:
  assumes "gs_sweep s \<noteq> SwExit" and "gs_close s \<noteq> CloseNot"
  shows "\<exists>s'. sweep_step s s' \<and> close_left s' < close_left s"
proof (cases "gs_sweep s")
  case SwIdle
  with assms(2) sweep_step.sw_stop [of s] show ?thesis by (auto simp: close_left_def workers_left_def)
next
  case (SwReply ds)
  show ?thesis
  proof (cases ds)
    case Nil
    with SwReply sweep_step.sw_replied [of s] show ?thesis by (auto simp: close_left_def workers_left_def)
  next
    case (Cons d rest)
    with SwReply sweep_step.sw_reply [of s d rest]
    have "sweep_step s (g_expire d (s\<lparr>gs_sweep := SwReply rest\<rparr>))" by simp
    moreover have "close_left (g_expire d (s\<lparr>gs_sweep := SwReply rest\<rparr>)) < close_left s"
      using SwReply Cons by (simp add: close_left_def workers_left_def g_defs)
    ultimately show ?thesis by blast
  qed
qed (use assms in simp)

lemma closing_moves:
  assumes "closing_ok s" and "rested s" and "gs_close s = CloseWaits" and "\<not> all_gone s"
  shows "\<exists>s'. (work_step s s' \<or> sweep_step s s') \<and> close_left s' < close_left s"
proof (cases "gs_sweep s = SwExit")
  case True
  have closed: "pl_closed (gs_pool s)" using assms(1,3) by (simp add: closing_ok_def)
  from True assms(4) obtain i where "i < length (gs_workers s)" "gs_workers s ! i \<noteq> WExit"
    by (auto simp: all_gone_def in_set_conv_nth)
  moreover from this have "gs_workers s ! i \<noteq> WSleep"
    using assms(2) closed by (metis nth_mem rested_def)
  ultimately obtain s' where "work_step s s'" using worker_moves closed by blast
  with work_less closed work_keeps_sweep show ?thesis by (fastforce simp: close_left_def)
next
  case False
  with assms(3) sweeper_moves [of s] show ?thesis by auto
qed

lemma queue_served:
  assumes "closing_ok s" and "rested s" and "gs_workers s \<noteq> []" and "pl_q (gs_pool s) \<noteq> []"
  shows "\<exists>s'. work_step s s'"
proof (cases "WSleep \<in> set (gs_workers s)")
  case True
  moreover have "0 < length (pl_q (gs_pool s))" using assms(4) by simp
  ultimately have "0 < count (mset (gs_workers s)) WPop"
    using assms(2) unfolding rested_def by (meson less_le_trans)
  then obtain i where "i < length (gs_workers s)" "gs_workers s ! i = WPop" by (auto simp: in_set_conv_nth)
  with assms(4) worker_moves [of i s WPop] show ?thesis by simp
next
  case False
  from assms(3) have w: "0 < length (gs_workers s)" "gs_workers s ! 0 \<in> set (gs_workers s)" by simp_all
  then have "gs_workers s ! 0 \<noteq> WExit" using stopped_seen [OF assms(1) w(2)] assms(4) by auto
  moreover have "gs_workers s ! 0 \<noteq> WSleep" using w(2) False by metis
  ultimately show ?thesis using w(1) assms(4) worker_moves [of 0 s "gs_workers s ! 0"] by simp
qed

lemma go_reach_trans: "go_reach b c \<Longrightarrow> go_reach a b \<Longrightarrow> go_reach a c"
  by (induction rule: go_reach.induct) (auto intro: go_reach.step)

lemma close_reaches:
  assumes "closing_ok s" and "rested s" and "gs_close s = CloseWaits"
  shows "\<exists>s'. go_reach s s' \<and> gs_close s' = CloseDone"
  using assms
proof (induction "close_left s" arbitrary: s rule: less_induct)
  case less
  show ?case
  proof (cases "all_gone s")
    case True
    with less.prems close_step.returns [of s] go_reach.step [OF go_reach.init] show ?thesis
      by (fastforce simp: go_step_def)
  next
    case False
    with less.prems closing_moves obtain s1 where s1: "work_step s s1 \<or> sweep_step s s1" "close_left s1 < close_left s"
      by blast
    then have "closing_ok s1" "rested s1" "gs_close s1 = CloseWaits"
      using less.prems closing_work frame_closing sweep_frame rested_work rested_sweep work_keeps_sweep
      by (blast, blast, metis others_frame_def)
    with less.hyps [OF s1(2)] obtain s2 where "go_reach s1 s2" "gs_close s2 = CloseDone" by blast
    moreover have "go_reach s s1" using s1(1) go_reach.step [OF go_reach.init] by (auto simp: go_step_def)
    ultimately show ?thesis using go_reach_trans by blast
  qed
qed

text \<open>When \<open>Close\<close> has returned the workers and the sweeper are gone for good.\<close>

lemma woken_gone: "woken ws ws' \<Longrightarrow> \<forall>w \<in> set ws. w = WExit \<Longrightarrow> \<forall>w \<in> set ws'. w = WExit"
  unfolding woken_def by (induction rule: list_all2_induct) auto

lemma no_work_when_gone: "all_gone s \<Longrightarrow> \<not> work_step s s' \<and> \<not> sweep_step s s'"
proof -
  assume "all_gone s"
  then have "i < length (gs_workers s) \<Longrightarrow> gs_workers s ! i = WExit" and "gs_sweep s = SwExit" for i
    by (simp_all add: all_gone_def)
  then show ?thesis by (auto elim!: work_step.cases sweep_step.cases)
qed

lemma gone_stays:
  assumes "go_step s s'" and "gs_close s = CloseDone" and "all_gone s"
  shows "all_gone s' \<and> gs_close s' = CloseDone"
proof -
  have "\<not> close_step s s'" using assms(2) by (auto elim: close_step.cases)
  with assms no_work_when_gone have "submit_step s s'" by (auto simp: go_step_def)
  from submit_frame [OF this] assms(2,3) woken_gone show ?thesis by (auto simp: others_frame_def all_gone_def)
qed

lemma done_reach: "go_reach (go_start n p) s \<Longrightarrow> gs_close s = CloseDone \<longrightarrow> all_gone s"
proof (induction rule: go_reach.induct)
  case init
  then show ?case by (simp add: go_start_def)
next
  case (step s s')
  show ?case
  proof (cases "gs_close s = CloseDone")
    case True
    with step gone_stays show ?thesis by blast
  next
    case False
    have "gs_close s' = CloseDone \<Longrightarrow> close_step s s'"
      using step.hyps(2) False submit_frame sweep_frame work_keeps_sweep
      unfolding go_step_def others_frame_def by metis
    with False show ?thesis by (auto elim!: close_step.cases simp: all_gone_def g_defs)
  qed
qed

lemma woken_length: "woken ws ws' \<Longrightarrow> length ws' = length ws"
  by (simp add: woken_def list_all2_lengthD)

lemma go_step_workers: "go_step s s' \<Longrightarrow> length (gs_workers s') = length (gs_workers s)"
proof -
  have "work_step s s' \<Longrightarrow> ?thesis" by (induction rule: work_step.induct) (simp_all add: g_defs)
  moreover have "close_step s s' \<Longrightarrow> ?thesis" by (induction rule: close_step.induct) (simp_all add: g_defs)
  moreover have "submit_step s s' \<or> sweep_step s s' \<Longrightarrow> ?thesis"
    using submit_frame sweep_frame woken_length by (auto simp: others_frame_def)
  ultimately show "go_step s s' \<Longrightarrow> ?thesis" by (auto simp: go_step_def)
qed

lemma reach_workers: "go_reach (go_start n p) s \<Longrightarrow> length (gs_workers s) = n"
  by (induction rule: go_reach.induct) (simp_all add: go_start_def go_step_workers)

subsection \<open>The last submitters\<close>

text \<open>On a closed and empty queue every \<open>Submit\<close> comes to its end.\<close>

fun sub_left :: "sstate \<Rightarrow> nat" where
  "sub_left (SNew t) = 4"
| "sub_left (SCollect t) = 3"
| "sub_left (SReply ds t) = 2 + length ds"
| "sub_left (SLock t) = 1"
| "sub_left (SWait t b) = 1"
| "sub_left (SSleep t) = 2"
| "sub_left (SWaitReply ds t b) = 2 + length ds"
| "sub_left SDone = 0"

lemmas left_set_sub = left_update [of _ _ sub_left]

definition subs_left :: "gsys \<Rightarrow> nat" where
  "subs_left s = sum_list (map sub_left (gs_subs s))"

definition shut :: "gsys \<Rightarrow> bool" where
  "shut s \<longleftrightarrow> pl_closed (gs_pool s) \<and> pl_q (gs_pool s) = [] \<and> \<not> (\<exists>x \<in> set (gs_subs s). sub_asleep x) \<and>
     gs_close s = CloseDone \<and> all_gone s"

text \<open>A step of one submitter to a state nearer to its end, which may answer a task.\<close>

definition sub_moves :: "gsys \<Rightarrow> gsys \<Rightarrow> bool" where
  "sub_moves s s' \<longleftrightarrow> submit_step s s' \<and> shut s' \<and> subs_left s' < subs_left s \<and> gs_submitted s' = gs_submitted s"

lemma sub_movesI:
  assumes "shut s" and "is_sub s i x" and "sub_left y < sub_left x" and "\<not> sub_asleep y"
    and "s' = set_sub i y s \<or> (\<exists>t. s' = g_expire t (set_sub i y s))" and "submit_step s s'"
  shows "sub_moves s s'"
proof -
  have "\<not> (\<exists>x \<in> set ((gs_subs s)[i := y]). sub_asleep x)"
    using assms(1,4) set_update_subset_insert [of "gs_subs s" i y] by (auto simp: shut_def)
  with assms(1,2,3,5,6) left_set_sub [of i "gs_subs s" y] show ?thesis
    by (auto simp: sub_moves_def shut_def subs_left_def all_gone_def g_expire_def g_answer_def set_sub_def)
qed

text \<open>Where a submitter goes next once the pool is closed and empty.\<close>

definition sub_next :: "gsys \<Rightarrow> nat \<Rightarrow> sstate \<Rightarrow> sstate \<Rightarrow> bool" where
  "sub_next s i x y \<longleftrightarrow> sub_left y < sub_left x \<and> \<not> sub_asleep y \<and>
     (submit_step s (set_sub i y s) \<or> (\<exists>t. submit_step s (g_expire t (set_sub i y s))))"

lemma sub_replies:
  "is_sub s i (SReply ds t) \<Longrightarrow> \<exists>y. sub_next s i (SReply ds t) y"
  "is_sub s i (SWaitReply ds t b) \<Longrightarrow> \<exists>y. sub_next s i (SWaitReply ds t b) y"
proof -
  assume "is_sub s i (SReply ds t)"
  then show "\<exists>y. sub_next s i (SReply ds t) y"
    using submit_step.s_replied [of i s t] submit_step.s_reply [of i s "hd ds" "tl ds" t]
    by (intro exI [of _ "if ds = [] then SLock t else SReply (tl ds) t"]) (cases ds, auto simp: sub_next_def sub_asleep_def)
next
  assume "is_sub s i (SWaitReply ds t b)"
  then show "\<exists>y. sub_next s i (SWaitReply ds t b) y"
    using submit_step.w_replied [of i s t b] submit_step.w_reply [of i s "hd ds" "tl ds" t b]
    by (intro exI [of _ "if ds = [] then SWait t b else SWaitReply (tl ds) t b"])
      (cases ds, auto simp: sub_next_def sub_asleep_def)
qed

lemma shut_next:
  assumes "shut s" and "is_sub s i x" and "x \<noteq> SDone"
  shows "\<exists>y. sub_next s i x y"
proof (cases x)
  case (SNew t)
  then show ?thesis using assms(2) submit_step.s_late [of i s t 0] submit_step.s_in_time [of i s t 0]
    by (intro exI [of _ "if late (gs_pool s) 0 t then SDone else SCollect t"]) (auto simp: sub_next_def sub_asleep_def)
next
  case (SCollect t)
  have "takeExpiredLocked (gs_pool s) 0 = ([], gs_pool s)" using assms(1) by (simp add: shut_def takeExpiredLocked_def)
  with assms(2) SCollect have "submit_step s (set_sub i (SReply [] t) s)"
    using submit_step.s_collect [of i s t 0 "[]" "gs_pool s"] by (simp add: broadcast_if_def set_gpool_def set_sub_def)
  with SCollect show ?thesis by (intro exI [of _ "SReply [] t"]) (simp add: sub_next_def sub_asleep_def)
next
  case (SLock t)
  have "submit_locked (gs_pool s) t = (t, SubmitClosed)" using assms(1) by (simp add: shut_def submit_locked_def)
  with SLock assms(2) submit_step.s_closed [of i s t t] show ?thesis
    by (intro exI [of _ SDone]) (auto simp: sub_next_def sub_asleep_def)
next
  case (SWait t b)
  have "wait_locked (gs_pool s) t b = WaitClosed" using assms(1) by (simp add: shut_def wait_locked_def)
  with SWait assms(2) submit_step.w_over [of i s t b] show ?thesis
    by (intro exI [of _ SDone]) (auto simp: sub_next_def sub_asleep_def)
next
  case (SSleep t)
  then show ?thesis using assms(1,2) by (auto simp: shut_def sub_asleep_def dest!: nth_mem)
qed (use assms sub_replies in auto)

lemma shut_moves:
  assumes "shut s" and "is_sub s i x" and "x \<noteq> SDone"
  shows "\<exists>s'. sub_moves s s'"
proof -
  from shut_next [OF assms] obtain y where "sub_next s i x y" by blast
  then obtain s' where "s' = set_sub i y s \<or> (\<exists>t. s' = g_expire t (set_sub i y s))" "submit_step s s'"
    "sub_left y < sub_left x" "\<not> sub_asleep y" by (auto simp: sub_next_def)
  then show ?thesis using sub_movesI [OF assms(1,2)] by blast
qed

lemma shut_rests:
  assumes "shut s"
  shows "\<exists>s'. go_reach s s' \<and> shut s' \<and> gs_submitted s' = gs_submitted s \<and> (\<forall>x \<in> set (gs_subs s'). x = SDone)"
  using assms
proof (induction "subs_left s" arbitrary: s rule: less_induct)
  case less
  show ?case
  proof (cases "\<forall>x \<in> set (gs_subs s). x = SDone")
    case True
    with less.prems go_reach.init show ?thesis by blast
  next
    case False
    then obtain i where "i < length (gs_subs s)" "gs_subs s ! i \<noteq> SDone" by (auto simp: in_set_conv_nth)
    with shut_moves [OF less.prems, of i "gs_subs s ! i"] obtain s1 where
      "submit_step s s1" and s1: "shut s1" "subs_left s1 < subs_left s" "gs_submitted s1 = gs_submitted s"
      by (auto simp: sub_moves_def)
    then have "go_reach s s1" using go_reach.step [OF go_reach.init] by (auto simp: go_step_def)
    with less.hyps [OF s1(2,1)] s1(3) show ?thesis using go_reach_trans by metis
  qed
qed

lemma gone_hands:
  assumes "all_gone s"
  shows "g_hands s = mset (concat (map s_hands (gs_subs s)))"
proof -
  have "concat (map w_hands (gs_workers s)) = []" "sw_hands (gs_sweep s) = []"
    using assms by (auto simp: all_gone_def)
  then show ?thesis by (simp add: g_hands_def)
qed

lemma known_reach:
  assumes "go_reach (go_start workers (pool_New depth reserve minBudget full)) s"
  shows "known (pool_of s) = image_mset same_task (mset (gs_submitted s))"
proof -
  have "pool_reach (start (pool_New depth reserve minBudget full)) (pool_of s)"
    using go_reach_simulated [OF assms] by (simp add: pool_of_start)
  then have "known (pool_of s) = image_mset same_task (mset (ps_submitted (pool_of s)))"
    using reach_conserved by (simp add: conserved_def pool_New_def)
  then show ?thesis by (simp add: pool_of_def)
qed

subsection \<open>Properties\<close>

text \<open>
  C6.  The goroutines implement the queue.  However workers, submitters, the sweeper, timers and
  \<open>Close\<close> interleave, and whichever sleeper a signal wakes, the run is a run of the sections of the
  queue: no task is lost or answered twice, and the queue stays within its depth.
\<close>

theorem goroutines_refine_pool:
  assumes "go_reach (go_start workers (pool_New depth reserve minBudget full)) s"
  shows "pool_reach (start (pool_New depth reserve minBudget full)) (pool_of s) \<and>
    known (pool_of s) = image_mset same_task (mset (gs_submitted s)) \<and>
    length (pl_q (gs_pool s)) \<le> pl_depth (gs_pool s)"
proof -
  have r: "pool_reach (start (pool_New depth reserve minBudget full)) (pool_of s)"
    using go_reach_simulated [OF assms] by (simp add: pool_of_start)
  then have "pool_inv (pool_of s)" using pool_inv_start by (rule reach_pool_inv)
  with r known_reach [OF assms] show ?thesis by (simp add: pool_of_def pool_inv_def)
qed

text \<open>
  C11.  No wake-up is lost.  A worker sleeps only while every queued task has a worker about to look
  for it, a submitter sleeps only while the queue is full, and nobody sleeps on a closed queue; so
  with at least one worker a queued task always has a worker that can take a step.
\<close>

theorem no_lost_wakeup:
  assumes "go_reach (go_start workers (pool_New depth reserve minBudget full)) s"
  shows "(WSleep \<in> set (gs_workers s) \<longrightarrow> length (pl_q (gs_pool s)) \<le> count (mset (gs_workers s)) WPop) \<and>
    ((\<exists>x \<in> set (gs_subs s). sub_asleep x) \<longrightarrow> pl_depth (gs_pool s) \<le> length (pl_q (gs_pool s))) \<and>
    (pl_closed (gs_pool s) \<longrightarrow> WSleep \<notin> set (gs_workers s) \<and> \<not> (\<exists>x \<in> set (gs_subs s). sub_asleep x)) \<and>
    (0 < workers \<and> pl_q (gs_pool s) \<noteq> [] \<longrightarrow> (\<exists>s'. work_step s s'))"
proof -
  have r: "rested s" using assms by (rule rested_reach)
  moreover have "closing_ok s" using assms by (rule closing_reach) (simp add: pool_New_def)
  moreover have "length (gs_workers s) = workers" using assms by (rule reach_workers)
  ultimately have "0 < workers \<and> pl_q (gs_pool s) \<noteq> [] \<longrightarrow> (\<exists>s'. work_step s s')"
    using queue_served by fastforce
  with r show ?thesis by (simp add: rested_def) blast
qed

text \<open>
  C12.  \<open>Close\<close> returns.  From every state in which it waits there is a run on which it returns; it is
  never stuck: until the workers and the sweeper are gone one of them can take a step that brings
  the end closer, each step of a worker does, and no step of anybody gives the workers more to do.
\<close>

theorem close_returns:
  assumes "go_reach (go_start workers (pool_New depth reserve minBudget full)) s" and "gs_close s = CloseWaits"
  shows "(\<exists>s'. go_reach s s' \<and> gs_close s' = CloseDone) \<and>
    (\<not> all_gone s \<longrightarrow> (\<exists>s'. (work_step s s' \<or> sweep_step s s') \<and> close_left s' < close_left s)) \<and>
    (\<forall>s'. work_step s s' \<longrightarrow> workers_left s' < workers_left s) \<and>
    (\<forall>s'. go_step s s' \<longrightarrow> workers_left s' \<le> workers_left s)"
proof -
  have inv: "rested s" "closing_ok s"
    using assms(1) by (auto intro: rested_reach closing_reach simp: pool_New_def)
  then have closed: "pl_closed (gs_pool s)" using assms(2) by (simp add: closing_ok_def)
  have "workers_left s' \<le> workers_left s" if "close_step s s'" for s'
    using that assms(2) by (auto elim!: close_step.cases simp: workers_left_def)
  then have "workers_left s' \<le> workers_left s" if "go_step s s'" for s'
    using that submit_frame sweep_frame frame_left closed work_less
    unfolding go_step_def by (meson less_imp_le)
  with inv closed assms(2) close_reaches closing_moves work_less show ?thesis by blast
qed

text \<open>
  C26.  What \<open>Close\<close> leaves.  Once it has returned, the workers and the sweeper are gone and stay gone,
  the queue is empty, and every submitted task has been answered except those whose \<open>Submit\<close> still
  runs.  These can come to their end as well without any worker: some run without new submissions
  leads to a state at rest in which every task submitted has been answered.
\<close>

theorem close_leaves_nothing:
  assumes "go_reach (go_start workers (pool_New depth reserve minBudget full)) s" and "gs_close s = CloseDone"
    and "0 < workers"
  shows "all_gone s \<and> pl_q (gs_pool s) = [] \<and> (\<forall>s'. go_step s s' \<longrightarrow> gs_close s' = CloseDone) \<and>
    image_mset same_task (mset (map fst (gs_answers s))) +
      image_mset (same_task \<circ> hand_task) (mset (concat (map s_hands (gs_subs s)))) =
    image_mset same_task (mset (gs_submitted s)) \<and>
    (\<exists>s'. go_reach s s' \<and> gs_submitted s' = gs_submitted s \<and> pl_q (gs_pool s') = [] \<and> g_hands s' = {#} \<and>
       image_mset same_task (mset (map fst (gs_answers s'))) = image_mset same_task (mset (gs_submitted s)))"
proof -
  have gone: "all_gone s" using done_reach [OF assms(1)] assms(2) by simp
  have "gs_workers s \<noteq> []" using reach_workers [OF assms(1)] assms(3) by auto
  then have "WExit \<in> set (gs_workers s)" using gone by (cases "gs_workers s") (auto simp: all_gone_def)
  moreover have ok: "closing_ok s" using assms(1) by (rule closing_reach) (simp add: pool_New_def)
  ultimately have q: "pl_q (gs_pool s) = []" using stopped_seen by fastforce
  have "shut s" using gone q ok assms(2) rested_reach [OF assms(1)] by (auto simp: shut_def closing_ok_def rested_def)
  from shut_rests [OF this] obtain s' where s': "go_reach s s'" "shut s'" "gs_submitted s' = gs_submitted s"
    "\<forall>x \<in> set (gs_subs s'). x = SDone" by blast
  have "g_hands s' = {#}" using s'(2,4) by (auto simp: gone_hands shut_def)
  moreover have "known (pool_of s') = image_mset same_task (mset (gs_submitted s'))"
    using known_reach [OF go_reach_trans [OF s'(1) assms(1)]] .
  ultimately have "image_mset same_task (mset (map fst (gs_answers s'))) = image_mset same_task (mset (gs_submitted s))"
    using s'(2,3) by (simp add: known_def pool_of_def shut_def)
  with s' \<open>g_hands s' = {#}\<close> have "\<exists>s'. go_reach s s' \<and> gs_submitted s' = gs_submitted s \<and> pl_q (gs_pool s') = [] \<and>
      g_hands s' = {#} \<and> image_mset same_task (mset (map fst (gs_answers s'))) = image_mset same_task (mset (gs_submitted s))"
    unfolding shut_def by blast
  then show ?thesis
    using gone q gone_stays [OF _ assms(2) gone] known_reach [OF assms(1)]
    by (simp add: known_def pool_of_def multiset.map_comp add.commute gone_hands)
qed

subsection \<open>Witnesses\<close>

definition demo_start :: gsys where
  "demo_start = go_start 1 (pool_New 4 10 5 [])"

definition demo_submitted :: gsys where
  "demo_submitted = demo_start\<lparr>gs_subs := [SNew demo_task], gs_submitted := [demo_task]\<rparr>"

definition demo_closing :: gsys where
  "demo_closing = Broadcast (set_gpool ((gs_pool demo_start)\<lparr>pl_closed := True\<rparr>)
     (demo_start\<lparr>gs_close := CloseWaits\<rparr>))"

lemma demo_submitted_reach: "go_reach (go_start 1 (pool_New 4 10 5 [])) demo_submitted"
proof -
  have "submit_step demo_start demo_submitted"
    using submit_step.submit [of demo_task demo_task 0 demo_start]
    by (simp add: demo_submitted_def demo_task_def demo_start_def go_start_def)
  then show ?thesis
    unfolding demo_start_def [symmetric] by (intro go_reach.step [OF go_reach.init]) (simp add: go_step_def)
qed

lemma demo_closing_reach: "go_reach (go_start 1 (pool_New 4 10 5 [])) demo_closing"
proof -
  let ?s = "demo_start\<lparr>gs_close := CloseStopped\<rparr>"
  have "close_step demo_start ?s" by (rule close_step.stop) (simp add: demo_start_def go_start_def)
  moreover have "close_step ?s demo_closing"
    using close_step.close [of ?s] by (simp add: demo_closing_def)
  ultimately show ?thesis
    unfolding demo_start_def [symmetric] using go_reach.init go_reach.step by (metis go_step_def)
qed

theorem goroutines_refine_pool_witness: "known (pool_of demo_submitted) = {#same_task demo_task#}"
  using goroutines_refine_pool [OF demo_submitted_reach] by (simp add: demo_submitted_def)

theorem no_lost_wakeup_witness: "WSleep \<notin> set (gs_workers demo_closing)"
proof -
  have "pl_closed (gs_pool demo_closing)" by (simp add: demo_closing_def Broadcast_def set_gpool_def)
  then show ?thesis using no_lost_wakeup [OF demo_closing_reach] by blast
qed

theorem close_returns_witness: "\<exists>s. go_reach demo_closing s \<and> gs_close s = CloseDone"
proof -
  have "gs_close demo_closing = CloseWaits" by (simp add: demo_closing_def Broadcast_def set_gpool_def)
  then show ?thesis using close_returns [OF demo_closing_reach] by blast
qed

theorem close_leaves_nothing_witness:
  "\<exists>s. go_reach demo_closing s \<and> gs_close s = CloseDone \<and> all_gone s \<and> pl_q (gs_pool s) = []"
proof -
  have "closing_ok demo_closing" "rested demo_closing"
    using demo_closing_reach by (auto intro: rested_reach closing_reach simp: pool_New_def)
  moreover have "gs_close demo_closing = CloseWaits" by (simp add: demo_closing_def Broadcast_def set_gpool_def)
  ultimately obtain s where s: "go_reach demo_closing s" "gs_close s = CloseDone" using close_reaches by blast
  then have "go_reach (go_start 1 (pool_New 4 10 5 [])) s" using go_reach_trans demo_closing_reach by blast
  with close_leaves_nothing [of 1 4 10 5 "[]" s] s show ?thesis by auto
qed

end
