(* ===== verification/Lifecycle.thy ===== *)
theory Lifecycle
  imports Service Workers
begin

text \<open>
  The life of the inspector (\<^verbatim>\<open>run\<close> of \<^verbatim>\<open>cmd/inspector/main.go\<close>): the steps of the start in their order,
  each of which may fail and end the program, the deferred calls that then run, the orderly stop,
  and the heartbeat.  A step appends what it does to a trace; the outcomes of the calls of libraries
  are fields of \<open>run_env\<close>.  Log output is left out except for warnings.  The last section follows a
  message from the bus through the queue and the handler to its reply.
\<close>

subsection \<open>Connections\<close>

record redis_options =
  ro_Addr :: string
  ro_DialTimeout :: duration
  ro_ReadTimeout :: duration
  ro_WriteTimeout :: duration

text \<open>The store of objects; the parser of addresses is the one of the library.\<close>

definition NewRedisStore :: "(string \<Rightarrow> string + redis_options) \<Rightarrow> string \<Rightarrow> duration \<Rightarrow>
    string + redis_options \<times> duration" where
  "NewRedisStore parse url timeout =
     (case parse url of
        Inl e \<Rightarrow> Inl e
      | Inr opt \<Rightarrow> Inr (opt\<lparr>ro_ReadTimeout := timeout, ro_WriteTimeout := timeout, ro_DialTimeout := timeout\<rparr>, timeout))"

definition redis_Ping :: "(duration \<Rightarrow> string option) \<Rightarrow> string option" where
  "redis_Ping ping = ping Second"

definition RedisTimeout :: duration where "RedisTimeout = 20 * Millisecond"
definition requestTimeout :: duration where "requestTimeout = 5 * Second"
definition objectTimeout :: duration where "objectTimeout = 30 * Second"

definition OpenBlobs :: "(string \<Rightarrow> string + redis_options) \<Rightarrow> string \<Rightarrow> string + redis_options" where
  "OpenBlobs parse url =
     (case parse url of
        Inl e \<Rightarrow> Inl e
      | Inr opt \<Rightarrow> Inr (opt\<lparr>ro_DialTimeout := requestTimeout, ro_ReadTimeout := objectTimeout,
                            ro_WriteTimeout := requestTimeout\<rparr>))"

text \<open>What is said of the internal Redis: its level, its text and the address without the password.\<close>

definition redactURL :: "(string \<Rightarrow> string option) \<Rightarrow> string \<Rightarrow> string" where
  "redactURL redacted s = (case redacted s of None \<Rightarrow> ''<unparsable>'' | Some u \<Rightarrow> u)"

datatype redis_line = RedisWarn string "string option" | RedisInfo string "string option"

definition LogInternalRedis :: "(string \<Rightarrow> string option) \<Rightarrow> string \<Rightarrow> string \<Rightarrow> redis_line" where
  "LogInternalRedis redacted addr from =
     (if from = [] then RedisWarn ''internal redis is not configured'' None
      else if from = InternalFromExchange
        then RedisWarn ''internal redis falls back to the exchange'' (Some (redactURL redacted addr))
      else RedisInfo ''internal redis'' (Some (redactURL redacted addr)))"

subsection \<open>Steps of the start\<close>

datatype resource =
  RLogs | RBus | RSink | RObjects | RBlobs | RMirror | RResolver | RPool | RSub | RContext | RBeat

datatype life_event = Opens resource | Defers resource | Closes resource | Warns string | Serves | Drains

datatype run_err =
  RunConfig cfg_err | RunProfiles load_err | RunBus string | RunObjects string | RunPing string
| RunBlobs string | RunGeo string | RunSubscribe string | RunLimits string

type_synonym 'a run_m = "life_event list \<Rightarrow> (run_err + 'a) \<times> life_event list"

definition pureR :: "'a \<Rightarrow> 'a run_m" where "pureR x tr = (Inr x, tr)"
definition failR :: "run_err \<Rightarrow> 'a run_m" where "failR e tr = (Inl e, tr)"
definition emit :: "life_event list \<Rightarrow> unit run_m" where "emit evs tr = (Inr (), tr @ evs)"

definition bindR :: "'a run_m \<Rightarrow> ('a \<Rightarrow> 'b run_m) \<Rightarrow> 'b run_m" where
  "bindR m f tr = (case m tr of (Inl e, tr') \<Rightarrow> (Inl e, tr') | (Inr x, tr') \<Rightarrow> f x tr')"

definition check :: "(string \<Rightarrow> run_err) \<Rightarrow> string option \<Rightarrow> unit run_m" where
  "check err oe = (case oe of None \<Rightarrow> pureR () | Some e \<Rightarrow> failR (err e))"

definition warn_if :: "bool \<Rightarrow> string \<Rightarrow> unit run_m" where
  "warn_if b msg = emit (if b then [Warns msg] else [])"

definition open_deferred :: "resource \<Rightarrow> unit run_m" where
  "open_deferred r = emit [Opens r, Defers r]"

text \<open>
  What the program meets: its environment and files, the bus, Redis, the geo resolver and the
  watcher of the desired state, each with its error if there is one.  The subscription is live and
  the goroutines of the two watchers run before the first heartbeat: \<open>rn_pool\<close> is what the queue has become
  by then, and \<open>rn_turns\<close> are the turns the watchers had.
\<close>

record run_env =
  rn_cfg :: cfg_env
  rn_apply :: apply_env
  rn_fs :: filesys
  rn_dirs :: data_dir
  rn_connect :: "string list \<Rightarrow> string option"
  rn_jetstream :: "string + (stream_config \<Rightarrow> stream_err option)"
  rn_log_stream :: "string option"
  rn_parse :: "string \<Rightarrow> string + redis_options"
  rn_redacted :: "string \<Rightarrow> string option"
  rn_ping :: "duration \<Rightarrow> string option"
  rn_client :: redis_client
  rn_subs :: "string \<Rightarrow> bool"
  rn_time :: "string \<Rightarrow> gotime"
  rn_geo :: "string \<Rightarrow> string option"
  rn_subscribe :: "string \<Rightarrow> string \<Rightarrow> string option"
  rn_limits :: "int \<Rightarrow> int \<Rightarrow> string option"
  rn_js :: "string option"
  rn_kv :: "string option"
  rn_watcher :: "string option"
  rn_drain :: "string option"
  rn_pool :: "pool \<Rightarrow> pool"
  rn_turns :: "turn list"

text \<open>A directory by its name; the empty name is no directory.\<close>

definition dir_path :: "string \<Rightarrow> path" where
  "dir_path s = (if s = [] then [] else [s])"

definition run_config :: "run_env \<Rightarrow> config run_m" where
  "run_config e = (case config_Load (rn_cfg e) of Inl x \<Rightarrow> failR (RunConfig x) | Inr c \<Rightarrow> pureR c)"

definition ships_logs :: "run_env \<Rightarrow> bool" where
  "ships_logs e \<longleftrightarrow> LogShip (ae_uni (rn_apply e)) (rn_cfg e)"

definition run_logs :: "run_env \<Rightarrow> unit run_m" where
  "run_logs e = (if ships_logs e then open_deferred RLogs else pureR ())"

text \<open>The profiles, then the generation applied before if there is one.\<close>

definition run_profiles :: "run_env \<Rightarrow> config \<Rightarrow> (bool \<times> store_state) run_m" where
  "run_profiles e c =
     (case NewStore (ae_uni (rn_apply e)) (ae_yaml (rn_apply e)) (rn_fs e) (dir_path (cf_ProfilesDir c)) of
        Inl x \<Rightarrow> failR (RunProfiles x)
      | Inr st \<Rightarrow> pureR (desired_Bootstrap (rn_apply e) (dir_path (cf_DataDir c)) (dd_live (rn_dirs e)) st))"

definition run_bus :: "run_env \<Rightarrow> config \<Rightarrow> unit run_m" where
  "run_bus e c =
     bindR (check RunBus (rn_connect e (cf_Servers c))) (\<lambda>_.
     bindR (open_deferred RBus) (\<lambda>_.
     bindR (warn_if (audit_Ensure (Some (rn_jetstream e)) \<noteq> None) ''audit stream'') (\<lambda>_.
     bindR (warn_if (ships_logs e \<and> rn_log_stream e \<noteq> None) ''log stream'') (\<lambda>_.
     emit [Opens RSink]))))"

text \<open>\<open>bodyLoader\<close>: the store of objects must answer at the start, or there is none.\<close>

definition run_objects :: "run_env \<Rightarrow> config \<Rightarrow> loader run_m" where
  "run_objects e c =
     (if cf_RedisURL c = [] then
        bindR (warn_if True ''object store is not configured'') (\<lambda>_. pureR (bodyLoader None))
      else (case NewRedisStore (rn_parse e) (cf_RedisURL c) RedisTimeout of
              Inl x \<Rightarrow> failR (RunObjects x)
            | Inr _ \<Rightarrow>
                bindR (emit [Opens RObjects]) (\<lambda>_.
                bindR (check RunPing (redis_Ping (rn_ping e))) (\<lambda>_.
                bindR (emit [Defers RObjects]) (\<lambda>_. pureR (bodyLoader (Some (rn_client e))))))))"

definition run_blobs :: "run_env \<Rightarrow> config \<Rightarrow> redis_options option run_m" where
  "run_blobs e c =
     bindR (case LogInternalRedis (rn_redacted e) (cf_InternalURL c) (cf_InternalFrom c) of
              RedisWarn msg url \<Rightarrow> warn_if True msg | RedisInfo msg url \<Rightarrow> pureR ()) (\<lambda>_.
     if cf_InternalURL c = [] then pureR None
     else (case OpenBlobs (rn_parse e) (cf_InternalURL c) of
             Inl x \<Rightarrow> failR (RunBlobs x)
           | Inr opt \<Rightarrow> bindR (open_deferred RBlobs) (\<lambda>_. pureR (Some opt))))"

text \<open>The mirror follows the lists of the profiles being served, now and after every load.\<close>

definition run_mirror :: "run_env \<Rightarrow> store_state \<Rightarrow> (store_state \<times> mirror) run_m" where
  "run_mirror e st =
     bindR (open_deferred RMirror) (\<lambda>_.
     pureR (OnLoad st, on_load (rn_subs e) (rn_time e) (st_current st) mirror_New))"

definition run_resolver :: "run_env \<Rightarrow> config \<Rightarrow> unit run_m" where
  "run_resolver e c =
     (if cf_GeoAddr c = [] then pureR ()
      else bindR (check RunGeo (rn_geo e (cf_GeoAddr c))) (\<lambda>_. open_deferred RResolver))"

definition run_secret :: "config \<Rightarrow> snapshot \<Rightarrow> unit run_m" where
  "run_secret c snap =
     warn_if (cf_Secret c = [] \<and> list_ex (\<lambda>n. case map_of snap n of Some p \<Rightarrow> NeedsSecret p | None \<Rightarrow> False) (Names snap))
       ''cookie signing key is not configured''"

text \<open>The queue with its goroutines, and the subscription with its limits.\<close>

definition run_queue :: "run_env \<Rightarrow> config \<Rightarrow> gsys run_m" where
  "run_queue e c =
     bindR (emit [Opens RPool]) (\<lambda>_.
     bindR (check RunSubscribe (rn_subscribe e (cf_Subject c) (cf_Queue c))) (\<lambda>_.
     bindR (emit [Opens RSub]) (\<lambda>_.
     bindR (check RunLimits (rn_limits e (cf_QueueDepth c + cf_Workers c + 2) (8 * 1024 * 1024))) (\<lambda>_.
     pureR (go_start (nat (cf_Workers c)) (run_pool c))))))"

text \<open>The context of the watchers, the watcher of the desired state, and the heartbeat.\<close>

definition watch_state :: "run_env \<Rightarrow> config \<Rightarrow> store_state \<Rightarrow> desired_state" where
  "watch_state e c st = \<lparr>ds_dirs = rn_dirs e, ds_store = st, ds_applied = no_applied, ds_level = cf_LogLevel c\<rparr>"

definition run_watch :: "run_env \<Rightarrow> config \<Rightarrow> store_state \<Rightarrow> desired_watch option run_m" where
  "run_watch e c st =
     bindR (open_deferred RContext) (\<lambda>_.
     (case desired_Watch (rn_js e) (rn_kv e) (rn_watcher e) (watch_state e c st) of
        Inl x \<Rightarrow> bindR (warn_if True ''desired watch failed'') (\<lambda>_. pureR None)
      | Inr w \<Rightarrow> pureR (Some w)))"

text \<open>
  What the two watchers have made of the report and the store after some turns.  Without a watcher of
  the desired state only the one of the store runs, and there is no report.
\<close>

definition beat_state :: "run_env \<Rightarrow> config \<Rightarrow> turn list \<Rightarrow> desired_watch option \<Rightarrow> store_state \<Rightarrow> desired_state" where
  "beat_state e c ts ow st =
     dw_state (turns (dir_path (cf_DataDir c)) ts (ow \<noteq> None)
       (case ow of Some w \<Rightarrow> w
        | None \<Rightarrow> \<lparr>dw_state = watch_state e c st, dw_pending = None, dw_armed = False\<rparr>))"

definition beat_after :: "run_env \<Rightarrow> config \<Rightarrow> pool \<Rightarrow> turn list \<Rightarrow> desired_watch option \<Rightarrow> store_state \<Rightarrow> heartbeat" where
  "beat_after e c p ts ow st =
     (let s = beat_state e c ts ow st
      in beat c p (case ow of None \<Rightarrow> None | Some w \<Rightarrow> Some (ds_applied s)) (ds_store s))"

definition run_beat :: "run_env \<Rightarrow> config \<Rightarrow> gsys \<Rightarrow> desired_watch option \<Rightarrow> store_state \<Rightarrow> heartbeat run_m" where
  "run_beat e c g ow st =
     bindR (open_deferred RBeat) (\<lambda>_. pureR (beat_after e c (rn_pool e (gs_pool g)) (rn_turns e) ow st))"

subsection \<open>The run\<close>

text \<open>A started service: what the steps of the start have made.\<close>

record service =
  sv_cfg :: config
  sv_restored :: bool
  sv_store :: store_state
  sv_loader :: loader
  sv_blobs :: "redis_options option"
  sv_mirror :: mirror
  sv_goroutines :: gsys
  sv_watch :: "desired_watch option"
  sv_beat :: heartbeat

definition run_setup :: "run_env \<Rightarrow> (config \<times> (bool \<times> store_state) \<times> loader \<times> redis_options option \<times> store_state \<times> mirror) run_m" where
  "run_setup e =
     bindR (run_config e) (\<lambda>c.
     bindR (run_logs e) (\<lambda>_.
     bindR (run_profiles e c) (\<lambda>(restored, st).
     bindR (run_bus e c) (\<lambda>_.
     bindR (run_objects e c) (\<lambda>ld.
     bindR (run_blobs e c) (\<lambda>bl.
     bindR (run_mirror e st) (\<lambda>(st1, m).
     bindR (run_resolver e c) (\<lambda>_.
     bindR (run_secret c (st_current st)) (\<lambda>_.
     pureR (c, (restored, st), ld, bl, st1, m))))))))))"

definition run_service :: "run_env \<Rightarrow> service run_m" where
  "run_service e =
     bindR (run_setup e) (\<lambda>(c, (restored, _), ld, bl, st, m).
     bindR (run_queue e c) (\<lambda>g.
     bindR (run_watch e c st) (\<lambda>ow.
     bindR (run_beat e c g ow st) (\<lambda>hb.
     pureR \<lparr>sv_cfg = c, sv_restored = restored, sv_store = st, sv_loader = ld, sv_blobs = bl, sv_mirror = m,
            sv_goroutines = g, sv_watch = ow, sv_beat = hb\<rparr>))))"

text \<open>After the signal: the watchers are told to stop, the subscription drains, the queue and the sink close.\<close>

definition run_stop :: "run_env \<Rightarrow> unit run_m" where
  "run_stop e =
     bindR (emit [Serves, Closes RContext, Drains]) (\<lambda>_.
     bindR (warn_if (rn_drain e \<noteq> None) ''drain failed'') (\<lambda>_.
     emit [Closes RPool, Closes RSink]))"

text \<open>The deferred calls run last, the latest first.\<close>

definition deferred :: "life_event list \<Rightarrow> resource list" where
  "deferred tr = List.map_filter (\<lambda>ev. case ev of Defers r \<Rightarrow> Some r | _ \<Rightarrow> None) tr"

definition run :: "run_env \<Rightarrow> (run_err + service) \<times> life_event list" where
  "run e =
     (case bindR (run_service e) (\<lambda>sv. bindR (run_stop e) (\<lambda>_. pureR sv)) [] of
        (r, tr) \<Rightarrow> (r, tr @ map Closes (rev (deferred tr))))"

definition main_exit :: "run_env \<Rightarrow> int" where
  "main_exit e = (case fst (run e) of Inl x \<Rightarrow> 1 | Inr sv \<Rightarrow> 0)"

text \<open>The goroutine of the heartbeat: one at the start, one for every tick until it is stopped.\<close>

datatype 'a beat_signal = BeatStop | BeatTick 'a

fun beat_loop :: "('a \<Rightarrow> heartbeat) \<Rightarrow> 'a beat_signal list \<Rightarrow> heartbeat list" where
  "beat_loop b [] = []"
| "beat_loop b (BeatStop # xs) = []"
| "beat_loop b (BeatTick x # xs) = b x # beat_loop b xs"

definition startHeartbeat :: "('a \<Rightarrow> heartbeat) \<Rightarrow> 'a \<Rightarrow> 'a beat_signal list \<Rightarrow> heartbeat list" where
  "startHeartbeat b x xs = b x # beat_loop b xs"

subsection \<open>Laws of traces\<close>

text \<open>
  A law of what a step appends, which may depend on the error the step ends with: nothing obeys it,
  and a part that went well followed by a part that obeys it obeys it.
\<close>

definition err_of :: "run_err + 'a \<Rightarrow> run_err option" where
  "err_of r = (case r of Inl e \<Rightarrow> Some e | Inr _ \<Rightarrow> None)"

lemma err_of_simps [simp]: "err_of (Inl e) = Some e" "err_of (Inr x) = None"
  by (simp_all add: err_of_def)

definition appends :: "(run_err option \<Rightarrow> life_event list \<Rightarrow> bool) \<Rightarrow> 'a run_m \<Rightarrow> bool" where
  "appends P m \<longleftrightarrow> (\<forall>tr. \<exists>new. snd (m tr) = tr @ new \<and> P (err_of (fst (m tr))) new)"

lemma appendsD: "appends P m \<Longrightarrow> m tr = (r, tr') \<Longrightarrow> \<exists>new. tr' = tr @ new \<and> P (err_of r) new"
  unfolding appends_def by (metis fst_conv snd_conv)

locale trace_law =
  fixes P :: "run_err option \<Rightarrow> life_event list \<Rightarrow> bool"
  assumes empty: "\<And>oe. P oe []"
    and join: "\<And>a oe b. P None a \<Longrightarrow> P oe b \<Longrightarrow> P oe (a @ b)"
begin

lemma appends_pure: "appends P (pureR x)"
  by (auto simp: appends_def pureR_def intro: empty)

lemma appends_fail: "appends P (failR e)"
  by (auto simp: appends_def failR_def intro: empty)

lemma appends_emit: "P None evs \<Longrightarrow> appends P (emit evs)"
  by (simp add: appends_def emit_def)

lemma appends_check: "appends P (check f oe)"
  by (cases oe) (simp_all add: check_def appends_pure appends_fail)

lemma appends_bind:
  assumes "appends P m" and "\<And>x. appends P (f x)"
  shows "appends P (bindR m f)"
  unfolding appends_def
proof
  fix tr
  obtain r tr1 where m: "m tr = (r, tr1)" by (cases "m tr")
  from appendsD [OF assms(1) m] obtain a where a: "tr1 = tr @ a" "P (err_of r) a" by blast
  show "\<exists>new. snd (bindR m f tr) = tr @ new \<and> P (err_of (fst (bindR m f tr))) new"
  proof (cases r)
    case (Inl e)
    with m a show ?thesis by (simp add: bindR_def)
  next
    case (Inr x)
    obtain r2 tr2 where f: "f x tr1 = (r2, tr2)" by (cases "f x tr1")
    from appendsD [OF assms(2) f] obtain b where "tr2 = tr1 @ b" "P (err_of r2) b" by blast
    with Inr a m f join [of a "err_of r2" b] show ?thesis by (simp add: bindR_def)
  qed
qed

lemmas appends_rules = appends_pure appends_fail appends_emit appends_check appends_bind

end

text \<open>A law that the single events of the start obey is obeyed by the whole of it.\<close>

locale start_law = trace_law +
  assumes warns: "\<And>msg. P None [Warns msg]"
    and opens: "\<And>r. r \<notin> {RSink, RPool, RSub} \<Longrightarrow> P None [Opens r, Defers r]"
    and sink: "P None [Opens RSink]"
    and no_pong: "\<And>x. P (Some (RunPing x)) [Opens RObjects]"
begin

lemma appends_warn: "appends P (warn_if b msg)"
  by (auto simp: warn_if_def intro: appends_emit warns empty)

lemma appends_open: "r \<notin> {RSink, RPool, RSub} \<Longrightarrow> appends P (open_deferred r)"
  by (simp add: open_deferred_def appends_emit opens)

lemma config_law: "appends P (run_config e)"
  by (cases "config_Load (rn_cfg e)") (simp_all add: run_config_def appends_pure appends_fail)

lemma logs_law: "appends P (run_logs e)"
  by (simp add: run_logs_def appends_open appends_pure)

lemma profiles_law: "appends P (run_profiles e c)"
  by (auto simp: run_profiles_def appends_pure appends_fail split: sum.split)

lemma bus_law: "appends P (run_bus e c)"
  unfolding run_bus_def by (intro appends_bind appends_check appends_open appends_warn appends_emit sink) simp

lemma objects_law: "appends P (run_objects e c)"
proof (cases "cf_RedisURL c = []")
  case True
  then show ?thesis by (simp add: run_objects_def appends_bind appends_warn appends_pure)
next
  case False
  show ?thesis
  proof (cases "NewRedisStore (rn_parse e) (cf_RedisURL c) RedisTimeout")
    case (Inl x)
    with False show ?thesis by (simp add: run_objects_def appends_fail)
  next
    case (Inr st)
    with False opens [of RObjects] no_pong show ?thesis
      by (cases "redis_Ping (rn_ping e)")
        (simp_all add: run_objects_def appends_def bindR_def emit_def check_def pureR_def failR_def)
  qed
qed

lemma blobs_law: "appends P (run_blobs e c)"
  unfolding run_blobs_def
proof (rule appends_bind)
  show "appends P (case LogInternalRedis (rn_redacted e) (cf_InternalURL c) (cf_InternalFrom c) of
      RedisWarn msg url \<Rightarrow> warn_if True msg | RedisInfo msg url \<Rightarrow> pureR ())"
    by (simp add: appends_warn appends_pure split: redis_line.split)
qed (auto intro: appends_pure appends_fail appends_bind appends_open split: sum.split)

lemma mirror_law: "appends P (run_mirror e st)"
  unfolding run_mirror_def by (intro appends_bind appends_open appends_pure) simp

lemma resolver_law: "appends P (run_resolver e c)"
  by (simp add: run_resolver_def appends_pure appends_bind appends_check appends_open)

lemma secret_law: "appends P (run_secret c snap)"
  by (simp add: run_secret_def appends_warn)

lemma setup_law: "appends P (run_setup e)"
  unfolding run_setup_def split_def
  by (intro appends_bind config_law logs_law profiles_law bus_law objects_law blobs_law mirror_law resolver_law
      secret_law appends_pure)

end

text \<open>Events that do not happen during the start: it neither serves nor subscribes, makes no queue and closes nothing.\<close>

definition early :: "run_err option \<Rightarrow> life_event list \<Rightarrow> bool" where
  "early oe evs \<longleftrightarrow> set evs \<inter> {Serves, Drains, Opens RPool, Opens RSub} = {} \<and> set evs \<inter> range Closes = {}"

interpretation early: start_law early
  by unfold_locales (auto simp: early_def)

text \<open>
  What is opened has its deferred call, but for the three that the orderly stop closes, and for the
  store of objects when it does not answer.
\<close>

definition tidy :: "run_err option \<Rightarrow> life_event list \<Rightarrow> bool" where
  "tidy oe evs \<longleftrightarrow> (\<forall>r. Opens r \<in> set evs \<longrightarrow>
     Defers r \<in> set evs \<or> r \<in> {RSink, RPool, RSub} \<or> r = RObjects \<and> (\<exists>x. oe = Some (RunPing x)))"

interpretation tidied: start_law tidy
  by unfold_locales (auto simp: tidy_def)

text \<open>None of the three has a deferred call.\<close>

definition undeferred :: "run_err option \<Rightarrow> life_event list \<Rightarrow> bool" where
  "undeferred oe evs \<longleftrightarrow> set evs \<inter> {Defers RSink, Defers RPool, Defers RSub} = {}"

interpretation undeferred: start_law undeferred
  by unfold_locales (auto simp: undeferred_def)

subsection \<open>A successful start\<close>

lemma run_m_simps [simp]:
  "pureR x tr = (Inr y, tr') \<longleftrightarrow> y = x \<and> tr' = tr" "failR err tr = (Inr y, tr') \<longleftrightarrow> False"
  "emit evs tr = (Inr u, tr') \<longleftrightarrow> tr' = tr @ evs"
  "bindR m f tr = (Inr z, tr') \<longleftrightarrow> (\<exists>v tr1. m tr = (Inr v, tr1) \<and> f v tr1 = (Inr z, tr'))"
  "check g oe tr = (Inr u, tr') \<longleftrightarrow> oe = None \<and> tr' = tr"
  by (auto simp: pureR_def failR_def emit_def bindR_def check_def split: prod.splits sum.splits option.splits)

lemma deferred_simps [simp]:
  "deferred [] = []" "deferred (a @ b) = deferred a @ deferred b" "deferred (Defers r # evs) = r # deferred evs"
  "deferred (Opens r # evs) = deferred evs" "deferred (Closes r # evs) = deferred evs"
  "deferred (Warns msg # evs) = deferred evs" "deferred (Serves # evs) = deferred evs"
  "deferred (Drains # evs) = deferred evs"
  by (simp_all add: deferred_def List.map_filter_def)

definition setup_defers :: "run_env \<Rightarrow> config \<Rightarrow> resource list" where
  "setup_defers e c =
     (if ships_logs e then [RLogs] else []) @ [RBus] @ (if cf_RedisURL c = [] then [] else [RObjects]) @
     (if cf_InternalURL c = [] then [] else [RBlobs]) @ [RMirror] @ (if cf_GeoAddr c = [] then [] else [RResolver])"

lemma run_config_Inr: "run_config e tr = (Inr c, tr') \<longleftrightarrow> config_Load (rn_cfg e) = Inr c \<and> tr' = tr"
  by (auto simp: run_config_def split: sum.splits)

lemma run_logs_Inr:
  "run_logs e tr = (Inr u, tr') \<Longrightarrow> deferred tr' = deferred tr @ (if ships_logs e then [RLogs] else [])"
  by (auto simp: run_logs_def open_deferred_def split: if_splits)

lemma run_profiles_Inr:
  "run_profiles e c tr = (Inr x, tr') \<Longrightarrow> tr' = tr \<and>
     (\<exists>st0. NewStore (ae_uni (rn_apply e)) (ae_yaml (rn_apply e)) (rn_fs e) (dir_path (cf_ProfilesDir c)) = Inr st0 \<and>
        x = desired_Bootstrap (rn_apply e) (dir_path (cf_DataDir c)) (dd_live (rn_dirs e)) st0)"
  by (auto simp: run_profiles_def split: sum.splits)

lemma run_bus_Inr: "run_bus e c tr = (Inr u, tr') \<Longrightarrow> deferred tr' = deferred tr @ [RBus]"
  by (auto simp: run_bus_def open_deferred_def warn_if_def)

lemma run_objects_Inr:
  "run_objects e c tr = (Inr ld, tr') \<Longrightarrow> deferred tr' = deferred tr @ (if cf_RedisURL c = [] then [] else [RObjects]) \<and>
     ld = bodyLoader (if cf_RedisURL c = [] then None else Some (rn_client e))"
  by (auto simp: run_objects_def warn_if_def split: if_splits sum.splits)

lemma run_blobs_Inr:
  "run_blobs e c tr = (Inr bl, tr') \<Longrightarrow> deferred tr' = deferred tr @ (if cf_InternalURL c = [] then [] else [RBlobs]) \<and>
     (bl = None \<longleftrightarrow> cf_InternalURL c = [])"
  by (auto simp: run_blobs_def warn_if_def open_deferred_def split: if_splits sum.splits redis_line.splits)

lemma run_mirror_Inr:
  "run_mirror e st tr = (Inr x, tr') \<Longrightarrow> deferred tr' = deferred tr @ [RMirror] \<and>
     x = (OnLoad st, on_load (rn_subs e) (rn_time e) (st_current st) mirror_New)"
  by (auto simp: run_mirror_def open_deferred_def)

lemma run_resolver_Inr:
  "run_resolver e c tr = (Inr u, tr') \<Longrightarrow> deferred tr' = deferred tr @ (if cf_GeoAddr c = [] then [] else [RResolver])"
  by (auto simp: run_resolver_def open_deferred_def split: if_splits)

lemma run_secret_Inr: "run_secret c snap tr = (Inr u, tr') \<Longrightarrow> deferred tr' = deferred tr"
  by (auto simp: run_secret_def warn_if_def)

lemma run_setup_Inr:
  assumes "run_setup e tr = (Inr (c, (restored, st), ld, bl, st1, m), tr')"
  shows "config_Load (rn_cfg e) = Inr c" "deferred tr' = deferred tr @ setup_defers e c"
    "\<exists>st0. NewStore (ae_uni (rn_apply e)) (ae_yaml (rn_apply e)) (rn_fs e) (dir_path (cf_ProfilesDir c)) = Inr st0 \<and>
       desired_Bootstrap (rn_apply e) (dir_path (cf_DataDir c)) (dd_live (rn_dirs e)) st0 = (restored, st)"
    "ld = bodyLoader (if cf_RedisURL c = [] then None else Some (rn_client e))"
    "bl = None \<longleftrightarrow> cf_InternalURL c = []"
    "st1 = OnLoad st" "m = on_load (rn_subs e) (rn_time e) (st_current st) mirror_New"
proof -
  from assms obtain u1 u2 u3 u4 t1 t2 t3 t4 t5 t6 t7 where c: "config_Load (rn_cfg e) = Inr c"
    and st: "run_logs e tr = (Inr u1, t1)" "run_profiles e c t1 = (Inr (restored, st), t2)"
      "run_bus e c t2 = (Inr u2, t3)" "run_objects e c t3 = (Inr ld, t4)" "run_blobs e c t4 = (Inr bl, t5)"
      "run_mirror e st t5 = (Inr (st1, m), t6)" "run_resolver e c t6 = (Inr u3, t7)"
      "run_secret c (st_current st) t7 = (Inr u4, tr')"
    unfolding run_setup_def by (auto simp: run_config_Inr split: prod.splits)
  from c show "config_Load (rn_cfg e) = Inr c" .
  from run_logs_Inr [OF st(1)] run_profiles_Inr [OF st(2)] run_bus_Inr [OF st(3)] run_objects_Inr [OF st(4)]
    run_blobs_Inr [OF st(5)] run_mirror_Inr [OF st(6)] run_resolver_Inr [OF st(7)] run_secret_Inr [OF st(8)]
  show "deferred tr' = deferred tr @ setup_defers e c" by (simp add: setup_defers_def)
  from run_profiles_Inr [OF st(2)] show
    "\<exists>st0. NewStore (ae_uni (rn_apply e)) (ae_yaml (rn_apply e)) (rn_fs e) (dir_path (cf_ProfilesDir c)) = Inr st0 \<and>
       desired_Bootstrap (rn_apply e) (dir_path (cf_DataDir c)) (dd_live (rn_dirs e)) st0 = (restored, st)" by auto
  from run_objects_Inr [OF st(4)] show "ld = bodyLoader (if cf_RedisURL c = [] then None else Some (rn_client e))" by simp
  from run_blobs_Inr [OF st(5)] show "bl = None \<longleftrightarrow> cf_InternalURL c = []" by simp
  from run_mirror_Inr [OF st(6)] show "st1 = OnLoad st" "m = on_load (rn_subs e) (rn_time e) (st_current st) mirror_New"
    by simp_all
qed

lemma run_queue_Inr:
  "run_queue e c tr = (Inr g, tr') \<longleftrightarrow> rn_subscribe e (cf_Subject c) (cf_Queue c) = None \<and>
     rn_limits e (cf_QueueDepth c + cf_Workers c + 2) (8 * 1024 * 1024) = None \<and>
     g = go_start (nat (cf_Workers c)) (run_pool c) \<and> tr' = tr @ [Opens RPool, Opens RSub]"
  by (auto simp: run_queue_def)

text \<open>The watcher and the heartbeat cannot fail the start.\<close>

lemma run_watch_Inr:
  "\<exists>ow new. run_watch e c st tr = (Inr ow, tr @ new) \<and> deferred new = [RContext] \<and> early None new \<and> tidy None new \<and>
     (ow = None \<or> ow = Some \<lparr>dw_state = watch_state e c st, dw_pending = None, dw_armed = False\<rparr>)"
  by (auto simp: run_watch_def bindR_def open_deferred_def emit_def warn_if_def pureR_def desired_Watch_def early_def
      tidy_def watch_state_def split: option.splits)

lemma run_beat_Inr:
  "run_beat e c g ow st tr =
     (Inr (beat_after e c (rn_pool e (gs_pool g)) (rn_turns e) ow st), tr @ [Opens RBeat, Defers RBeat])"
  by (simp add: run_beat_def bindR_def open_deferred_def emit_def pureR_def)

subsection \<open>The run as a whole\<close>

lemma run_service_Inr:
  assumes "run_service e [] = (Inr sv, tr)"
  obtains c restored st ld bl m tr1 new ow where
    "run_setup e [] = (Inr (c, (restored, st), ld, bl, OnLoad st, m), tr1)"
    "tr = tr1 @ [Opens RPool, Opens RSub] @ new @ [Opens RBeat, Defers RBeat]"
    "deferred new = [RContext]" "early None new" "tidy None new"
    "ow = None \<or> ow = Some \<lparr>dw_state = watch_state e c (OnLoad st), dw_pending = None, dw_armed = False\<rparr>"
    "sv = \<lparr>sv_cfg = c, sv_restored = restored, sv_store = OnLoad st, sv_loader = ld, sv_blobs = bl, sv_mirror = m,
        sv_goroutines = go_start (nat (cf_Workers c)) (run_pool c), sv_watch = ow,
        sv_beat = beat_after e c (rn_pool e (run_pool c)) (rn_turns e) ow (OnLoad st)\<rparr>"
proof -
  from assms obtain c restored st ld bl st1 m tr1 where
    s: "run_setup e [] = (Inr (c, (restored, st), ld, bl, st1, m), tr1)"
    and r: "bindR (run_queue e c) (\<lambda>g. bindR (run_watch e c st1) (\<lambda>ow. bindR (run_beat e c g ow st1) (\<lambda>hb.
      pureR \<lparr>sv_cfg = c, sv_restored = restored, sv_store = st1, sv_loader = ld, sv_blobs = bl, sv_mirror = m,
            sv_goroutines = g, sv_watch = ow, sv_beat = hb\<rparr>))) tr1 = (Inr sv, tr)"
    unfolding run_service_def by (auto split: prod.splits)
  have st1: "st1 = OnLoad st" using run_setup_Inr(6) [OF s] .
  from run_watch_Inr [of e c st1 "tr1 @ [Opens RPool, Opens RSub]"] obtain ow new where
    "run_watch e c st1 (tr1 @ [Opens RPool, Opens RSub]) = (Inr ow, (tr1 @ [Opens RPool, Opens RSub]) @ new)"
    "deferred new = [RContext]" "early None new" "tidy None new"
    "ow = None \<or> ow = Some \<lparr>dw_state = watch_state e c st1, dw_pending = None, dw_armed = False\<rparr>" by blast
  with s r st1 show thesis
    by (intro that [of c restored st ld bl m tr1 new ow]) (simp_all add: run_queue_Inr run_beat_Inr go_start_def)
qed

lemma run_service_Inl:
  assumes "run_service e [] = (Inl err, tr)"
  shows "run_setup e [] = (Inl err, tr) \<or>
    (\<exists>x tr1. run_setup e [] = (Inr x, tr1) \<and>
       ((\<exists>why. err = RunSubscribe why) \<and> tr = tr1 @ [Opens RPool] \<or>
        (\<exists>why. err = RunLimits why) \<and> tr = tr1 @ [Opens RPool, Opens RSub]))"
proof (cases "run_setup e []")
  case (Pair r tr1)
  show ?thesis
  proof (cases r)
    case (Inl a)
    with Pair assms show ?thesis by (simp add: run_service_def bindR_def)
  next
    case (Inr x)
    obtain c restored st0 ld bl st m where x: "x = (c, (restored, st0), ld, bl, st, m)" by (cases x) auto
    have "\<exists>z. run_watch e c st t = (Inr (fst z), snd z)" for t using run_watch_Inr [of e c st t] by auto
    then have "run_watch e c st t \<noteq> (Inl err, t')" for t t' by (metis Inl_Inr_False prod.inject)
    with Pair Inr x assms show ?thesis
      by (auto simp: run_service_def bindR_def run_queue_def emit_def check_def pureR_def failR_def run_beat_Inr
          split: option.splits sum.splits prod.splits)
  qed
qed

lemma run_stop_eq: "run_stop e tr = (Inr (), tr @ [Serves, Closes RContext, Drains] @
    (if rn_drain e = None then [] else [Warns ''drain failed'']) @ [Closes RPool, Closes RSink])"
  by (simp add: run_stop_def bindR_def emit_def warn_if_def)

lemma run_cases:
  "run e = (case run_service e [] of
     (Inl err, tr) \<Rightarrow> (Inl err, tr @ map Closes (rev (deferred tr)))
   | (Inr sv, tr) \<Rightarrow> (Inr sv, tr @ [Serves, Closes RContext, Drains] @
       (if rn_drain e = None then [] else [Warns ''drain failed'']) @ [Closes RPool, Closes RSink] @
       map Closes (rev (deferred tr))))"
  by (auto simp: run_def bindR_def run_stop_eq pureR_def split: prod.splits sum.splits)

lemma deferred_mem: "r \<in> set (deferred tr) \<longleftrightarrow> Defers r \<in> set tr"
  by (induction tr) (auto simp: deferred_def List.map_filter_def split: life_event.splits)

lemma run_m_Inl:
  "pureR y tr = (Inl err, tr') \<longleftrightarrow> False" "failR x tr = (Inl err, tr') \<longleftrightarrow> err = x \<and> tr' = tr"
  "emit evs tr = (Inl err, tr') \<longleftrightarrow> False"
  "bindR m f tr = (Inl err, tr') \<longleftrightarrow> m tr = (Inl err, tr') \<or> (\<exists>v tr1. m tr = (Inr v, tr1) \<and> f v tr1 = (Inl err, tr'))"
  "check g oe tr = (Inl err, tr') \<longleftrightarrow> (\<exists>x. oe = Some x \<and> err = g x) \<and> tr' = tr"
  by (auto simp: pureR_def failR_def emit_def bindR_def check_def split: prod.splits sum.splits option.splits)

text \<open>Where the steps of the start fail, and what they have opened by then.\<close>

definition before_sink :: "run_err \<Rightarrow> bool" where
  "before_sink err \<longleftrightarrow> (case err of RunConfig x \<Rightarrow> True | RunProfiles x \<Rightarrow> True | RunBus x \<Rightarrow> True | _ \<Rightarrow> False)"

lemma setup_failures:
  "\<not> run_logs e tr = (Inl err, tr')" "\<not> run_mirror e st tr = (Inl err, tr')" "\<not> run_secret c snap tr = (Inl err, tr')"
  "run_config e tr = (Inl err, tr') \<Longrightarrow> before_sink err \<and> tr' = tr"
  "run_profiles e c tr = (Inl err, tr') \<Longrightarrow> before_sink err \<and> tr' = tr"
  "run_bus e c tr = (Inl err, tr') \<Longrightarrow> before_sink err \<and> tr' = tr"
  "run_objects e c tr = (Inl err, tr') \<Longrightarrow>
     (\<exists>x. err = RunObjects x) \<and> tr' = tr \<or> (\<exists>x. err = RunPing x) \<and> tr' = tr @ [Opens RObjects]"
  "run_blobs e c tr = (Inl err, tr') \<Longrightarrow> \<exists>x. err = RunBlobs x"
  "run_resolver e c tr = (Inl err, tr') \<Longrightarrow> \<exists>x. err = RunGeo x"
  by (auto simp: run_logs_def run_mirror_def run_secret_def run_config_def run_profiles_def run_bus_def run_objects_def
      run_blobs_def run_resolver_def open_deferred_def warn_if_def run_m_Inl before_sink_def
      split: if_splits sum.splits redis_line.splits)

interpretation anything: start_law "\<lambda>_ _. True"
  by unfold_locales simp_all

lemma setup_grows:
  "run_objects e c tr = (r1, tr') \<Longrightarrow> set tr \<subseteq> set tr'" "run_blobs e c tr = (r2, tr') \<Longrightarrow> set tr \<subseteq> set tr'"
  "run_mirror e st tr = (r3, tr') \<Longrightarrow> set tr \<subseteq> set tr'" "run_resolver e c tr = (r4, tr') \<Longrightarrow> set tr \<subseteq> set tr'"
  using appendsD [OF anything.objects_law] appendsD [OF anything.blobs_law] appendsD [OF anything.mirror_law]
    appendsD [OF anything.resolver_law] by fastforce+

lemma run_secret_grows: "run_secret c snap t = (Inr u, t') \<Longrightarrow> Opens RSink \<in> set t \<longrightarrow> Opens RSink \<in> set t'"
  by (auto simp: run_secret_def warn_if_def)

lemma setup_before:
  "run_logs e [] = (Inr u, t) \<Longrightarrow> Opens RSink \<notin> set t \<and> Defers RObjects \<notin> set t"
  "run_profiles e c t = (Inr x, t') \<Longrightarrow> t' = t"
  "run_bus e c t = (Inr v, t') \<Longrightarrow> Opens RSink \<in> set t' \<and> (Defers RObjects \<in> set t' \<longrightarrow> Defers RObjects \<in> set t)"
  by (auto simp: run_logs_def run_bus_def open_deferred_def warn_if_def dest: run_profiles_Inr split: if_splits)

lemma setup_after:
  "run_objects e c t = (Inr ld, t') \<Longrightarrow> Opens RSink \<in> set t \<longrightarrow> Opens RSink \<in> set t'"
  "run_blobs e c t = (Inl err, t') \<Longrightarrow> (\<exists>x. err = RunBlobs x) \<and> (Opens RSink \<in> set t \<longrightarrow> Opens RSink \<in> set t')"
  "run_blobs e c t = (Inr bl, t') \<Longrightarrow> Opens RSink \<in> set t \<longrightarrow> Opens RSink \<in> set t'"
  "run_mirror e st t = (Inr sm, t') \<Longrightarrow> Opens RSink \<in> set t \<longrightarrow> Opens RSink \<in> set t'"
  "run_resolver e c t = (Inl err, t') \<Longrightarrow> (\<exists>x. err = RunGeo x) \<and> (Opens RSink \<in> set t \<longrightarrow> Opens RSink \<in> set t')"
  using setup_failures(8,9) by (blast dest: setup_grows)+

lemma run_setup_sink: "run_setup e [] = (Inr x, tr) \<Longrightarrow> Opens RSink \<in> set tr"
  unfolding run_setup_def
  by (auto split: prod.splits dest!: setup_before(3) setup_after run_secret_grows setup_grows(4) [THEN subsetD])

lemma run_setup_Inl:
  assumes "run_setup e [] = (Inl err, tr)"
  shows "(Opens RSink \<in> set tr \<longleftrightarrow> \<not> before_sink err) \<and> ((\<exists>x. err = RunPing x) \<longrightarrow> Defers RObjects \<notin> set tr) \<and>
    (\<forall>x. err \<noteq> RunSubscribe x \<and> err \<noteq> RunLimits x)"
proof -
  have known: "\<forall>x. err \<noteq> RunSubscribe x \<and> err \<noteq> RunLimits x" if "before_sink err"
    using that by (auto simp: before_sink_def)
  from assms consider (early) "before_sink err" "Opens RSink \<notin> set tr"
    | (objects) "(\<exists>x. err = RunObjects x) \<or> (\<exists>x. err = RunPing x)" "Opens RSink \<in> set tr" "Defers RObjects \<notin> set tr"
    | (late) "(\<exists>x. err = RunBlobs x) \<or> (\<exists>x. err = RunGeo x)" "Opens RSink \<in> set tr"
    unfolding run_setup_def
    by (auto simp: run_m_Inl setup_failures(1-3) run_config_Inr split: prod.splits
        dest!: setup_failures(4-7) setup_before setup_after)
  then show ?thesis
    by cases (use known in \<open>auto simp: before_sink_def\<close>)
qed

text \<open>
  C28.  A start that fails.  The exit code is 1.  The start has closed nothing until it fails; then the
  deferred calls close what it opened, the latest first - all but four resources, which stay open until
  the process ends: the audit sink, open from the moment the bus was reached; the queue with its
  goroutines, when the subscription or its limits are refused; the subscription itself, when its
  limits are refused, so that messages may have been handled by then and are neither drained nor
  waited for; and the store of objects, when it does not answer its first ping.
\<close>

theorem failed_start:
  assumes "run e = (Inl err, tr)"
  shows "main_exit e = 1 \<and>
    (\<exists>begun. tr = begun @ map Closes (rev (deferred begun)) \<and> set begun \<inter> range Closes = {} \<and>
       (\<forall>r. Opens r \<in> set begun \<longrightarrow>
          (Closes r \<notin> set tr \<longleftrightarrow> r \<in> {RSink, RPool, RSub} \<or> r = RObjects \<and> (\<exists>x. err = RunPing x)))) \<and>
    (Opens RSink \<in> set tr \<longleftrightarrow> \<not> before_sink err) \<and>
    (Opens RPool \<in> set tr \<longleftrightarrow> (\<exists>x. err = RunSubscribe x \<or> err = RunLimits x)) \<and>
    (Opens RSub \<in> set tr \<longleftrightarrow> (\<exists>x. err = RunLimits x))"
proof -
  from assms obtain begun where s: "run_service e [] = (Inl err, begun)"
    and tr: "tr = begun @ map Closes (rev (deferred begun))"
    by (auto simp: run_cases split: prod.splits sum.splits)
  from run_service_Inl [OF s] obtain r0 tr1 where su: "run_setup e [] = (r0, tr1)"
    and c: "r0 = Inl err \<and> begun = tr1 \<or> (\<exists>x. r0 = Inr x) \<and> ((\<exists>why. err = RunSubscribe why) \<and> begun = tr1 @ [Opens RPool] \<or>
        (\<exists>why. err = RunLimits why) \<and> begun = tr1 @ [Opens RPool, Opens RSub])" by auto
  from appendsD [OF early.setup_law su] appendsD [OF tidied.setup_law su] appendsD [OF undeferred.setup_law su]
  have laws: "early (err_of r0) tr1" "tidy (err_of r0) tr1" "undeferred (err_of r0) tr1" by auto
  have sink: "(Opens RSink \<in> set tr1 \<longleftrightarrow> (\<exists>x. r0 = Inr x) \<or> \<not> before_sink err) \<and>
      (r0 = Inl err \<longrightarrow> ((\<exists>x. err = RunPing x) \<longrightarrow> Defers RObjects \<notin> set tr1) \<and>
         (\<forall>x. err \<noteq> RunSubscribe x \<and> err \<noteq> RunLimits x))"
    using c run_setup_Inl [of e err tr1] run_setup_sink [of e _ tr1] su by auto
  have closes: "Closes r \<in> set tr \<longleftrightarrow> Defers r \<in> set begun" for r
    using c laws(1) by (auto simp: tr deferred_mem early_def)
  have opens: "Opens r \<in> set tr \<longleftrightarrow> Opens r \<in> set begun" for r by (auto simp: tr)
  have "set begun \<inter> range Closes = {}" using c laws(1) by (auto simp: early_def)
  moreover have "\<forall>r. Opens r \<in> set begun \<longrightarrow>
      (Closes r \<notin> set tr \<longleftrightarrow> r \<in> {RSink, RPool, RSub} \<or> r = RObjects \<and> (\<exists>x. err = RunPing x))"
    unfolding closes using c laws sink by (auto simp: tidy_def undeferred_def)
  moreover have "(Opens RSink \<in> set tr \<longleftrightarrow> \<not> before_sink err) \<and>
      (Opens RPool \<in> set tr \<longleftrightarrow> (\<exists>x. err = RunSubscribe x \<or> err = RunLimits x)) \<and>
      (Opens RSub \<in> set tr \<longleftrightarrow> (\<exists>x. err = RunLimits x))"
    unfolding opens using c laws(1) sink by (auto simp: early_def before_sink_def)
  ultimately show ?thesis using assms tr by (auto simp: main_exit_def)
qed

text \<open>
  C27.  The orderly stop.  After a signal the program cancels its watchers, drains the subscription,
  closes the queue, then the audit sink, and only then, latest first, what it opened at the start:
  heartbeat, context, resolver, mirror, lists, objects, the bus and last the log shipping; so the
  bus is open while queued tasks are answered and audit records are flushed.  Nothing is closed
  earlier, everything opened but the subscription is closed, and the exit code is 0.
\<close>

theorem orderly_stop:
  assumes "run e = (Inr sv, tr)"
  shows "main_exit e = 0 \<and> (\<exists>begun. set begun \<inter> range Closes = {} \<and> Serves \<notin> set begun \<and>
    (\<forall>r. Opens r \<in> set begun \<and> r \<noteq> RSub \<longrightarrow> Closes r \<in> set tr) \<and>
    tr = begun @ [Serves, Closes RContext, Drains] @ (if rn_drain e = None then [] else [Warns ''drain failed'']) @
      map Closes ([RPool, RSink, RBeat, RContext] @ rev (setup_defers e (sv_cfg sv))))"
proof -
  from assms obtain begun where s: "run_service e [] = (Inr sv, begun)"
    and tr: "tr = begun @ [Serves, Closes RContext, Drains] @
      (if rn_drain e = None then [] else [Warns ''drain failed'']) @ [Closes RPool, Closes RSink] @
      map Closes (rev (deferred begun))"
    by (auto simp: run_cases split: prod.splits sum.splits)
  from s obtain c restored st ld bl m tr1 new ow where
    su: "run_setup e [] = (Inr (c, (restored, st), ld, bl, OnLoad st, m), tr1)"
    and b: "begun = tr1 @ [Opens RPool, Opens RSub] @ new @ [Opens RBeat, Defers RBeat]"
    and n: "deferred new = [RContext]" "early None new" "tidy None new" and c: "sv_cfg sv = c"
    by (rule run_service_Inr) simp
  from appendsD [OF early.setup_law su] appendsD [OF tidied.setup_law su]
  have "early None tr1" "tidy None tr1" by auto
  with n b have "set begun \<inter> range Closes = {}" "Serves \<notin> set begun" "tidy None begun"
    by (auto simp: early_def tidy_def)
  moreover have "rev (deferred begun) = [RBeat, RContext] @ rev (setup_defers e c)"
    using b n(1) run_setup_Inr(2) [OF su] by simp
  moreover have "\<forall>r. Opens r \<in> set begun \<and> r \<noteq> RSub \<longrightarrow> Closes r \<in> set tr"
    using \<open>tidy None begun\<close> by (auto simp: tidy_def tr deferred_mem)
  ultimately show ?thesis using assms by (intro conjI exI [of _ begun]) (simp_all add: main_exit_def tr c)
qed

subsection \<open>The started service\<close>

lemma NewStore_wf: "NewStore u y fs dir = Inr st \<Longrightarrow> wf_snapshot u (st_current st)"
  by (auto simp: NewStore_def dest: LoadDir_Inr(1) split: sum.splits)

lemma Bootstrap_wf:
  assumes "desired_Bootstrap ae dataDir live st0 = (restored, st)" and "wf_snapshot (ae_uni ae) (st_current st0)"
  shows "wf_snapshot (ae_uni ae) (st_current st)"
  using assms
  by (auto simp: desired_Bootstrap_def reload_live_cases load_tree_def dest: LoadDir_Inr(1)
      split: if_splits option.splits sum.splits)

lemma OnLoad_current [simp]: "st_current (OnLoad st) = st_current st"
  by (simp add: OnLoad_def)

text \<open>
  C16.  What serves is sound.  When the program comes to serve, its configuration is usable, at least
  one worker runs on a queue made empty with the configured depth, and every profile loaded is well
  formed.  Every dynamic list that a rule of them asks about is registered with the mirror, which
  follows it exactly when its subscription succeeded.  The first heartbeat is sent while the watchers
  already run: if the one of the desired state is on and has reported on a generation by then, it
  carries that report, and otherwise it names the profiles of the store at that moment, which are the
  ones loaded at the start if the watchers had no turn yet.
\<close>

theorem started_service:
  assumes "run e = (Inr sv, tr)"
  shows "valid_config (rn_cfg e) (sv_cfg sv) \<and>
    sv_goroutines sv = go_start (nat (cf_Workers (sv_cfg sv))) (run_pool (sv_cfg sv)) \<and> 0 < nat (cf_Workers (sv_cfg sv)) \<and>
    int (pl_depth (gs_pool (sv_goroutines sv))) = cf_QueueDepth (sv_cfg sv) \<and>
    wf_snapshot (ae_uni (rn_apply e)) (st_current (sv_store sv)) \<and> mirror_reach (sv_mirror sv) \<and>
    (\<forall>n p r l. map_of (st_current (sv_store sv)) n = Some p \<longrightarrow> r \<in> set (p_Rules p) \<longrightarrow> r_Listed r = Some l \<longrightarrow>
       \<not> lc_Static l \<longrightarrow> lc_List l \<noteq> [] \<longrightarrow> mi_sets (sv_mirror sv) (lc_List l) \<noteq> None \<and>
         (mi_runs (sv_mirror sv) (lc_List l) \<noteq> None \<longleftrightarrow> rn_subs e (lc_List l))) \<and>
    (let s = beat_state e (sv_cfg sv) (rn_turns e) (sv_watch sv) (sv_store sv)
     in if sv_watch sv \<noteq> None \<and> ap_apply (ds_applied s) \<noteq> []
        then hb_Apply (sv_beat sv) = ap_apply (ds_applied s) \<and> hb_ConfigHash (sv_beat sv) = ap_hash (ds_applied s) \<and>
          hb_Rev (sv_beat sv) = ap_rev (ds_applied s) \<and> hb_Profiles (sv_beat sv) = ap_names (ds_applied s)
        else hb_Apply (sv_beat sv) = [] \<and> hb_Profiles (sv_beat sv) = Names (st_current (ds_store s))) \<and>
    (rn_turns e = [] \<longrightarrow> hb_Profiles (sv_beat sv) = Names (st_current (sv_store sv)))"
proof -
  from assms obtain tr0 where "run_service e [] = (Inr sv, tr0)"
    by (auto simp: run_cases split: prod.splits sum.splits)
  then obtain c restored st ld bl m tr1 ow where
    su: "run_setup e [] = (Inr (c, (restored, st), ld, bl, OnLoad st, m), tr1)"
    and ow: "ow = None \<or> ow = Some \<lparr>dw_state = watch_state e c (OnLoad st), dw_pending = None, dw_armed = False\<rparr>"
    and sv: "sv = \<lparr>sv_cfg = c, sv_restored = restored, sv_store = OnLoad st, sv_loader = ld, sv_blobs = bl, sv_mirror = m,
        sv_goroutines = go_start (nat (cf_Workers c)) (run_pool c), sv_watch = ow,
        sv_beat = beat_after e c (rn_pool e (run_pool c)) (rn_turns e) ow (OnLoad st)\<rparr>"
    by (rule run_service_Inr)
  note su = run_setup_Inr [OF su]
  have v: "valid_config (rn_cfg e) c" using su(1) by (rule config_Load_Inr)
  from su(3) have wf: "wf_snapshot (ae_uni (rn_apply e)) (st_current st)"
    using NewStore_wf Bootstrap_wf by blast
  have mr: "mirror_reach m" unfolding su(7) on_load_def using ensure_all [OF mirror_reach.init] by blast
  have "mi_sets m (lc_List l) \<noteq> None \<and> (mi_runs m (lc_List l) \<noteq> None \<longleftrightarrow> rn_subs e (lc_List l))"
    if "map_of (st_current st) n = Some p" "r \<in> set (p_Rules p)" "r_Listed r = Some l" "\<not> lc_Static l" "lc_List l \<noteq> []"
    for n p r l
    unfolding su(7) using that by (rule started_lists_followed)
  with v wf mr have "valid_config (rn_cfg e) (sv_cfg sv) \<and>
    sv_goroutines sv = go_start (nat (cf_Workers (sv_cfg sv))) (run_pool (sv_cfg sv)) \<and> 0 < nat (cf_Workers (sv_cfg sv)) \<and>
    int (pl_depth (gs_pool (sv_goroutines sv))) = cf_QueueDepth (sv_cfg sv) \<and>
    wf_snapshot (ae_uni (rn_apply e)) (st_current (sv_store sv)) \<and> mirror_reach (sv_mirror sv) \<and>
    (\<forall>n p r l. map_of (st_current (sv_store sv)) n = Some p \<longrightarrow> r \<in> set (p_Rules p) \<longrightarrow> r_Listed r = Some l \<longrightarrow>
       \<not> lc_Static l \<longrightarrow> lc_List l \<noteq> [] \<longrightarrow> mi_sets (sv_mirror sv) (lc_List l) \<noteq> None \<and>
         (mi_runs (sv_mirror sv) (lc_List l) \<noteq> None \<longleftrightarrow> rn_subs e (lc_List l)))"
    by (auto simp: sv go_start_def run_pool_def pool_New_def valid_config_def)
  moreover have "hb_Profiles (sv_beat sv) = Names (st_current (sv_store sv))" if "rn_turns e = []"
    using ow that by (auto simp: sv beat_after_def beat_state_def beat_report applied_Snapshot_def watch_state_def
        no_applied_def Let_def)
  ultimately show ?thesis
    by (cases ow) (auto simp: sv beat_after_def beat_report applied_Snapshot_def no_applied_def Let_def)
qed

text \<open>
  C29.  The heartbeat is truthful.  Take a started service whose watcher of the desired state is on, and any
  turns of its two watchers, whatever the operating system, the store of lists and the decoder answer
  in each of them and whatever the watcher of the store makes of the store between them; only the parser
  of profiles is the same throughout.  A heartbeat that says \<^verbatim>\<open>ok\<close> carries the hash, the revision and the
  names of a manifest that parsed, and the live tree was written from it without an error and loads.
  One that says \<^verbatim>\<open>apply_failed\<close> carries those of a manifest that parsed, or none at all.  One without a
  report names the profiles of the store.  That the store serves the live tree is not claimed: the
  watcher of the store can undo a reload.
\<close>

theorem heartbeat_truthful:
  assumes "run e = (Inr sv, tr)" and "sv_watch sv \<noteq> None" and "\<forall>x \<in> set ts. turn_env (rn_apply e) x"
    and "s = beat_state e (sv_cfg sv) ts (sv_watch sv) (sv_store sv)"
    and "hb = beat_after e (sv_cfg sv) p ts (sv_watch sv) (sv_store sv)"
  shows "hb_Apply hb \<in> {ApplyOK, ApplyFailed, []} \<and>
    (hb_Apply hb = ApplyOK \<longrightarrow> (\<exists>level mf os old bodies g. wf_manifest level mf \<and> hb_ConfigHash hb = ma_ConfigHash mf \<and>
       hb_Rev hb = ma_Rev mf \<and> hb_Profiles hb = manifest_Names mf \<and>
       write_tree os old mf bodies = (None, dd_live (ds_dirs s)) \<and>
       load_tree (rn_apply e) (dir_path (cf_DataDir (sv_cfg sv))) (dd_live (ds_dirs s)) = Inr g)) \<and>
    (hb_Apply hb = ApplyFailed \<longrightarrow> hb_ConfigHash hb = [] \<and> hb_Rev hb = 0 \<and> hb_Profiles hb = [] \<or>
       (\<exists>level mf. wf_manifest level mf \<and> hb_ConfigHash hb = ma_ConfigHash mf \<and> hb_Rev hb = ma_Rev mf \<and>
          hb_Profiles hb = manifest_Names mf)) \<and>
    (hb_Apply hb = [] \<longrightarrow> hb_Profiles hb = Names (st_current (ds_store s)))"
proof -
  let ?dir = "dir_path (cf_DataDir (sv_cfg sv))"
  from assms(1) obtain tr0 where "run_service e [] = (Inr sv, tr0)"
    by (auto simp: run_cases split: prod.splits sum.splits)
  then obtain w0 where w0: "sv_watch sv = Some w0" "ds_applied (dw_state w0) = no_applied"
    using assms(2) by (elim run_service_Inr) (auto simp: watch_state_def)
  from turns_reach [OF watch_reach.here assms(3), of ?dir w0 True]
  have reach: "watch_reach False (rn_apply e) ?dir w0 (turns ?dir ts True w0)" .
  have s: "s = dw_state (turns ?dir ts True w0)" by (simp add: assms(4) beat_state_def w0(1))
  have hb: "hb = beat (sv_cfg sv) p (Some (ds_applied s)) (ds_store s)"
    by (simp add: assms(4,5) beat_after_def w0(1) Let_def)
  have words: "ap_apply (ds_applied s) \<in> {ApplyOK, ApplyFailed, []}"
    using watch_words [OF reach] w0(2) by (simp add: s no_applied_def)
  from watch_report [OF reach w0(2)] s have inv: "report_inv False (rn_apply e) ?dir (dd_live (ds_dirs (dw_state w0))) s" by simp
  have rep: "hb_ConfigHash hb = ap_hash (ds_applied s) \<and> hb_Rev hb = ap_rev (ds_applied s) \<and> hb_Profiles hb = ap_names (ds_applied s)"
    if "hb_Apply hb \<noteq> []"
    using that by (simp add: hb beat_report applied_Snapshot_def)
  have ap: "hb_Apply hb = ap_apply (ds_applied s)" by (simp add: hb beat_report applied_Snapshot_def)
  show ?thesis
  proof (intro conjI impI)
    show "hb_Apply hb \<in> {ApplyOK, ApplyFailed, []}" using words ap by simp
    show "\<exists>level mf os old bodies g. wf_manifest level mf \<and> hb_ConfigHash hb = ma_ConfigHash mf \<and>
       hb_Rev hb = ma_Rev mf \<and> hb_Profiles hb = manifest_Names mf \<and>
       write_tree os old mf bodies = (None, dd_live (ds_dirs s)) \<and> load_tree (rn_apply e) ?dir (dd_live (ds_dirs s)) = Inr g"
      if "hb_Apply hb = ApplyOK"
      using inv rep ap that unfolding report_inv_def generation_def names_manifest_def by fastforce
    show "hb_ConfigHash hb = [] \<and> hb_Rev hb = 0 \<and> hb_Profiles hb = [] \<or> (\<exists>level mf. wf_manifest level mf \<and>
       hb_ConfigHash hb = ma_ConfigHash mf \<and> hb_Rev hb = ma_Rev mf \<and> hb_Profiles hb = manifest_Names mf)"
      if "hb_Apply hb = ApplyFailed"
      using inv rep that unfolding report_inv_def names_manifest_def by fastforce
    show "hb_Profiles hb = Names (st_current (ds_store s))" if "hb_Apply hb = []"
      using that ap by (simp add: hb beat_report applied_Snapshot_def)
  qed
qed

subsection \<open>From message to reply\<close>

text \<open>
  What the service does with the messages of its subscription: the effects of those that \<open>receive\<close>
  answers itself, the tasks it hands to the queue, and the effects of the handler on the answered
  tasks.  Each call of the handler has its own state of the world (\<open>en i\<close> for the \<open>i\<close>-th call).
\<close>

type_synonym inbox = "(string \<times> string) list"

definition direct_effects :: "handler \<Rightarrow> (string \<Rightarrow> request option) \<Rightarrow> inbox \<Rightarrow> effect list" where
  "direct_effects h unmarshal ms =
     concat (map (\<lambda>(subject, payload). case receive h unmarshal subject payload of Answered fx \<Rightarrow> fx | _ \<Rightarrow> []) ms)"

definition received_tasks :: "handler \<Rightarrow> (string \<Rightarrow> request option) \<Rightarrow> inbox \<Rightarrow> task list" where
  "received_tasks h unmarshal ms =
     List.map_filter (\<lambda>(subject, payload). case receive h unmarshal subject payload of Submitted t \<Rightarrow> Some t | _ \<Rightarrow> None) ms"

text \<open>
  A release of a version the inspector supports is due no reply; the request of every other message
  that parses is due a report.
\<close>

definition is_release :: "handler \<Rightarrow> (string \<Rightarrow> request option) \<Rightarrow> string \<times> string \<Rightarrow> bool" where
  "is_release h unmarshal m \<longleftrightarrow>
     (case protocol_Parse unmarshal (snd m) of
        Inl e \<Rightarrow> False
      | Inr req \<Rightarrow> Supports h (rq_V req) \<and> rq_Release req \<noteq> None)"

definition message_request :: "handler \<Rightarrow> (string \<Rightarrow> request option) \<Rightarrow> string \<times> string \<Rightarrow> request option" where
  "message_request h unmarshal m =
     (case protocol_Parse unmarshal (snd m) of
        Inl e \<Rightarrow> None
      | Inr req \<Rightarrow> if Supports h (rq_V req) \<and> rq_Release req \<noteq> None then None else Some req)"

type_synonym handler_call = "handler \<times> snapshot \<times> gotime \<times> (nat \<Rightarrow> (nat \<Rightarrow> char) option)"

fun handled_effects :: "(nat \<Rightarrow> handler_call) \<Rightarrow> nat \<Rightarrow> (task \<times> string) list \<Rightarrow> effect list" where
  "handled_effects en i [] = []"
| "handled_effects en i ((t, why) # as) =
     (case en i of (h, snap, now, rnds) \<Rightarrow> fst (evaluate h snap t why now rnds)) @ handled_effects en (Suc i) as"

definition published :: "effect list \<Rightarrow> string list" where
  "published fx = List.map_filter (\<lambda>x. case x of EPublish subject body \<Rightarrow> Some subject | _ \<Rightarrow> None) fx"

text \<open>The requests the handler hands to the audit sink; an answer without one leaves no record there.\<close>

definition audit_reqs :: "effect list \<Rightarrow> request list" where
  "audit_reqs fx = List.map_filter (\<lambda>e. case e of EAudit q r d \<Rightarrow> q | EPublish x y \<Rightarrow> None) fx"

lemma published_simps [simp]:
  "published [] = []" "published (a @ b) = published a @ published b"
  "published (EPublish x y # fx) = x # published fx" "published (EAudit q r d # fx) = published fx"
  by (simp_all add: published_def List.map_filter_def)

lemma audit_reqs_simps [simp]:
  "audit_reqs [] = []" "audit_reqs (a @ b) = audit_reqs a @ audit_reqs b"
  "audit_reqs (EPublish x y # fx) = audit_reqs fx"
  "audit_reqs (EAudit (Some q) r d # fx) = q # audit_reqs fx" "audit_reqs (EAudit None r d # fx) = audit_reqs fx"
  by (simp_all add: audit_reqs_def List.map_filter_def)

lemma map_filter_Cons:
  "List.map_filter f (x # xs) = (case f x of None \<Rightarrow> List.map_filter f xs | Some y \<Rightarrow> y # List.map_filter f xs)"
  by (simp add: List.map_filter_def split: option.splits)

lemma handled_published:
  assumes "\<forall>(t, why) \<in> set as. tk_Reply t \<noteq> []"
  shows "published (handled_effects en i as) = map (tk_Reply \<circ> fst) as \<and>
    audit_reqs (handled_effects en i as) = map (tk_Req \<circ> fst) as"
  using assms
proof (induction en i as rule: handled_effects.induct)
  case (2 en i t why as)
  obtain h snap now rnds where h: "en i = (h, snap, now, rnds)" by (cases "en i") auto
  from 2(2) have "tk_Reply t \<noteq> []" by simp
  from evaluate_sends [OF this, of h snap why now rnds] h 2 show ?case by auto
qed simp

text \<open>A message with a reply subject is answered at once or becomes one task, unless it is a release.\<close>

lemma receive_due:
  assumes "subject \<noteq> []"
  shows "case receive h unmarshal subject payload of
      Ignored \<Rightarrow> is_release h unmarshal (subject, payload) \<and> message_request h unmarshal (subject, payload) = None
    | Submitted t \<Rightarrow> \<not> is_release h unmarshal (subject, payload) \<and> tk_Reply t = subject \<and>
        message_request h unmarshal (subject, payload) = Some (tk_Req t)
    | Answered fx \<Rightarrow> \<not> is_release h unmarshal (subject, payload) \<and> published fx = [subject] \<and>
        audit_reqs fx = (case message_request h unmarshal (subject, payload) of None \<Rightarrow> [] | Some q \<Rightarrow> [q])"
proof (cases "protocol_Parse unmarshal payload")
  case (Inl e)
  with assms show ?thesis
    by (simp add: receive_def is_release_def message_request_def handler_send_def reply_Marshal_def fallback_def FallbackReply_def)
next
  case (Inr req)
  from protocol_Parse_Inr [OF Inr] show ?thesis
    using Inr assms send_answer [OF assms, of req] by (auto simp: receive_def is_release_def message_request_def)
qed

lemma inbox_split:
  assumes "\<forall>m \<in> set ms. fst m \<noteq> []"
  shows "mset (published (direct_effects h unmarshal ms)) + mset (map tk_Reply (received_tasks h unmarshal ms)) =
      mset (map fst (filter (\<lambda>m. \<not> is_release h unmarshal m) ms)) \<and>
    mset (audit_reqs (direct_effects h unmarshal ms)) + mset (map tk_Req (received_tasks h unmarshal ms)) =
      mset (List.map_filter (message_request h unmarshal) ms)"
  using assms
proof (induction ms)
  case Nil
  then show ?case by (simp add: direct_effects_def received_tasks_def List.map_filter_def)
next
  case (Cons m ms)
  obtain subject payload where m: "m = (subject, payload)" by (cases m)
  with Cons.prems have "subject \<noteq> []" by simp
  from receive_due [OF this, where h = h and unmarshal = unmarshal and payload = payload] Cons m show ?case
    by (cases "receive h unmarshal subject payload")
      (auto simp: direct_effects_def received_tasks_def map_filter_Cons split: option.splits)
qed

lemma reply_same_task: "tk_Reply (same_task t) = tk_Reply t" "tk_Reply (t\<lparr>tk_enqueued := x\<rparr>) = tk_Reply t"
  by (simp_all add: same_task_def)

text \<open>The effects of a service at rest are the ones due to its messages.\<close>

lemma service_rest:
  assumes "go_reach (go_start workers (pool_New depth reserve minBudget full)) s"
    and "pl_q (gs_pool s) = []" and "g_hands s = {#}" and "\<forall>m \<in> set ms. fst m \<noteq> []"
    and "mset (map (\<lambda>t. t\<lparr>tk_enqueued := 0\<rparr>) (gs_submitted s)) = mset (received_tasks h unmarshal ms)"
  shows "mset (published (direct_effects h unmarshal ms @ handled_effects en 0 (gs_answers s))) =
      mset (map fst (filter (\<lambda>m. \<not> is_release h unmarshal m) ms)) \<and>
    mset (audit_reqs (direct_effects h unmarshal ms @ handled_effects en 0 (gs_answers s))) =
      mset (List.map_filter (message_request h unmarshal) ms)"
proof -
  have answered: "image_mset f (mset (map fst (gs_answers s))) = image_mset f (mset (received_tasks h unmarshal ms))"
    if "\<And>t. f (same_task t) = f t" "\<And>t. f (t\<lparr>tk_enqueued := 0\<rparr>) = f t" for f :: "task \<Rightarrow> 'a"
  proof -
    from known_reach [OF assms(1)] assms(2,3)
    have "image_mset same_task (mset (map fst (gs_answers s))) = image_mset same_task (mset (gs_submitted s))"
      by (simp add: known_def pool_of_def)
    from arg_cong [OF this, of "image_mset f"] arg_cong [OF assms(5), of "image_mset f"] show ?thesis
      by (simp add: multiset.map_comp comp_def that)
  qed
  have "mset (map tk_Reply (received_tasks h unmarshal ms)) \<subseteq># mset (map fst (filter (\<lambda>m. \<not> is_release h unmarshal m) ms))"
    using conjunct1 [OF inbox_split [OF assms(4), of h unmarshal], symmetric] by simp
  from set_mset_mono [OF this] assms(4) have "\<forall>t \<in> set (received_tasks h unmarshal ms). tk_Reply t \<noteq> []" by fastforce
  moreover have "tk_Reply ` fst ` set (gs_answers s) = tk_Reply ` set (received_tasks h unmarshal ms)"
    using arg_cong [OF answered [of tk_Reply], of set_mset] by (simp add: same_task_def)
  ultimately have "\<forall>(t, why) \<in> set (gs_answers s). tk_Reply t \<noteq> []" by force
  from handled_published [OF this, of en 0] answered [of tk_Reply] answered [of tk_Req]
    inbox_split [OF assms(4), of h unmarshal] show ?thesis
    by (simp add: same_task_def multiset.map_comp)
qed

text \<open>
  C5.  Every message is answered exactly once.  Take any run of the goroutines whose submissions are
  the tasks \<open>receive\<close> made of the messages, in any order, and that has come to rest.  Then each message
  with a reply subject that is not a release has exactly one reply published on its subject, whatever
  the queue was full or late for and whatever the handler met; a release of a supported version has
  none.  The audit sink is handed exactly one report with the request of each message that parses and
  is not such a release; the answer to a message that does not parse leaves none.
\<close>

theorem every_message_answered_once:
  assumes "go_reach (go_start workers (pool_New depth reserve minBudget full)) s"
    and "pl_q (gs_pool s) = []" and "g_hands s = {#}" and "\<forall>m \<in> set ms. fst m \<noteq> []"
    and "mset (map (\<lambda>t. t\<lparr>tk_enqueued := 0\<rparr>) (gs_submitted s)) = mset (received_tasks h unmarshal ms)"
  shows "mset (published (direct_effects h unmarshal ms @ handled_effects en 0 (gs_answers s))) =
      mset (map fst (filter (\<lambda>m. \<not> is_release h unmarshal m) ms)) \<and>
    mset (audit_reqs (direct_effects h unmarshal ms @ handled_effects en 0 (gs_answers s))) =
      mset (List.map_filter (message_request h unmarshal) ms)"
  using assms by (rule service_rest)

subsection \<open>A demonstration\<close>

text \<open>Everything answers, there are no profiles of its own and one generation to restore.\<close>

definition demo_world :: run_env where
  "demo_world =
     \<lparr>rn_cfg = demo_process, rn_apply = demo_apply,
      rn_fs = \<lparr>fs_ReadDir = (\<lambda>_. Some []), fs_ReadFile = (\<lambda>_. None), fs_Stat = (\<lambda>_. None)\<rparr>, rn_dirs = demo_dirs,
      rn_connect = (\<lambda>_. None), rn_jetstream = Inr (\<lambda>_. Some StreamNameInUse), rn_log_stream = None,
      rn_parse = (\<lambda>_. Inl ''no address''), rn_redacted = (\<lambda>_. None), rn_ping = (\<lambda>_. None),
      rn_client = \<lparr>rc_Get = (\<lambda>_. None), rc_MGet = (\<lambda>_. None)\<rparr>, rn_subs = (\<lambda>_. True), rn_time = (\<lambda>_. 0),
      rn_geo = (\<lambda>_. None), rn_subscribe = (\<lambda>_ _. None), rn_limits = (\<lambda>_ _. None), rn_js = None, rn_kv = None,
      rn_watcher = None, rn_drain = None, rn_pool = (\<lambda>p. p), rn_turns = []\<rparr>"

lemma demo_config: "\<exists>c. config_Load demo_process = Inr c \<and> cf_ProfilesDir c = ''/srv/profiles'' \<and>
    cf_DataDir c = ''/srv/profiles'' \<and> cf_RedisURL c = [] \<and> cf_InternalURL c = [] \<and> cf_GeoAddr c = []"
  by (simp add: config_Load_def demo_secret demo_queue envInt_def envIntIfSet_def envIntList_def envDuration_def
      parseLevel_def load_names_def env_def demo_servers config_validate_def check_fields_def demo_fields Let_def)

lemma demo_restores: "\<exists>st1. desired_Bootstrap demo_apply [d] (dd_live demo_dirs) st = (True, st1)"
  by (simp add: desired_Bootstrap_def reload_live_cases load_tree_def LoadDir_def demo_apply_defs tree_entries_def
      default_entry tree_fs_def blank_parse loadStatic_def Names_def blank_profile_def)

lemma demo_run: "\<exists>sv tr. run demo_world = (Inr sv, tr) \<and> dir_path (cf_DataDir (sv_cfg sv)) = [''/srv/profiles''] \<and>
    sv_watch sv = Some \<lparr>dw_state = watch_state demo_world (sv_cfg sv) (sv_store sv), dw_pending = None, dw_armed = False\<rparr>"
proof -
  obtain c where c: "config_Load demo_process = Inr c" "cf_ProfilesDir c = ''/srv/profiles''"
    "cf_DataDir c = ''/srv/profiles''" "cf_RedisURL c = []" "cf_InternalURL c = []" "cf_GeoAddr c = []"
    using demo_config by blast
  have "\<exists>st. NewStore (ae_uni demo_apply) (ae_yaml demo_apply) (rn_fs demo_world) [''/srv/profiles''] = Inr st"
    by (simp add: NewStore_def LoadDir_def loadStatic_def Names_def demo_world_def)
  then obtain st where st: "NewStore (ae_uni demo_apply) (ae_yaml demo_apply) (rn_fs demo_world) [''/srv/profiles''] = Inr st"
    by blast
  obtain st1 where b: "desired_Bootstrap demo_apply [''/srv/profiles''] (dd_live demo_dirs) st = (True, st1)"
    using demo_restores by blast
  have "\<exists>sv tr. run_service demo_world [] = (Inr sv, tr) \<and> dir_path (cf_DataDir (sv_cfg sv)) = [''/srv/profiles''] \<and>
      sv_watch sv = Some \<lparr>dw_state = watch_state demo_world (sv_cfg sv) (sv_store sv), dw_pending = None, dw_armed = False\<rparr>"
    using c st b
    by (simp add: run_service_def run_setup_def run_config_def run_logs_def run_profiles_def run_bus_def run_objects_def
        run_blobs_def run_mirror_def run_resolver_def run_secret_def run_queue_def run_watch_def run_beat_def
        warn_if_def open_deferred_def check_def bindR_def emit_def pureR_def dir_path_def LogInternalRedis_def
        desired_Watch_def demo_world_def watch_state_def split: redis_line.split)
  then show ?thesis by (force simp: run_cases)
qed

theorem orderly_stop_witness: "main_exit demo_world = 0"
  using demo_run orderly_stop by blast

theorem started_service_witness:
  "\<exists>sv tr. run demo_world = (Inr sv, tr) \<and> hb_Profiles (sv_beat sv) = Names (st_current (sv_store sv))"
proof -
  obtain sv tr where r: "run demo_world = (Inr sv, tr)" using demo_run by blast
  have "rn_turns demo_world = []" by (simp add: demo_world_def)
  with started_service [OF r] r show ?thesis by blast
qed

text \<open>One manifest after the start, which is applied; then the watcher of the store changes the store.\<close>

lemma demo_Apply_any: "\<exists>d' st'. desired_Apply demo_apply [x] demo_parsed Map.empty (demo_dirs, st) = (None, d', st')"
  by (simp add: desired_Apply_def demo_apply_defs write_tree_def Let_def empty_tree_def can_rename_def
      load_or_undo_def reload_live_cases load_tree_def LoadDir_def tree_entries_def default_entry x_entry
      tree_fs_def blank_parse loadStatic_def Names_def blank_profile_def)

lemma demo_first_turn:
  assumes "w = \<lparr>dw_state = watch_state demo_world c st, dw_pending = None, dw_armed = False\<rparr>"
  shows "ds_applied (dw_state (turns [x] [TurnDesired demo_desired (UpdateValue []), TurnStore f] True w)) =
    applied_set (ma_ConfigHash demo_parsed) 7 ApplyOK (manifest_Names demo_parsed)"
proof -
  obtain d' st' where a: "desired_Apply demo_apply [x] demo_parsed Map.empty (demo_dirs, st) = (None, d', st')"
    using demo_Apply_any by blast
  have "ds_applied (snd (desired_handle demo_desired [x] [] (watch_state demo_world c st))) =
      applied_set (ma_ConfigHash demo_parsed) 7 ApplyOK (manifest_Names demo_parsed)"
    using a by (simp add: desired_handle_def demo_desired_def demo_manifest_Parse FetchLists_def demo_lists
        watch_state_def demo_world_def no_applied_def demo_rev Let_def)
  then show ?thesis
    by (cases "desired_handle demo_desired [x] [] (watch_state demo_world c st)")
      (simp add: assms watch_select_def watch_update_def)
qed

theorem heartbeat_truthful_witness:
  "\<exists>sv tr. run demo_world = (Inr sv, tr) \<and>
     (let hb = beat_after demo_world (sv_cfg sv) (run_pool (sv_cfg sv)) [TurnDesired demo_desired (UpdateValue []), TurnStore (\<lambda>_. demo_served)]
        (sv_watch sv) (sv_store sv)
      in hb_Apply hb = ApplyOK \<and> (\<exists>level mf. wf_manifest level mf \<and> hb_ConfigHash hb = ma_ConfigHash mf))"
proof -
  let ?ts = "[TurnDesired demo_desired (UpdateValue []), TurnStore (\<lambda>_. demo_served)]"
  obtain sv tr where r: "run demo_world = (Inr sv, tr)" "dir_path (cf_DataDir (sv_cfg sv)) = [''/srv/profiles'']"
    "sv_watch sv = Some \<lparr>dw_state = watch_state demo_world (sv_cfg sv) (sv_store sv), dw_pending = None, dw_armed = False\<rparr>"
    using demo_run by blast
  have "\<forall>x \<in> set ?ts. turn_env (rn_apply demo_world) x"
    by (auto simp: demo_desired_def demo_world_def turn_env_def demo_apply_def)
  moreover have "sv_watch sv \<noteq> None" using r(3) by simp
  moreover have "hb_Apply (beat_after demo_world (sv_cfg sv) (run_pool (sv_cfg sv)) ?ts (sv_watch sv) (sv_store sv)) = ApplyOK"
    using demo_first_turn [OF refl] r(2,3)
    by (simp add: beat_after_def beat_state_def beat_report applied_Snapshot_def del: turns.simps)
  ultimately show ?thesis using heartbeat_truthful [OF r(1) _ _ refl refl, of ?ts "run_pool (sv_cfg sv)"] r(1) by (auto simp: Let_def)
qed

text \<open>No server of the bus answers.\<close>

theorem failed_start_witness: "main_exit (demo_world\<lparr>rn_connect := \<lambda>_. Some ''no servers''\<rparr>) = 1"
proof -
  let ?e = "demo_world\<lparr>rn_connect := \<lambda>_. Some ''no servers''\<rparr>"
  have "\<exists>err tr. run ?e = (Inl err, tr)"
  proof (cases "run_service ?e []")
    case (Pair r tr)
    have "\<not> (\<exists>sv. r = Inr sv)"
      using Pair by (auto elim!: run_service_Inr simp: run_setup_def run_bus_def split: prod.splits)
    with Pair show ?thesis by (cases r) (auto simp: run_cases)
  qed
  then show ?thesis using failed_start by blast
qed

text \<open>One message, whose task is late when it is submitted.\<close>

definition demo_late :: gsys where
  "demo_late = g_expire demo_task (set_sub 0 SDone demo_submitted)"

lemma demo_late_reach: "go_reach (go_start 1 (pool_New 4 10 5 [])) demo_late"
proof -
  have "late (gs_pool demo_submitted) Second demo_task"
    by (simp add: late_def leftAt_def demo_submitted_def demo_start_def go_start_def pool_New_def demo_task_def
        blank_request_def time_Sub_def wrap64_def Second_def Millisecond_def)
  then have "submit_step demo_submitted demo_late"
    unfolding demo_late_def by (intro submit_step.s_late [of _ _ demo_task Second]) (simp_all add: demo_submitted_def)
  then show ?thesis using demo_submitted_reach go_reach.step by (auto simp: go_step_def)
qed

theorem every_message_answered_once_witness:
  "published (direct_effects (demo_handler []) (\<lambda>_. Some blank_request) [(''_INBOX.1'', [])] @
     handled_effects (\<lambda>_. (demo_handler [], [], 0, \<lambda>_. None)) 0 (gs_answers demo_late)) = [''_INBOX.1'']"
proof -
  let ?h = "demo_handler []" and ?ms = "[(''_INBOX.1'', []) :: string \<times> string]"
  have r: "receive ?h (\<lambda>_. Some blank_request) ''_INBOX.1'' [] = Submitted demo_task"
    by (simp add: receive_def protocol_Parse_def blank_request_def locator_validate_def Supports_def demo_handler_def
        demo_task_def Version_def)
  have p: "\<not> is_release ?h (\<lambda>_. Some blank_request) (''_INBOX.1'', [])"
    by (simp add: is_release_def protocol_Parse_def blank_request_def locator_validate_def)
  have "pl_q (gs_pool demo_late) = []" "g_hands demo_late = {#}"
    by (simp_all add: demo_late_def demo_submitted_def demo_start_def go_start_def pool_New_def g_hands_def g_defs
        pool_expire_def)
  moreover have "mset (map (\<lambda>t. t\<lparr>tk_enqueued := 0\<rparr>) (gs_submitted demo_late)) =
      mset (received_tasks ?h (\<lambda>_. Some blank_request) ?ms)"
    by (simp add: received_tasks_def List.map_filter_def r demo_late_def demo_submitted_def g_defs) (simp add: demo_task_def)
  ultimately have "mset (published (direct_effects ?h (\<lambda>_. Some blank_request) ?ms @
      handled_effects (\<lambda>_. (?h, [], 0, \<lambda>_. None)) 0 (gs_answers demo_late))) = {#''_INBOX.1''#}"
    using every_message_answered_once [OF demo_late_reach, of ?ms ?h "\<lambda>_. Some blank_request"]
    by (simp add: p)
  then show ?thesis by (simp only: mset_single_iff)
qed

end
