(* ===== verification/AuditTrail.thy ===== *)
theory AuditTrail
  imports Lifecycle
begin

text \<open>
  The audit trail from end to end: messages of the bus (\<^verbatim>\<open>cmd/inspector/handler.go\<close>), the queue and its
  goroutines (\<^verbatim>\<open>internal/queue\<close>), the handler and the sink (\<^verbatim>\<open>internal/audit/sink.go\<close>).  The calls of
  \<open>Add\<close> that the handler makes are the ones the sink gets, in any order; when both have come to rest,
  the records on the bus are the ones of the messages.
\<close>

subsection \<open>Records\<close>

text \<open>
  The items the sink gets for the effects of the handler.  \<open>clock i\<close> gives the time and the measured
  duration of the \<open>i\<close>-th record.
\<close>

fun audit_items :: "(event \<Rightarrow> string option) \<Rightarrow> (nat \<Rightarrow> string \<times> int) \<Rightarrow> nat \<Rightarrow> effect list \<Rightarrow> item list" where
  "audit_items json clock i [] = []"
| "audit_items json clock i (EPublish subject body # fx) = audit_items json clock i fx"
| "audit_items json clock i (EAudit q r d # fx) =
     (case sink_item json (fst (clock i)) q (Some r) (measured (snd (clock i)) d) of
        Inr (Some it) \<Rightarrow> [it]
      | _ \<Rightarrow> []) @ audit_items json clock (Suc i) fx"

definition reports_to :: "string \<Rightarrow> request list \<Rightarrow> request list" where
  "reports_to x qs = filter (\<lambda>q. rq_AuditSubject q = Some x) qs"

lemma event_ray: "ev_Ray (audit_Build ts (Some q) (Some r) det) = rq_Ray q"
  by (simp add: audit_Build_def Let_def)

text \<open>A record for every report with a subject, under the ray of its request.\<close>

lemma items_rays:
  assumes "\<forall>ev. \<exists>b. json ev = Some b \<and> ray b = ev_Ray ev" and "x \<noteq> []"
  shows "map ray (of_subject x (audit_items json clock i fx)) = map rq_Ray (reports_to x (audit_reqs fx))"
proof (induction fx arbitrary: i)
  case (Cons e fx)
  show ?case
  proof (cases e)
    case (EAudit q r d)
    show ?thesis
    proof (cases q)
      case None
      with Cons EAudit show ?thesis by (simp add: sink_item_def)
    next
      case (Some req)
      from assms(1) obtain b where
        "json (audit_Build (fst (clock i)) (Some req) (Some r) (measured (snd (clock i)) d)) = Some b"
        "ray b = rq_Ray req" by (metis event_ray)
      with Cons EAudit Some assms(2) show ?thesis
        by (auto simp: sink_item_def reports_to_def of_subject_def split: option.splits)
    qed
  qed (use Cons in simp)
qed (simp add: reports_to_def of_subject_def)

subsection \<open>A sink at rest\<close>

text \<open>A sink at rest that dropped nothing has published all it was given, in order.\<close>

lemma sink_rest:
  assumes "sink_reach y" and "sy_hand y = None" and "sk_pending (sy_sink y) = []" and "sk_dropped (sy_sink y) = 0"
  shows "bodies_for x (sy_sent y) = of_subject x (sy_added y)"
proof -
  note inv = sink_reach_inv [OF assms(1)]
  then have "subseq (sy_taken y) (sy_added y)" "length (sy_taken y) = length (sy_added y)"
    using assms(3,4) by (simp_all add: sink_inv_def)
  then have "sy_taken y = sy_added y" by (rule subseq_same_length)
  with inv assms(2) show ?thesis by (simp add: sink_inv_def)
qed

lemma of_subject_mset: "mset a = mset b \<Longrightarrow> mset (of_subject x a) = mset (of_subject x b)"
  by (simp add: of_subject_def)

text \<open>
  C7.  The audit trail is complete and exact.  When the goroutines have come to rest over the tasks of
  any messages, and the sink, under any interleaving of its callers and its flusher, has been given the
  records of the handler in any order, holds nothing back and dropped nothing, then on each subject the
  bus has exactly one record for every message that parses, names the subject and is not a release of
  a supported version - told apart by their rays - and no other: none for such a release or for a
  message that does not parse.  Every message has a reply subject, and the encoder is assumed to encode
  every event and to keep its ray readable.
\<close>

theorem audit_trail_complete:
  assumes "go_reach (go_start workers (pool_New depth reserve minBudget full)) s"
    and "pl_q (gs_pool s) = []" and "g_hands s = {#}" and "\<forall>m \<in> set ms. fst m \<noteq> []"
    and "mset (map (\<lambda>t. t\<lparr>tk_enqueued := 0\<rparr>) (gs_submitted s)) = mset (received_tasks h unmarshal ms)"
    and "sink_reach y" and "sy_hand y = None" and "sk_pending (sy_sink y) = []" and "sk_dropped (sy_sink y) = 0"
    and "mset (sy_added y) =
      mset (audit_items json clock 0 (direct_effects h unmarshal ms @ handled_effects en 0 (gs_answers s)))"
    and "\<forall>ev. \<exists>b. json ev = Some b \<and> ray b = ev_Ray ev" and "x \<noteq> []"
  shows "mset (map ray (bodies_for x (sy_sent y))) =
    mset (map rq_Ray (reports_to x (List.map_filter (message_request h unmarshal) ms)))"
proof -
  let ?fx = "direct_effects h unmarshal ms @ handled_effects en 0 (gs_answers s)"
  have "mset (bodies_for x (sy_sent y)) = mset (of_subject x (audit_items json clock 0 ?fx))"
    using sink_rest [OF assms(6-9)] of_subject_mset [OF assms(10)] by simp
  then have "mset (map ray (bodies_for x (sy_sent y))) = mset (map rq_Ray (reports_to x (audit_reqs ?fx)))"
    using items_rays [OF assms(11,12), of clock 0 ?fx] by (metis mset_map)
  also have "\<dots> = mset (map rq_Ray (reports_to x (List.map_filter (message_request h unmarshal) ms)))"
    using arg_cong [OF conjunct2 [OF service_rest [OF assms(1-5), of en]], of
        "\<lambda>M. image_mset rq_Ray (filter_mset (\<lambda>q. rq_AuditSubject q = Some x) M)"]
    by (simp add: reports_to_def)
  finally show ?thesis .
qed

subsection \<open>One message\<close>

text \<open>A message that names an audit subject comes too late, and its record is published.\<close>

definition trail_request :: request where
  "trail_request = blank_request\<lparr>rq_Ray := ''r1'', rq_AuditSubject := Some ''waf.audit''\<rparr>"

definition trail_task :: task where
  "trail_task = demo_task\<lparr>tk_Req := trail_request\<rparr>"

definition trail_late :: gsys where
  "trail_late = g_expire trail_task (set_sub 0 SDone
     (demo_start\<lparr>gs_subs := [SNew trail_task], gs_submitted := [trail_task]\<rparr>))"

definition trail_item :: item where
  "trail_item = \<lparr>it_subject = ''waf.audit'', it_body = ''r1''\<rparr>"

definition trail_sink :: sink_sys where
  "trail_sink = \<lparr>sy_sink = NewSink, sy_added = [trail_item], sy_taken = [trail_item], sy_hand = None,
     sy_sent = [Batch ''waf.audit'' [''r1'']]\<rparr>"

lemma trail_late_reach: "go_reach (go_start 1 (pool_New 4 10 5 [])) trail_late"
proof -
  let ?s = "demo_start\<lparr>gs_subs := [SNew trail_task], gs_submitted := [trail_task]\<rparr>"
  have "submit_step demo_start ?s"
    using submit_step.submit [of trail_task trail_task 0 demo_start]
    by (simp add: trail_task_def demo_task_def demo_start_def go_start_def)
  then have r: "go_reach demo_start ?s" by (intro go_reach.step [OF go_reach.init]) (simp add: go_step_def)
  have "late (gs_pool ?s) Second trail_task"
    by (simp add: late_def leftAt_def demo_start_def go_start_def pool_New_def trail_task_def trail_request_def
        demo_task_def blank_request_def time_Sub_def wrap64_def Second_def Millisecond_def)
  then have "submit_step ?s trail_late"
    unfolding trail_late_def by (intro submit_step.s_late [of _ _ trail_task Second]) simp_all
  then have "go_step ?s trail_late" by (simp add: go_step_def)
  from go_reach.step [OF r this] show ?thesis by (simp add: demo_start_def)
qed

lemma trail_sink_reach: "sink_reach trail_sink"
proof -
  let ?a = "sys_start\<lparr>sy_sink := sink_append trail_item (sy_sink sys_start), sy_added := sy_added sys_start @ [trail_item]\<rparr>"
  let ?b = "?a\<lparr>sy_sink := NewSink, sy_hand := Some [trail_item], sy_taken := sy_taken ?a @ [trail_item]\<rparr>"
  have "sink_reach ?a" by (rule sink_reach.step [OF sink_reach.init sink_step.add])
  moreover have "sink_step ?a ?b"
    by (rule sink_step.take) (simp_all add: sys_start_def sink_append_def NewSink_def flush_round_def sizeOf_def
        maxItems_def maxSize_def maxPending_def trail_item_def Let_def)
  moreover have "sink_step ?b trail_sink"
    using sink_step.publish [of ?b "[trail_item]"]
    by (simp add: sys_start_def trail_sink_def sink_publish_def sink_send_def trail_item_def)
  ultimately show ?thesis using sink_reach.step by blast
qed

theorem audit_trail_complete_witness:
  "mset (bodies_for ''waf.audit'' (sy_sent trail_sink)) = {#rq_Ray trail_request#}"
proof -
  let ?h = "demo_handler []" and ?u = "\<lambda>_. Some trail_request" and ?ms = "[(''_INBOX.1'', []) :: string \<times> string]"
  let ?en = "\<lambda>_::nat. (demo_handler [], [] :: snapshot, 0 :: gotime, \<lambda>_::nat. None :: (nat \<Rightarrow> char) option)"
  have p: "protocol_Parse ?u [] = Inr trail_request"
    by (simp add: protocol_Parse_def trail_request_def blank_request_def locator_validate_def)
  then have r: "receive ?h ?u ''_INBOX.1'' [] = Submitted trail_task"
    by (simp add: receive_def trail_request_def blank_request_def Supports_def demo_handler_def
        trail_task_def demo_task_def Version_def)
  have rest: "pl_q (gs_pool trail_late) = []" "g_hands trail_late = {#}" "gs_answers trail_late = [(trail_task, ReasonDeadlineExceeded)]"
    by (simp_all add: trail_late_def demo_start_def go_start_def pool_New_def g_hands_def g_defs pool_expire_def)
  have t: "mset (map (\<lambda>t. t\<lparr>tk_enqueued := 0\<rparr>) (gs_submitted trail_late)) = mset (received_tasks ?h ?u ?ms)"
    by (simp add: received_tasks_def List.map_filter_def r trail_late_def g_defs) (simp add: trail_task_def demo_task_def)
  have "tk_Reply trail_task \<noteq> []" by (simp add: trail_task_def demo_task_def)
  from evaluate_sends [OF this, of ?h "[]" ReasonDeadlineExceeded 0 "\<lambda>_. None"] obtain rp det where
    "fst (evaluate ?h [] trail_task ReasonDeadlineExceeded 0 (\<lambda>_. None)) =
      [EPublish (tk_Reply trail_task) (hd_json ?h rp), EAudit (Some (tk_Req trail_task)) rp det]" by blast
  then have items: "audit_items (\<lambda>ev. Some (ev_Ray ev)) (\<lambda>_. ([], 0)) 0
      (direct_effects ?h ?u ?ms @ handled_effects ?en 0 (gs_answers trail_late)) = [trail_item]"
    by (simp add: direct_effects_def r rest sink_item_def event_ray trail_task_def) (simp add: event_ray trail_request_def trail_item_def)
  have "mset (map id (bodies_for ''waf.audit'' (sy_sent trail_sink))) =
      mset (map rq_Ray (reports_to ''waf.audit'' (List.map_filter (message_request ?h ?u) ?ms)))"
    by (rule audit_trail_complete [OF trail_late_reach rest(1,2) _ t trail_sink_reach,
          where json = "\<lambda>ev. Some (ev_Ray ev)" and clock = "\<lambda>_. ([], 0)" and en = ?en])
      (simp_all add: trail_sink_def NewSink_def items)
  then show ?thesis
    by (simp add: trail_sink_def map_filter_Cons message_request_def r p)
      (simp add: reports_to_def List.map_filter_def trail_request_def)
qed

end
