(* ===== verification/Restart.thy ===== *)
theory Restart
  imports Desired
begin

text \<open>
  The data directory over a crash (\<^verbatim>\<open>internal/desired/desired.go\<close>, \<open>Apply\<close> and \<open>Bootstrap\<close>).  Applying
  a generation is a sequence of sections that change the directories - a removal, the writing of the
  staging directory, a rename - and the process may die between any two of them or within one.  Here
  \<open>Apply\<close> is taken apart into these sections, which together are the \<open>desired_Apply\<close> of the component,
  and followed by a start of the program over what the crash left.
\<close>

subsection \<open>Apply, one section at a time\<close>

text \<open>
  The section the program is about to run; \<open>lived\<close> tells that a live tree was parked.  \<open>AtWrite\<close> is the
  whole of \<open>write\<close>, with its directories and one file for each profile and each list.
\<close>

datatype apply_pc =
  AtMkdir | AtRmStale | AtWrite | AtRmPrev | AtPark | AtPromote bool | AtUnpark | AtLoad bool
| AtRmLive bool load_err | AtRestore load_err | AtReload load_err | AtRmOld | AtRmNext apply_err
| AtDone "apply_err option"

type_synonym apply_point = "apply_pc \<times> data_dir \<times> store_state"

definition apply_next :: "apply_env \<Rightarrow> path \<Rightarrow> manifest \<Rightarrow> string gomap \<Rightarrow> apply_point \<Rightarrow> apply_point" where
  "apply_next ae dataDir m bodies p =
     (let os = ae_os ae; (pc, d, st) = p
      in case pc of
           AtMkdir \<Rightarrow> (if os_MkdirData os then AtRmStale else AtDone (Some MkdirFailed), d, st)
         | AtRmStale \<Rightarrow> (AtWrite, d\<lparr>dd_next := rm_tree (os_RmStale os) (dd_next d)\<rparr>, st)
         | AtWrite \<Rightarrow>
             (case write_tree os (dd_next d) m bodies of
                (Some e, t) \<Rightarrow> (AtRmNext e, d\<lparr>dd_next := t\<rparr>, st)
              | (None, t) \<Rightarrow> (AtRmPrev, d\<lparr>dd_next := t\<rparr>, st))
         | AtRmPrev \<Rightarrow> (AtPark, d\<lparr>dd_prev := rm_tree (os_RmPrev os) (dd_prev d)\<rparr>, st)
         | AtPark \<Rightarrow>
             (if dd_live d = None then (AtPromote False, d, st)
              else if can_rename (os_Park os) (dd_prev d)
              then (AtPromote True, d\<lparr>dd_prev := dd_live d, dd_live := None\<rparr>, st)
              else (AtRmNext ParkFailed, d, st))
         | AtPromote lived \<Rightarrow>
             (if os_Promote os then (AtLoad lived, d\<lparr>dd_live := dd_next d, dd_next := None\<rparr>, st)
              else (if lived then AtUnpark else AtRmNext PromoteFailed, d, st))
         | AtUnpark \<Rightarrow>
             (AtRmNext PromoteFailed, if os_Unpark os then d\<lparr>dd_live := dd_prev d, dd_prev := None\<rparr> else d, st)
         | AtLoad lived \<Rightarrow>
             (case reload_live ae dataDir (dd_live d) st of
                (Inr _, st1) \<Rightarrow> (AtRmOld, d, st1)
              | (Inl e, st1) \<Rightarrow> (AtRmLive lived e, d, st1))
         | AtRmLive lived e \<Rightarrow>
             (if lived then AtRestore e else AtDone (Some (LoadFailed e)),
              d\<lparr>dd_live := rm_tree (os_RmLive os) (dd_live d)\<rparr>, st)
         | AtRestore e \<Rightarrow>
             (if can_rename (os_Restore os) (dd_live d)
              then (AtReload e, d\<lparr>dd_live := dd_prev d, dd_prev := None\<rparr>, st)
              else (AtDone (Some (LoadFailed e)), d, st))
         | AtReload e \<Rightarrow> (AtDone (Some (LoadFailed e)), d, snd (reload_live ae dataDir (dd_live d) st))
         | AtRmOld \<Rightarrow> (AtDone None, d\<lparr>dd_prev := rm_tree (os_RmOld os) (dd_prev d)\<rparr>, st)
         | AtRmNext e \<Rightarrow> (AtDone (Some e), d\<lparr>dd_next := rm_tree (os_RmNext os) (dd_next d)\<rparr>, st)
         | AtDone r \<Rightarrow> p)"

text \<open>The points a run of \<open>Apply\<close> goes through.\<close>

inductive apply_reach :: "apply_env \<Rightarrow> path \<Rightarrow> manifest \<Rightarrow> string gomap \<Rightarrow> data_dir \<times> store_state \<Rightarrow> apply_point \<Rightarrow> bool"
  for ae dataDir m bodies s where
  begins: "apply_reach ae dataDir m bodies s (AtMkdir, s)"
| goes: "apply_reach ae dataDir m bodies s p \<Longrightarrow> apply_reach ae dataDir m bodies s (apply_next ae dataDir m bodies p)"

text \<open>
  What a crash leaves.  A rename happens or does not.  Within a removal or while files are written,
  the staging directory and the parked one may hold anything; of the live tree, which is removed
  only when it did not load, some of the files are left.
\<close>

definition part_of :: "tree \<Rightarrow> tree \<Rightarrow> bool" where
  "part_of t' t \<longleftrightarrow> map_of (tr_files t') \<subseteq>\<^sub>m map_of (tr_files t) \<and>
     (case tr_lists t' of None \<Rightarrow> True
      | Some ls' \<Rightarrow> (case tr_lists t of None \<Rightarrow> False | Some ls \<Rightarrow> map_of ls' \<subseteq>\<^sub>m map_of ls))"

text \<open>A removal that fails leaves such a part as well.\<close>

lemma map_le_filter: "map_of (filter (P \<circ> fst) xs) \<subseteq>\<^sub>m map_of xs"
proof -
  have "map_of (filter (P \<circ> fst) xs) k = (if P k then map_of xs k else None)" for k by (induction xs) auto
  then show ?thesis by (simp add: map_le_def dom_def)
qed

lemma part_of_refl [simp]: "part_of t t"
  by (simp add: part_of_def split: option.split)

lemma rm_tree_cases: "rm_tree rm t = None \<or> (\<exists>t0 t'. t = Some t0 \<and> rm_tree rm t = Some t' \<and> part_of t' t0)"
proof (cases rm)
  case (Remains f g)
  have "part_of (keep_part f g t0) t0" for t0
    by (auto simp: part_of_def keep_part_def map_le_filter split: option.splits)
  with Remains show ?thesis by (cases t) auto
qed simp

inductive crash :: "apply_pc \<Rightarrow> data_dir \<Rightarrow> data_dir \<Rightarrow> bool" where
  between: "crash pc d d"
| in_stale: "crash AtRmStale d (d\<lparr>dd_next := t\<rparr>)"
| in_write: "crash AtWrite d (d\<lparr>dd_next := t\<rparr>)"
| in_next: "crash (AtRmNext e) d (d\<lparr>dd_next := t\<rparr>)"
| in_prev: "crash AtRmPrev d (d\<lparr>dd_prev := t\<rparr>)"
| in_old: "crash AtRmOld d (d\<lparr>dd_prev := t\<rparr>)"
| in_live: "dd_live d = Some t \<Longrightarrow> part_of t' t \<Longrightarrow> crash (AtRmLive lived e) d (d\<lparr>dd_live := Some t'\<rparr>)"

inductive_cases crashE: "crash pc d d'"

subsection \<open>The steps are Apply\<close>

lemma apply_next_simps [simp]:
  "apply_next ae dataDir m bodies (AtMkdir, d, st) =
     (if os_MkdirData (ae_os ae) then AtRmStale else AtDone (Some MkdirFailed), d, st)"
  "apply_next ae dataDir m bodies (AtRmStale, d, st) =
     (AtWrite, d\<lparr>dd_next := rm_tree (os_RmStale (ae_os ae)) (dd_next d)\<rparr>, st)"
  "apply_next ae dataDir m bodies (AtWrite, d, st) =
     (case write_tree (ae_os ae) (dd_next d) m bodies of
        (Some e, t) \<Rightarrow> (AtRmNext e, d\<lparr>dd_next := t\<rparr>, st)
      | (None, t) \<Rightarrow> (AtRmPrev, d\<lparr>dd_next := t\<rparr>, st))"
  "apply_next ae dataDir m bodies (AtRmPrev, d, st) =
     (AtPark, d\<lparr>dd_prev := rm_tree (os_RmPrev (ae_os ae)) (dd_prev d)\<rparr>, st)"
  "apply_next ae dataDir m bodies (AtPark, d, st) =
     (if dd_live d = None then (AtPromote False, d, st)
      else if can_rename (os_Park (ae_os ae)) (dd_prev d)
      then (AtPromote True, d\<lparr>dd_prev := dd_live d, dd_live := None\<rparr>, st) else (AtRmNext ParkFailed, d, st))"
  "apply_next ae dataDir m bodies (AtPromote lived, d, st) =
     (if os_Promote (ae_os ae) then (AtLoad lived, d\<lparr>dd_live := dd_next d, dd_next := None\<rparr>, st)
      else (if lived then AtUnpark else AtRmNext PromoteFailed, d, st))"
  "apply_next ae dataDir m bodies (AtUnpark, d, st) =
     (AtRmNext PromoteFailed, if os_Unpark (ae_os ae) then d\<lparr>dd_live := dd_prev d, dd_prev := None\<rparr> else d, st)"
  "apply_next ae dataDir m bodies (AtLoad lived, d, st) =
     (case reload_live ae dataDir (dd_live d) st of
        (Inr _, st1) \<Rightarrow> (AtRmOld, d, st1) | (Inl e, st1) \<Rightarrow> (AtRmLive lived e, d, st1))"
  "apply_next ae dataDir m bodies (AtRmLive lived le, d, st) =
     (if lived then AtRestore le else AtDone (Some (LoadFailed le)),
      d\<lparr>dd_live := rm_tree (os_RmLive (ae_os ae)) (dd_live d)\<rparr>, st)"
  "apply_next ae dataDir m bodies (AtRestore le, d, st) =
     (if can_rename (os_Restore (ae_os ae)) (dd_live d)
      then (AtReload le, d\<lparr>dd_live := dd_prev d, dd_prev := None\<rparr>, st)
      else (AtDone (Some (LoadFailed le)), d, st))"
  "apply_next ae dataDir m bodies (AtReload le, d, st) =
     (AtDone (Some (LoadFailed le)), d, snd (reload_live ae dataDir (dd_live d) st))"
  "apply_next ae dataDir m bodies (AtRmOld, d, st) =
     (AtDone None, d\<lparr>dd_prev := rm_tree (os_RmOld (ae_os ae)) (dd_prev d)\<rparr>, st)"
  "apply_next ae dataDir m bodies (AtRmNext ap, d, st) =
     (AtDone (Some ap), d\<lparr>dd_next := rm_tree (os_RmNext (ae_os ae)) (dd_next d)\<rparr>, st)"
  "apply_next ae dataDir m bodies (AtDone r, d, st) = (AtDone r, d, st)"
  by (simp_all add: apply_next_def)

text \<open>A run never has more than ten sections; here are its last four, from the points after the sixth.\<close>

definition four_more :: "apply_env \<Rightarrow> path \<Rightarrow> manifest \<Rightarrow> string gomap \<Rightarrow> apply_point \<Rightarrow> apply_point" where
  "four_more ae dataDir m bodies p = (apply_next ae dataDir m bodies ^^ 4) p"

lemma four_more_load:
  "four_more ae dataDir m bodies (AtLoad lived, d, st) =
     (case load_or_undo ae dataDir lived (d, st) of (r, d', st') \<Rightarrow> (AtDone r, d', st'))"
  by (auto simp: four_more_def load_or_undo_def Let_def numeral_eq_Suc split: sum.splits prod.splits)

lemma four_more_end:
  "four_more ae dataDir m bodies (AtDone r, d, st) = (AtDone r, d, st)"
  "four_more ae dataDir m bodies (AtRmNext e, d, st) =
     (AtDone (Some e), d\<lparr>dd_next := rm_tree (os_RmNext (ae_os ae)) (dd_next d)\<rparr>, st)"
  "four_more ae dataDir m bodies (AtUnpark, d, st) =
     four_more ae dataDir m bodies
       (AtRmNext PromoteFailed, if os_Unpark (ae_os ae) then d\<lparr>dd_live := dd_prev d, dd_prev := None\<rparr> else d, st)"
  by (simp_all add: four_more_def numeral_eq_Suc)

lemma ten_steps:
  "(apply_next ae dataDir m bodies ^^ 10) p = four_more ae dataDir m bodies
     (apply_next ae dataDir m bodies (apply_next ae dataDir m bodies (apply_next ae dataDir m bodies
     (apply_next ae dataDir m bodies (apply_next ae dataDir m bodies (apply_next ae dataDir m bodies p))))))"
  by (simp add: four_more_def numeral_eq_Suc)

text \<open>Section by section a run ends, after at most ten of them, as \<open>desired_Apply\<close> does.\<close>

lemma Apply_by_sections:
  "(apply_next ae dataDir m bodies ^^ 10) (AtMkdir, d, st) =
     (case desired_Apply ae dataDir m bodies (d, st) of (r, d', st') \<Rightarrow> (AtDone r, d', st'))"
proof -
  obtain we t where w: "write_tree (ae_os ae) (rm_tree (os_RmStale (ae_os ae)) (dd_next d)) m bodies = (we, t)"
    by (cases "write_tree (ae_os ae) (rm_tree (os_RmStale (ae_os ae)) (dd_next d)) m bodies")
  then show ?thesis
    by (cases we; cases "dd_live d")
      (simp_all add: ten_steps four_more_load four_more_end desired_Apply_def Let_def)
qed

subsection \<open>What each point leaves on disk\<close>

text \<open>The tree a run writes.\<close>

definition fresh_tree :: "apply_env \<Rightarrow> manifest \<Rightarrow> string gomap \<Rightarrow> data_dir \<Rightarrow> tree option \<Rightarrow> bool" where
  "fresh_tree ae m bodies d t \<longleftrightarrow>
     write_tree (ae_os ae) (rm_tree (os_RmStale (ae_os ae)) (dd_next d)) m bodies = (None, t)"

definition unloadable :: "apply_env \<Rightarrow> path \<Rightarrow> tree option \<Rightarrow> bool" where
  "unloadable ae dataDir t \<longleftrightarrow> (\<exists>e. load_tree ae dataDir t = Inl e)"

text \<open>Some or all of the files of a new tree that does not load.\<close>

definition torn :: "apply_env \<Rightarrow> path \<Rightarrow> manifest \<Rightarrow> string gomap \<Rightarrow> data_dir \<Rightarrow> tree option \<Rightarrow> bool" where
  "torn ae dataDir m bodies d live \<longleftrightarrow> (\<exists>t t'. fresh_tree ae m bodies d (Some t) \<and> unloadable ae dataDir (Some t) \<and>
     part_of t' t \<and> live = Some t')"

definition parked :: "data_dir \<Rightarrow> data_dir \<Rightarrow> bool" where
  "parked d d1 \<longleftrightarrow> dd_live d1 = None \<and> dd_prev d1 = dd_live d"

text \<open>The directories at each point of a run that began with a live tree.\<close>

definition point_inv :: "apply_env \<Rightarrow> path \<Rightarrow> manifest \<Rightarrow> string gomap \<Rightarrow> data_dir \<Rightarrow> apply_point \<Rightarrow> bool" where
  "point_inv ae dataDir m bodies d p =
     (case p of (pc, d1, st1) \<Rightarrow>
        case pc of
          AtMkdir \<Rightarrow> d1 = d
        | AtRmStale \<Rightarrow> d1 = d
        | AtWrite \<Rightarrow> dd_live d1 = dd_live d \<and> dd_next d1 = rm_tree (os_RmStale (ae_os ae)) (dd_next d)
        | AtRmPrev \<Rightarrow> dd_live d1 = dd_live d \<and> fresh_tree ae m bodies d (dd_next d1)
        | AtPark \<Rightarrow> dd_live d1 = dd_live d \<and> fresh_tree ae m bodies d (dd_next d1)
        | AtPromote lived \<Rightarrow> lived \<and> parked d d1 \<and> fresh_tree ae m bodies d (dd_next d1)
        | AtUnpark \<Rightarrow> parked d d1
        | AtLoad lived \<Rightarrow> lived \<and> dd_prev d1 = dd_live d \<and> fresh_tree ae m bodies d (dd_live d1)
        | AtRmLive lived e \<Rightarrow> lived \<and> dd_prev d1 = dd_live d \<and> fresh_tree ae m bodies d (dd_live d1) \<and>
            unloadable ae dataDir (dd_live d1)
        | AtRestore e \<Rightarrow> parked d d1 \<or> dd_prev d1 = dd_live d \<and> torn ae dataDir m bodies d (dd_live d1)
        | AtReload e \<Rightarrow> dd_live d1 = dd_live d
        | AtRmOld \<Rightarrow> fresh_tree ae m bodies d (dd_live d1) \<and> load_tree ae dataDir (dd_live d1) = Inr (st_current st1)
        | AtRmNext e \<Rightarrow> dd_live d1 = dd_live d \<or> parked d d1
        | AtDone None \<Rightarrow>
            fresh_tree ae m bodies d (dd_live d1) \<and> load_tree ae dataDir (dd_live d1) = Inr (st_current st1)
        | AtDone (Some e) \<Rightarrow> dd_live d1 = dd_live d \<or> parked d d1 \<or> torn ae dataDir m bodies d (dd_live d1))"

lemma rm_live_torn:
  assumes "fresh_tree ae m bodies d live" and "unloadable ae dataDir live" and "dd_prev d1 = dd_live d"
    and "dd_live d1 = rm_tree rm live"
  shows "parked d d1 \<or> dd_prev d1 = dd_live d \<and> torn ae dataDir m bodies d (dd_live d1)"
  using assms rm_tree_cases [of rm live] by (auto simp: parked_def torn_def)

lemma point_inv_next:
  assumes "point_inv ae dataDir m bodies d p" and "dd_live d \<noteq> None"
  shows "point_inv ae dataDir m bodies d (apply_next ae dataDir m bodies p)"
proof -
  obtain pc d1 st1 where p: "p = (pc, d1, st1)" by (cases p)
  show ?thesis
  proof (cases "\<exists>lived e. pc = AtRmLive lived e")
    case True
    then obtain lived e where pc: "pc = AtRmLive lived e" by blast
    with assms p have "lived" "dd_prev d1 = dd_live d" "fresh_tree ae m bodies d (dd_live d1)"
      "unloadable ae dataDir (dd_live d1)" by (auto simp: point_inv_def)
    with rm_live_torn [of ae m bodies d "dd_live d1" dataDir "d1\<lparr>dd_live := rm_tree (os_RmLive (ae_os ae)) (dd_live d1)\<rparr>"]
    show ?thesis by (simp add: p pc point_inv_def)
  next
    case False
    then show ?thesis
      using assms unfolding p
      by (cases pc) (auto simp: point_inv_def fresh_tree_def unloadable_def parked_def reload_live_cases
          split: prod.splits option.splits sum.splits)
  qed
qed

lemma point_inv_reach:
  assumes "apply_reach ae dataDir m bodies (d, st) p" and "dd_live d \<noteq> None"
  shows "point_inv ae dataDir m bodies d p"
  using assms
proof (induction rule: apply_reach.induct)
  case begins
  show ?case by (simp add: point_inv_def)
qed (rule point_inv_next)

text \<open>
  The live tree after a crash: the old one; none, with the old one still parked; the new one; or some
  of the files of a new one that could not be loaded.
\<close>

lemma crash_live:
  assumes "apply_reach ae dataDir m bodies (d, st) (pc, d1, st1)" and "dd_live d \<noteq> None" and "crash pc d1 d'"
  obtains (old) "dd_live d' = dd_live d"
  | (none) "parked d d'"
  | (new) "fresh_tree ae m bodies d (dd_live d')"
  | (part) "torn ae dataDir m bodies d (dd_live d')"
proof -
  note inv = point_inv_reach [OF assms(1,2)]
  have "dd_live d' = dd_live d \<or> parked d d' \<or> fresh_tree ae m bodies d (dd_live d') \<or> torn ae dataDir m bodies d (dd_live d')"
    using assms(3) inv
  proof (cases rule: crash.cases)
    case between
    with inv show ?thesis
      by (auto simp: point_inv_def parked_def split: apply_pc.splits option.splits)
  qed (auto simp: point_inv_def parked_def torn_def)
  then show thesis using old none new part by blast
qed

subsection \<open>A start over the live tree\<close>

text \<open>\<open>Bootstrap\<close> looks for the default profile first.\<close>

definition restorable :: "tree option \<Rightarrow> bool" where
  "restorable live \<longleftrightarrow> (\<exists>t. live = Some t \<and> map_of (tr_files t) (DefaultProfile @ ''.yaml'') \<noteq> None)"

lemma Bootstrap_restores:
  assumes "dataDir \<noteq> []" and "restorable live" and "load_tree ae dataDir live = Inr g"
  shows "\<exists>st2. desired_Bootstrap ae dataDir live st0 = (True, st2) \<and> st_current st2 = g"
  using assms by (auto simp: desired_Bootstrap_def restorable_def reload_live_cases)

lemma Bootstrap_cases:
  assumes "desired_Bootstrap ae dataDir live st0 = (ok, st2)"
  shows "if ok then load_tree ae dataDir live = Inr (st_current st2) else st2 = st0"
  using assms
  by (auto simp: desired_Bootstrap_def reload_live_cases split: if_splits option.splits sum.splits)

lemma fresh_restorable:
  assumes "manifest_Parse level json raw = Inr m" and "fresh_tree ae m bodies d t"
  shows "restorable t"
proof -
  from manifest_Parse_Inr [OF assms(1)] obtain files where "(DefaultProfile, files) \<in> set (ma_Profiles m)"
    by (auto simp: wf_manifest_def dest: map_of_SomeD)
  then have yaml: "DefaultProfile @ ''.yaml'' \<in> (\<lambda>p. fst p @ ''.yaml'') ` set (ma_Profiles m)"
    by (rule rev_image_eqI) simp
  from assms(2) obtain fs0 fs t' where "write_profiles (os_Write (ae_os ae)) (ma_Profiles m) fs0 = (None, fs)"
    and t: "t = Some t'" "tr_files t' = fs"
    by (auto simp: fresh_tree_def write_tree_def Let_def split: if_splits prod.splits option.splits)
  from write_profiles_names [OF this(1)] yaml have "DefaultProfile @ ''.yaml'' \<in> fst ` set fs" by blast
  with t show ?thesis by (simp add: restorable_def map_of_eq_None_iff)
qed

text \<open>
  C15.  Starting again after a crash in the middle of an update.  Wherever in \<open>Apply\<close> the process dies,
  a start that restores a generation serves the old generation, the new one, or what is left of a new
  one that could not be loaded; and a start that restores none leaves the store as it was and meets
  either the old tree in the parked directory, where it is not looked for, or a new tree that does
  not load.
\<close>

theorem crash_recovery:
  assumes "manifest_Parse level json raw = Inr m" and "dataDir \<noteq> []"
    and "serves ae dataDir d st" and "restorable (dd_live d)"
    and "apply_reach ae dataDir m bodies (d, st) (pc, d1, st1)" and "crash pc d1 d'"
    and "desired_Bootstrap (ae\<lparr>ae_os := os\<rparr>) dataDir (dd_live d') st0 = (ok, st2)"
  shows "if ok
    then st_current st2 = st_current st \<or>
      (\<exists>t. fresh_tree ae m bodies d t \<and> load_tree ae dataDir t = Inr (st_current st2)) \<or>
      (\<exists>t t'. fresh_tree ae m bodies d (Some t) \<and> unloadable ae dataDir (Some t) \<and> part_of t' t \<and>
         load_tree ae dataDir (Some t') = Inr (st_current st2))
    else st2 = st0 \<and> (parked d d' \<or> (\<exists>t. fresh_tree ae m bodies d t \<and> unloadable ae dataDir t))"
proof -
  note b = Bootstrap_cases [OF assms(7)]
  have found: "ok \<and> st_current st2 = g" if "restorable (dd_live d')" "load_tree ae dataDir (dd_live d') = Inr g" for g
    using Bootstrap_restores [OF assms(2) that(1), of "ae\<lparr>ae_os := os\<rparr>" g st0] that(2) assms(7) by auto
  have "dd_live d \<noteq> None" using assms(4) by (auto simp: restorable_def)
  from assms(5) this assms(6) show ?thesis
  proof (cases rule: crash_live)
    case old
    with found assms(3,4) show ?thesis by (simp add: serves_def)
  next
    case none
    with assms(7) have "\<not> ok" "st2 = st0" by (auto simp: parked_def desired_Bootstrap_def split: if_splits)
    with none show ?thesis by simp
  next
    case new
    show ?thesis
    proof (cases "load_tree ae dataDir (dd_live d')")
      case (Inl e)
      with new b show ?thesis by (cases ok) (auto simp: unloadable_def)
    next
      case (Inr g)
      with new found fresh_restorable [OF assms(1) new] show ?thesis by auto
    qed
  next
    case part
    with b show ?thesis by (cases ok) (auto simp: torn_def)
  qed
qed

subsection \<open>Applying again\<close>

lemma write_profiles_ok:
  "\<forall>p \<in> set ps. ok (fst p @ ''.yaml'') = Written \<and> snd p \<noteq> [] \<Longrightarrow> \<exists>fs'. write_profiles ok ps fs = (None, fs')"
proof (induction ok ps fs rule: write_profiles.induct)
  case (2 ok n files ps fs)
  then obtain f r where "files = f # r" by (cases files) auto
  with 2 show ?case by auto
qed simp

lemma write_lists_ok:
  "\<forall>n \<in> set ns. ok (n @ ''.txt'') = Written \<and> bodies n \<noteq> None \<Longrightarrow> \<exists>fs'. write_lists ok ns bodies fs = (None, fs')"
  by (induction ok ns bodies fs rule: write_lists.induct) auto

definition os_works :: "os_calls \<Rightarrow> bool" where
  "os_works os \<longleftrightarrow> os_MkdirData os \<and> os_MkdirNext os \<and> (\<forall>f. os_Write os f = Written) \<and> os_MkdirLists os \<and> os_Park os \<and>
     os_Promote os \<and> os_RmStale os = Gone \<and> os_RmPrev os = Gone \<and> os_RmOld os = Gone"

lemma write_tree_ok:
  assumes "os_works os" and "wf_manifest level m" and "fst ` set (ma_Lists m) \<subseteq> dom bodies"
  shows "\<exists>t. write_tree os None m bodies = (None, Some t)"
proof -
  have "\<forall>p \<in> set (ma_Profiles m). os_Write os (fst p @ ''.yaml'') = Written \<and> snd p \<noteq> []"
    using assms(1,2) by (auto simp: os_works_def wf_manifest_def)
  from write_profiles_ok [OF this] obtain fs where fs: "write_profiles (os_Write os) (ma_Profiles m) [] = (None, fs)"
    by blast
  have "\<forall>n \<in> set (map fst (ma_Lists m)). os_Write os (n @ ''.txt'') = Written \<and> bodies n \<noteq> None"
    using assms(1,3) by (auto simp: os_works_def)
  from write_lists_ok [OF this]
  obtain ls where "write_lists (os_Write os) (map fst (ma_Lists m)) bodies [] = (None, ls)" by blast
  with fs assms(1) show ?thesis by (simp add: write_tree_def empty_tree_def os_works_def Let_def)
qed

text \<open>
  C31.  Applying converges.  When the operating system does what it is asked and the lists of a parsed
  manifest were fetched, a generation that loads is applied whatever an earlier crash left in the
  three directories and whatever the store serves: the call succeeds, the live tree is the clean
  tree of the manifest, nothing is left beside it, and the store serves what that tree loads to.
\<close>

theorem Apply_converges:
  assumes "manifest_Parse level json raw = Inr m" and "FetchLists blobs m = Inr bodies"
    and "distinct (map fst (ma_Lists m))" and "os_works (ae_os ae)"
  shows "\<exists>t. write_tree (ae_os ae) None m bodies = (None, Some t) \<and>
    (\<forall>g. load_tree ae dataDir (Some t) = Inr g \<longrightarrow> (\<forall>d st. \<exists>st'.
       desired_Apply ae dataDir m bodies (d, st) = (None, \<lparr>dd_next = None, dd_prev = None, dd_live = Some t\<rparr>, st') \<and>
       st_current st' = g))"
proof -
  from FetchLists_verified [OF assms(2,3)] have "fst ` set (ma_Lists m) \<subseteq> dom bodies" by simp
  from write_tree_ok [OF assms(4) manifest_Parse_Inr [OF assms(1)] this]
  obtain t where t: "write_tree (ae_os ae) None m bodies = (None, Some t)" by blast
  have "\<exists>st'. desired_Apply ae dataDir m bodies (d, st) =
      (None, \<lparr>dd_next = None, dd_prev = None, dd_live = Some t\<rparr>, st') \<and> st_current st' = g"
    if "load_tree ae dataDir (Some t) = Inr g" for g d st
    using t assms(4) that
    by (cases d) (auto simp: desired_Apply_def load_or_undo_def reload_live_cases os_works_def
        can_rename_def Let_def)
  with t show ?thesis by blast
qed

subsection \<open>Restarts of a watched service\<close>

lemma write_restorable:
  assumes "wf_manifest level m" and "write_tree os old m bodies = (None, t)"
  shows "restorable t"
proof -
  from assms(1) obtain files where "(DefaultProfile, files) \<in> set (ma_Profiles m)"
    by (auto simp: wf_manifest_def dest: map_of_SomeD)
  then have yaml: "DefaultProfile @ ''.yaml'' \<in> (\<lambda>p. fst p @ ''.yaml'') ` set (ma_Profiles m)"
    by (rule rev_image_eqI) simp
  from assms(2) obtain fs0 fs t' where "write_profiles (os_Write os) (ma_Profiles m) fs0 = (None, fs)"
    and t: "t = Some t'" "tr_files t' = fs"
    by (auto simp: write_tree_def Let_def split: if_splits prod.splits option.splits)
  from write_profiles_names [OF this(1)] yaml have "DefaultProfile @ ''.yaml'' \<in> fst ` set fs" by blast
  with t show ?thesis by (simp add: restorable_def map_of_eq_None_iff)
qed

lemma generation_restores:
  assumes "generation ae dataDir a live" and "dataDir \<noteq> []"
  shows "\<exists>st2. desired_Bootstrap (ae\<lparr>ae_os := os\<rparr>) dataDir live st0 = (True, st2) \<and>
    load_tree ae dataDir live = Inr (st_current st2)"
proof -
  from assms(1) obtain m os' old bodies g level where "wf_manifest level m"
    "write_tree os' old m bodies = (None, live)" "load_tree ae dataDir live = Inr g"
    by (auto simp: generation_def names_manifest_def)
  with Bootstrap_restores [OF assms(2) write_restorable, of level m os' old bodies live "ae\<lparr>ae_os := os\<rparr>" g st0]
  show ?thesis by auto
qed

text \<open>
  C18.  A restart comes back to the generation that was reported.  Take any updates and retries of a
  watcher that began with an empty report - each with its own operating system, and with whatever the
  goroutine that watches the directory of the store did to the store meanwhile.  If it reports a
  generation as applied, the live tree was written from a parsed manifest with the hash, the revision
  and the names of the report, and a start of the program on the same data directory restores what
  that tree loads to, even if calls of the operating system failed.  If it reports a failure, the same
  holds of the last generation that was applied, provided that the calls that undo succeeded
  (\<open>safe\<close>); and if none was applied yet, the live tree is then the one of the start.  The parser of
  profiles is the same throughout.
\<close>

theorem restart_restores:
  assumes "watch_reach safe ae dataDir w0 w" and "dataDir \<noteq> []" and "ds_applied (dw_state w0) = no_applied"
  shows "(ap_apply (ds_applied (dw_state w)) = ApplyOK \<or> safe \<and> ap_hash (ds_applied (dw_state w)) \<noteq> [] \<longrightarrow>
      generation ae dataDir (ds_applied (dw_state w)) (dd_live (ds_dirs (dw_state w))) \<and>
      (\<exists>st2. desired_Bootstrap (ae\<lparr>ae_os := os\<rparr>) dataDir (dd_live (ds_dirs (dw_state w))) st0 = (True, st2) \<and>
         load_tree ae dataDir (dd_live (ds_dirs (dw_state w))) = Inr (st_current st2))) \<and>
    (safe \<and> ap_hash (ds_applied (dw_state w)) = [] \<longrightarrow>
      dd_live (ds_dirs (dw_state w)) = dd_live (ds_dirs (dw_state w0)))"
proof -
  note inv = watch_report [OF assms(1,3)]
  then have "ap_apply (ds_applied (dw_state w)) = ApplyOK \<or> safe \<and> ap_hash (ds_applied (dw_state w)) \<noteq> [] \<Longrightarrow>
      generation ae dataDir (ds_applied (dw_state w)) (dd_live (ds_dirs (dw_state w)))"
    by (auto simp: report_inv_def)
  with generation_restores [OF _ assms(2)] inv show ?thesis by (auto simp: report_inv_def)
qed

subsection \<open>Crashes\<close>

lemma demo_restorable: "restorable (dd_live demo_dirs)"
  by (simp add: restorable_def demo_dirs_def)

text \<open>The process dies between the two renames.\<close>

definition demo_written :: tree where
  "demo_written = \<lparr>tr_files = [(''default.yaml'', ''a''), (''_x.yaml'', ''b'')], tr_lists = None\<rparr>"

definition demo_window :: data_dir where
  "demo_window = \<lparr>dd_next = Some demo_written, dd_prev = dd_live demo_dirs, dd_live = None\<rparr>"

lemma reach_steps:
  assumes "(apply_next ae dataDir m bodies ^^ n) (AtMkdir, s) = p"
  shows "apply_reach ae dataDir m bodies s p"
proof -
  have "apply_reach ae dataDir m bodies s ((apply_next ae dataDir m bodies ^^ n) (AtMkdir, s))"
    by (induction n) (auto intro: apply_reach.intros)
  with assms show ?thesis by simp
qed

lemma demo_window_reach:
  "apply_reach demo_apply [''d''] demo_parsed Map.empty (demo_dirs, demo_served) (AtPromote True, demo_window, demo_served)"
  by (rule reach_steps [where n = 5])
    (simp add: numeral_eq_Suc demo_apply_defs demo_window_def demo_written_def write_tree_def
      empty_tree_def can_rename_def Let_def)

theorem crash_recovery_witness:
  "apply_reach demo_apply [''d''] demo_parsed Map.empty (demo_dirs, demo_served) (AtPromote True, demo_window, demo_served) \<and>
   crash (AtPromote True) demo_window demo_window \<and>
   desired_Bootstrap demo_apply [''d''] (dd_live demo_window) demo_served = (False, demo_served) \<and>
   (parked demo_dirs demo_window \<or>
    (\<exists>t. fresh_tree demo_apply demo_parsed Map.empty demo_dirs t \<and> unloadable demo_apply [''d''] t))"
proof -
  have b: "desired_Bootstrap (demo_apply\<lparr>ae_os := ae_os demo_apply\<rparr>) [''d''] (dd_live demo_window) demo_served =
      (False, demo_served)"
    by (simp add: desired_Bootstrap_def demo_window_def)
  from crash_recovery [OF demo_manifest_Parse _ demo_serves demo_restorable demo_window_reach crash.between b]
    b demo_window_reach crash.between show ?thesis by simp
qed

theorem Apply_converges_witness:
  "\<exists>t st'. write_tree (ae_os demo_apply) None demo_parsed Map.empty = (None, Some t) \<and>
     desired_Apply demo_apply [''d''] demo_parsed Map.empty (demo_window, demo_served) =
       (None, \<lparr>dd_next = None, dd_prev = None, dd_live = Some t\<rparr>, st') \<and>
     st_current st' = [(''default'', blank_profile ''default'')]"
proof -
  have f: "FetchLists None demo_parsed = Inr Map.empty" by (simp add: FetchLists_def demo_lists)
  have "distinct (map fst (ma_Lists demo_parsed))" "os_works (ae_os demo_apply)"
    by (simp_all add: demo_lists os_works_def demo_apply_def)
  from Apply_converges [OF demo_manifest_Parse f this, of "[''d'']"] obtain t where
    t: "write_tree (ae_os demo_apply) None demo_parsed Map.empty = (None, Some t)"
    and all: "\<And>g. load_tree demo_apply [''d''] (Some t) = Inr g \<Longrightarrow> \<exists>st'.
       desired_Apply demo_apply [''d''] demo_parsed Map.empty (demo_window, demo_served) =
         (None, \<lparr>dd_next = None, dd_prev = None, dd_live = Some t\<rparr>, st') \<and> st_current st' = g" by blast
  have "t = demo_written"
    using t by (simp add: write_tree_def demo_apply_defs empty_tree_def demo_written_def Let_def)
  then have "load_tree demo_apply [''d''] (Some t) = Inr [(''default'', blank_profile ''default'')]"
    by (simp add: load_tree_def LoadDir_def demo_apply_defs demo_written_def tree_entries_def default_entry x_entry
        tree_fs_def blank_parse loadStatic_def Names_def blank_profile_def)
  from all [OF this] t show ?thesis by blast
qed

text \<open>After one update that fails over a first one that was applied: the operating system is out of space.\<close>

definition full_disk :: desired_env where
  "full_disk = demo_desired\<lparr>de_apply := demo_apply\<lparr>ae_os := (ae_os demo_apply)\<lparr>os_Write := (\<lambda>_. CutShort 1)\<rparr>\<rparr>,
     de_json := (\<lambda>_. Some (demo_manifest\<lparr>ma_Rev := 8\<rparr>))\<rparr>"

definition demo_rejected :: desired_watch where
  "demo_rejected = watch_update full_disk [''d''] [] (watch_update demo_desired [''d''] [] demo_watch)"

lemma demo_rejected_reach: "watch_reach True demo_apply [''d''] demo_watch demo_rejected"
  unfolding demo_rejected_def
  by (rule watch_reach.update [OF demo_watch_reach,
        where os = "(ae_os demo_apply)\<lparr>os_Write := (\<lambda>_. CutShort 1)\<rparr>"])
    (simp_all add: full_disk_def undo_works_def demo_apply_def)

lemma full_disk_Parse: "manifest_Parse (de_level full_disk) (de_json full_disk) raw = Inr (demo_parsed\<lparr>ma_Rev := 8\<rparr>)"
  by (simp add: full_disk_def demo_desired_def manifest_Parse_def demo_manifest_def demo_parsed_def check_profile_def
      bad_profile_name_def ContainsAny_def settings_validate_def)

lemma demo_rejected_report:
  "ds_applied (dw_state demo_rejected) =
     \<lparr>ap_hash = ma_ConfigHash demo_parsed, ap_rev = 7, ap_apply = ApplyFailed, ap_names = manifest_Names demo_parsed\<rparr>"
proof -
  obtain d' st' where a: "desired_Apply demo_apply [''d''] demo_parsed Map.empty (demo_dirs, demo_served) = (None, d', st')"
    using demo_Apply by blast
  define s1 where "s1 = \<lparr>ds_dirs = d', ds_store = st', ds_applied = applied_set (ma_ConfigHash demo_parsed) 7 ApplyOK (manifest_Names demo_parsed),
       ds_level = settings_apply (ma_Settings demo_parsed) 0\<rparr>"
  have h1: "desired_handle demo_desired [''d''] [] (dw_state demo_watch) = (False, s1)"
    using a by (simp add: desired_handle_def demo_desired_def demo_manifest_Parse FetchLists_def demo_lists
        demo_watch_def no_applied_def demo_rev s1_def Let_def)
  have "\<exists>e d st. desired_Apply (de_apply full_disk) [''d''] (demo_parsed\<lparr>ma_Rev := 8\<rparr>) Map.empty (d', st') = (Some e, d, st)"
    by (simp add: desired_Apply_def full_disk_def write_tree_def demo_apply_defs Let_def)
  then obtain e d st where a2:
    "desired_Apply (de_apply full_disk) [''d''] (demo_parsed\<lparr>ma_Rev := 8\<rparr>) Map.empty (d', st') = (Some e, d, st)" by blast
  have "desired_handle full_disk [''d''] [] s1 = (False, s1\<lparr>ds_dirs := d, ds_store := st,
      ds_applied := applied_set (ma_ConfigHash demo_parsed) 7 ApplyFailed (manifest_Names demo_parsed)\<rparr>)"
    using a2 by (simp add: desired_handle_def full_disk_Parse FetchLists_def demo_lists demo_rev s1_def applied_set_def Let_def)
  then show ?thesis
    by (simp add: demo_rejected_def watch_update_def h1 applied_set_def)
qed

theorem restart_restores_witness:
  "\<exists>st2. desired_Bootstrap demo_apply [''d''] (dd_live (ds_dirs (dw_state demo_rejected))) demo_served = (True, st2) \<and>
     generation demo_apply [''d''] (ds_applied (dw_state demo_rejected)) (dd_live (ds_dirs (dw_state demo_rejected)))"
proof -
  have "ap_hash (ds_applied (dw_state demo_rejected)) \<noteq> []"
    by (simp add: demo_rejected_report demo_parsed_def)
  moreover have "ds_applied (dw_state demo_watch) = no_applied" by (simp add: demo_watch_def)
  ultimately show ?thesis
    using restart_restores [OF demo_rejected_reach, of "ae_os demo_apply" demo_served] by auto
qed

text \<open>
  A generation whose second profile is not a profile, over one with a shop; the process dies while the
  tree that did not load is removed, its bad file first.
\<close>

definition torn_yaml :: yaml where
  "torn_yaml raw = (if raw = ''bad'' then None else blank_yaml raw)"

definition torn_apply :: apply_env where
  "torn_apply = demo_apply\<lparr>ae_yaml := torn_yaml\<rparr>"

definition torn_manifest :: manifest where
  "torn_manifest = demo_manifest\<lparr>ma_Profiles :=
     [(''default'', [\<lparr>mf_Name = ProfileFile, mf_Text = ''a''\<rparr>]), (''aa'', [\<lparr>mf_Name = ProfileFile, mf_Text = ''bad''\<rparr>])]\<rparr>"

definition torn_parsed :: manifest where
  "torn_parsed = torn_manifest\<lparr>ma_ConfigHash := HashLists (ma_Profiles torn_manifest) [] None\<rparr>"

definition torn_old :: tree where
  "torn_old = \<lparr>tr_files = [(''default.yaml'', ''old''), (''shop.yaml'', ''old'')], tr_lists = None\<rparr>"

definition torn_new :: tree where
  "torn_new = \<lparr>tr_files = [(''default.yaml'', ''a''), (''aa.yaml'', ''bad'')], tr_lists = None\<rparr>"

definition torn_left :: tree where
  "torn_left = \<lparr>tr_files = [(''default.yaml'', ''a'')], tr_lists = None\<rparr>"

definition torn_served :: store_state where
  "torn_served = demo_served\<lparr>st_current := [(''default'', blank_profile ''default''), (''shop'', blank_profile ''shop'')]\<rparr>"

definition torn_dirs :: "tree \<Rightarrow> data_dir" where
  "torn_dirs t = \<lparr>dd_next = None, dd_prev = Some torn_old, dd_live = Some t\<rparr>"

definition torn_start :: data_dir where
  "torn_start = \<lparr>dd_next = None, dd_prev = None, dd_live = Some torn_old\<rparr>"

lemmas torn_defs = torn_apply_def torn_manifest_def torn_parsed_def torn_old_def torn_new_def torn_left_def
  torn_served_def torn_dirs_def torn_start_def

lemma torn_parse: "raw \<noteq> ''bad'' \<Longrightarrow> policy_Parse u torn_yaml n raw = Inr (blank_profile n)"
  using blank_parse [of u n raw] by (simp add: policy_Parse_def torn_yaml_def)

lemma torn_bad: "policy_Parse u torn_yaml n ''bad'' = Inl ProfileYAML"
  by (simp add: policy_Parse_def torn_yaml_def)

lemma torn_entries:
  "profileName ascii_only \<lparr>de_Name = ''aa.yaml'', de_IsDir = False\<rparr> = Some ''aa''"
  "profileName ascii_only \<lparr>de_Name = ''shop.yaml'', de_IsDir = False\<rparr> = Some ''shop''"
  using profileName_yaml [of "''aa''" ascii_only] profileName_yaml [of "''shop''" ascii_only]
  by (simp_all add: HasPrefix_def ToLower_def lower1_def ascii_only_def char_class_defs)

lemmas torn_loads = load_tree_def LoadDir_def tree_entries_def default_entry torn_entries tree_fs_def
  torn_parse torn_bad loadStatic_def Names_def blank_profile_def demo_apply_def

lemma torn_old_loads: "load_tree torn_apply [''d''] (Some torn_old) = Inr (st_current torn_served)"
  by (simp add: torn_loads torn_defs)

lemma torn_left_loads: "load_tree torn_apply [''d''] (Some torn_left) = Inr [(''default'', blank_profile ''default'')]"
  by (simp add: torn_loads torn_defs)

lemma torn_new_fails: "\<exists>e. load_tree torn_apply [''d''] (Some torn_new) = Inl e"
  by (simp add: torn_loads torn_defs demo_manifest_def)

lemma torn_reach:
  "\<exists>e. apply_reach torn_apply [''d''] torn_parsed Map.empty (torn_start, torn_served)
     (AtRmLive True e, torn_dirs torn_new, torn_served)"
proof -
  from torn_new_fails obtain e where e: "load_tree torn_apply [''d''] (Some torn_new) = Inl e" by blast
  have "apply_reach torn_apply [''d''] torn_parsed Map.empty (torn_start, torn_served)
      (AtLoad True, torn_dirs torn_new, torn_served)"
    by (rule reach_steps [where n = 6])
      (simp add: numeral_eq_Suc torn_defs demo_apply_def demo_manifest_def write_tree_def
        empty_tree_def can_rename_def Let_def)
  from apply_reach.goes [OF this] e show ?thesis by (auto simp: reload_live_cases torn_dirs_def)
qed

text \<open>
  A start can serve a generation that never was.  The live tree is removed file by file when it does
  not load, and a crash in between can leave a part of it that loads: the start then serves this part
  as the generation applied before - neither the generation that was served nor one of a manifest -
  although the old tree is there, in the parked directory.
\<close>

theorem torn_generation_served:
  "\<exists>e st2. serves torn_apply [''d''] torn_start torn_served \<and>
     apply_reach torn_apply [''d''] torn_parsed Map.empty (torn_start, torn_served)
       (AtRmLive True e, torn_dirs torn_new, torn_served) \<and>
     crash (AtRmLive True e) (torn_dirs torn_new) (torn_dirs torn_left) \<and>
     desired_Bootstrap torn_apply [''d''] (dd_live (torn_dirs torn_left)) st0 = (True, st2) \<and>
     fst ` set (st_current torn_served) = {''default'', ''shop''} \<and>
     set (manifest_Names torn_parsed) = {''default'', ''aa''} \<and>
     fst ` set (st_current st2) = {''default''} \<and>
     dd_prev (torn_dirs torn_left) = dd_live torn_start"
proof -
  from torn_reach obtain e where r: "apply_reach torn_apply [''d''] torn_parsed Map.empty (torn_start, torn_served)
       (AtRmLive True e, torn_dirs torn_new, torn_served)" by blast
  have c: "crash (AtRmLive True e) (torn_dirs torn_new) (torn_dirs torn_left)"
    using crash.in_live [of "torn_dirs torn_new" torn_new torn_left True e]
    by (simp add: torn_defs part_of_def map_le_def)
  have "restorable (Some torn_left)" by (simp add: restorable_def torn_left_def)
  from Bootstrap_restores [OF _ this torn_left_loads, of st0] obtain st2 where
    "desired_Bootstrap torn_apply [''d''] (dd_live (torn_dirs torn_left)) st0 = (True, st2)"
    "st_current st2 = [(''default'', blank_profile ''default'')]" by (auto simp: torn_dirs_def)
  with r c torn_old_loads show ?thesis
    by (intro exI [of _ e] exI [of _ st2])
      (auto simp: serves_def torn_start_def torn_dirs_def torn_served_def torn_parsed_def torn_manifest_def manifest_Names_def)
qed

end
