(* ===== verification/Spec2Isabelle.thy ===== *)
theory Spec2Isabelle
  imports AuditTrail Restart
begin

text \<open>
  The cookie inspector: a service that reads requests from a message bus, decides by the rules of a
  profile which cookies to issue and drop, and answers.  This theory imports the whole development
  and holds the properties that span its components.

  \<^bold>\<open>The program and the theories.\<close>  A message arrives (\<^verbatim>\<open>handler.receive\<close>), is parsed, and becomes a
  task of a bounded queue; a worker takes it and evaluates it: the profile of its route is looked up
  in the store, the cookies of the request are read from captured headers, the rules are collected,
  cookies are issued and dropped, values are written to lists, and one reply and one audit record
  leave.  Beside this path run the watcher of the profile directory, the watcher of the desired
  state, the mirror of dynamic lists, the audit sink and the heartbeat.

  \<^item> \<open>Prelude\<close>: results of fallible operations, loops with errors, panics, Go maps, 64-bit
    wrap-around, character classes.  \<open>GoStrings\<close>, \<open>GoTime\<close>, \<open>GoCrypto\<close>, \<open>Netip\<close>: what the source uses
    of the standard library, written out from its documentation (trimming and splitting, numbers and
    durations, SHA-256, MD5, HMAC and base64, addresses and prefixes).
  \<^item> \<open>Protocol\<close> (\<^verbatim>\<open>internal/protocol\<close>): requests, replies, actions and their checks.
    \<open>Overload\<close> (\<^verbatim>\<open>internal/overload\<close>): thresholds.
  \<^item> \<open>Operand\<close>, \<open>Cookie\<close>, \<open>Policy\<close>, \<open>Marker\<close>, \<open>PolicyParse\<close>, \<open>ProfileStore\<close> (\<^verbatim>\<open>internal/policy\<close>): where
    values come from; issuing, signing and reading cookies; selecting rules; markers; the profile
    parser from the decoded document on; loading directories and the store with its watcher.
  \<^item> \<open>Body\<close> (\<^verbatim>\<open>internal/body\<close>): captured objects.  \<open>Source\<close>, \<open>Lists\<close>, \<open>Handler\<close> (\<^verbatim>\<open>cmd/inspector\<close>): the
    data of a request with its caches, writes to lists, the handler.
  \<^item> \<open>Queue\<close> (\<^verbatim>\<open>internal/queue\<close>): the pool; every section under its lock is a definition and
    \<open>pool_step\<close> interleaves submitters, workers and the sweeper.  \<open>Workers\<close>: the same pool with its
    goroutines, the condition variable they sleep on, timers and \<^verbatim>\<open>Close\<close>; its runs refine \<open>pool_step\<close>.
  \<^item> \<open>SipHash\<close>, \<open>Wafs\<close>, \<open>Composition\<close>, \<open>Mirror\<close> (\<^verbatim>\<open>internal/livelist\<close>): the keyed hash, the binary
    format, the contents of a list, the handlers of frames, snapshots and packages and the steps of
    the whole mirror.  \<open>Keeper\<close> is the specification of what is mirrored: the history of a list.
  \<^item> \<open>AuditSink\<close> (\<^verbatim>\<open>internal/audit\<close>): audit records, the bounded buffer and its flusher.
  \<^item> \<open>Desired\<close> (\<^verbatim>\<open>internal/desired\<close>): manifests, fetching lists, switching trees of files with every
    undo, the watcher.  \<open>Restart\<close>: \<^verbatim>\<open>Apply\<close> once more, one section at a time, with a crash at
    every point between and within them and the start of the program over what it leaves.
  \<^item> \<open>Config\<close> (\<^verbatim>\<open>internal/config\<close>): the configuration file and the environment.  \<open>Service\<close>
    (\<^verbatim>\<open>cmd/inspector/main.go\<close>, \<^verbatim>\<open>cmd/probe\<close>): the parts put together, the heartbeat, the probe.
    \<open>Lifecycle\<close> (\<^verbatim>\<open>run\<close> of \<^verbatim>\<open>cmd/inspector/main.go\<close>): the start step by step with its failures, the
    deferred calls and the orderly stop as a trace, and the way of a message from the bus to its reply.
    \<open>AuditTrail\<close>: the way from the message to its audit record, through queue, handler and sink.

  \<^bold>\<open>How code is represented.\<close>  A Go struct is a record with the fields of the struct, a function
  that may fail returns a sum or an option, a panic is the constructor \<open>Panics\<close>, mutable state is
  passed and returned.  Goroutines are step relations (\<open>pool_step\<close>, \<open>go_step\<close>, \<open>sys_step\<close>, \<open>mirror_step\<close>,
  \<open>sink_step\<close>, \<open>watch_reach\<close>, \<open>apply_reach\<close>) whose steps are the sections the code runs
  under a lock or the calls of one goroutine.  Bytes are the
  characters 0 to 255; strings are lists of them.  Times and durations are integers in nanoseconds,
  wrapped to 64 bits where the code computes; sequence numbers, epochs and hashes are 64-bit words.
  Decoders of JSON and YAML, the bus, Redis, AES-GCM, the file system, the geo resolver, the URL
  parser, log levels, clock readings and random bytes are arguments; what is assumed of them is a
  hypothesis of the property that needs it.

  \<^bold>\<open>Interfaces.\<close>  \<open>list_sets\<close> (in \<open>Policy\<close>) is the contract the rules rely on when they ask a dynamic
  list, interpreted on lookups of the mirror; \<open>set_invariant\<close> (in \<open>Mirror\<close>) proves once that the
  handlers of a list keep a property that installing a snapshot and applying a package keep, and is
  interpreted for the invariant of the contents, the name, and following the keeper; \<open>source_interface\<close> (in
  \<open>Operand\<close>) is what operands rely on when they read the data of a request, interpreted on the source
  of the handler; \<open>trace_law\<close> and \<open>start_law\<close> (in \<open>Lifecycle\<close>) prove once that the whole start obeys a law
  its single events obey, interpreted for what it closes and for what it does not do yet.

  \<^bold>\<open>What is shown.\<close>  Cookies: an issued value is read back with its tag and state, a forged one is
  not, and the handler recognises what the inspector issued.  Rules: selection refines a declarative
  specification, dropping beats issuing, parsed profiles are well formed and stay so in the store
  under every interleaving.  Answers: exactly one per task, never a denial, bounded and well formed.
  Queue: the goroutines refine the sections under the lock, no task is lost or answered twice, first
  in first out, no wake-up is lost, and \<open>Close\<close> returns with the queue empty.  The whole: every message
  that is not a release gets one reply through queue and handler, a service that starts is sound, what one
  that fails to start closes and leaves open is told exactly, and the stop keeps the bus open for the
  last answers.  Lists: objects are read
  back as packed, the hash and the counters of a list are exact, lookups answer by definition in
  every reachable state, handlers return, a list follows its keeper and catches up with it.  Audit:
  records are conserved and kept in order, and the bus gets exactly one for every message that asks
  for one.  Desired state: a generation is applied entirely or not
  at all, its lists are authentic, the profiles served are the ones the manifest has the text of, and
  a generation reported as applied is the one on disk, whatever calls failed; a restart comes back to the
  generation reported, a crash in the middle of an update leaves the old generation, the new one or a start
  without either, and applying again converges from whatever is on disk.  Configuration: what loads is usable, and the
  file format loses nothing.  Some theorems show behaviour the code does not mean to have:
  durations that wrap, a reload that is lost, hidden failures of the store, a prefix that panics, a
  subscription that is never tried again, profiles that are applied and not served, a part of a
  generation that is served after a crash, audit records of messages that are still in flight when the sink closes.

  \<^bold>\<open>Two goroutines on one store.\<close>  The watcher of the profile directory and the watcher of the
  desired state share the store.  \<open>ProfileStore\<close> interleaves their sections (\<open>sys_step\<close>): the profiles
  served stay well formed, and a reload can be lost, so that the store need not serve the live tree.  In
  \<open>Desired\<close> a call of \<^verbatim>\<open>Apply\<close> or \<^verbatim>\<open>handle\<close> is one function of the state, and the properties of a single
  call say that they take the store to be touched by this call alone; its error, its report and the
  directories do not depend on the store (\<open>Apply_any_store\<close>, \<open>handle_any_store\<close>).  Runs (\<open>watch_reach\<close>,
  \<open>turns\<close>) let the other watcher change the store in any way between the calls, and what is claimed of
  them is about the report and the directories only.

  \<^bold>\<open>Loops.\<close>  Recursion is structural or has a termination proof.  The one loop that may run forever,
  catching up with a store that answers a read with nothing, is a partial function into \<open>option\<close>, and
  a property shows that it returns for every store that answers each key.  No fuel is used.

  \<^bold>\<open>Not modelled.\<close>  Log output other than the warnings of the start, measured times and the counters of
  bytes; what the clients of the bus, of Redis and of the resolver do inside (each call is a parameter
  with its outcome, and \<^verbatim>\<open>Drain\<close> and \<^verbatim>\<open>Close\<close> of them are events); what a failure of the machine, as
  opposed to the end of the process, does to files that were not synced; the parsing of command
  lines; the build version, two variables the linker sets; running out of memory, which a list object whose
  header announces more records than it has can cause when room is made for them; constants and types the program declares and never uses.
\<close>

section \<open>A cookie on its way\<close>

text \<open>A request that carries exactly one cookie header with one cookie.\<close>

definition carries :: "handler \<Rightarrow> request \<Rightarrow> string \<Rightarrow> string \<Rightarrow> bool" where
  "carries h req name v \<longleftrightarrow>
     fst (source_Headers (hd_env h) (newSource req)) = ([(''Cookie'', render_cookies [(name, v)])], True)"

lemma carried_cookies:
  assumes "carries h req name v" and "plain_pair (name, v)"
  shows "fst (source_Cookies (hd_env h) (newSource req)) = ([(name, v)], True)"
proof -
  have "fresh (newSource req) = newSource req" by (simp add: fresh_def newSource_def)
  with source_Cookies_fresh [of "hd_env h" "newSource req"] assms
    cookie_header_parsed [of "[(name, v)]" "en_uni (hd_env h)"]
  show ?thesis by (simp add: carries_def Let_def)
qed

text \<open>
  C1.  A cookie survives the round trip through the client.  A value the inspector issued at one
  time and the client sends back later is found by the handler in the state the two clocks decide
  (present, or expired after \<open>renew_after\<close>), with the value it was issued with; every other cookie
  of the profile is absent.
\<close>

theorem issued_cookie_recognised:
  assumes "wf_profile u p" and "c \<in> set (p_Cookies p)"
    and "cookie_Issue u' ops c s t0 (hd_secret h) rnd = (Inr (v, tag), s')" and "sane_time t0"
    and "carries h req (c_Name c) v" and "state_at c t0 now \<noteq> StateInvalid"
  shows "\<exists>sts vals. fst (handler_states h p (newSource req) now) = Inr (sts, vals) \<and>
      sts (c_Name c) = Some (state_at c t0 now) \<and>
      vals (c_Name c) = Some \<lparr>sn_Raw = v, sn_Value = tag\<rparr> \<and>
      (\<forall>d \<in> set (p_Cookies p). d \<noteq> c \<longrightarrow> sts (c_Name d) = Some StateAbsent)"
proof -
  let ?st = "\<lambda>d. if d = c then state_at c t0 now else StateAbsent"
  let ?tg = "\<lambda>d. if d = c then tag else []"
  have dist: "distinct (map c_Name (p_Cookies p))" and "wf_cookie u c"
    using assms(1,2) by (auto simp: wf_profile_def)
  then have "plain_pair (c_Name c, v)"
    using issue_good [OF assms(3)] by (simp add: plain_pair_def good_value_def wf_cookie_def)
  from carried_cookies [OF assms(5) this] have
    src: "fst (source_Cookies (hd_env h) (newSource req)) = ([(c_Name c, v)], True)" .
  have raw: "raw_of [(c_Name c, v)] True d = (if d = c then v else [])" if "d \<in> set (p_Cookies p)" for d
    using that dist assms(2) by (auto simp: raw_of_def distinct_map dest: inj_onD)
  have "\<forall>d \<in> set (p_Cookies p).
      cookie_Read d (raw_of [(c_Name c, v)] True d) now (hd_secret h) = Inr (?st d, ?tg d)"
    using raw issue_read_roundtrip_aux [OF assms(3,4), of now] assms(6) by simp
  from states_loop_Inr [OF dist this, of Map.empty Map.empty] obtain sts vals where
    st: "states_loop (p_Cookies p) [(c_Name c, v)] True now (hd_secret h) Map.empty Map.empty = Inr (sts, vals)"
    "\<forall>d \<in> set (p_Cookies p). sts (c_Name d) = Some (?st d) \<and>
       vals (c_Name d) = (if ?st d = StatePresent \<or> ?st d = StateExpired
          then Some \<lparr>sn_Raw = raw_of [(c_Name c, v)] True d, sn_Value = ?tg d\<rparr> else None)"
    by blast
  have "state_at c t0 now \<in> {StatePresent, StateExpired}"
    using assms(6) by (auto simp: state_at_def split: if_splits)
  moreover have "fst (handler_states h p (newSource req) now) = Inr (sts, vals)"
    using src st(1) assms(2) by (cases "source_Cookies (hd_env h) (newSource req)")
      (auto simp: handler_states_def)
  ultimately show ?thesis
    using st(2) assms(2) raw [OF assms(2)] by (intro exI [of _ sts] exI [of _ vals]) auto
qed

section \<open>Failures of the store\<close>

text \<open>
  When the store fails on the headers of a request to a profile with cookies, the answer is
  the error \<open>COOKIE_STORE_ERROR\<close>: nothing is issued, dropped, asked for or written to a list on the
  strength of data that could not be read.
\<close>

theorem header_store_failure:
  assumes "map_of snap (rt_Profile (rq_Route req)) = Some p" and "p_Mode p \<noteq> ModeOff"
    and "wf_profile u p" and "p_Cookies p \<noteq> []"
    and "s_Headers (request_store req) = Some loc" and "Failed (en_load (hd_env h) loc)"
  shows "\<exists>d. inspect h snap req fill now rnds = (ErrorReply req codeStoreError, d, [])"
proof -
  have "distinct (map c_Name (p_Cookies p))" using assms(3) by (simp add: wf_profile_def)
  moreover have hc: "source_Cookies (hd_env h) (newSource req) =
      (([], False), (newSource req)\<lparr>sr_cookiesDone := True, sr_headersDone := True, sr_Fault := True,
         sr_Why := ''headers: '' @ bd_Unavailable (en_load (hd_env h) loc)\<rparr>)"
    using assms(5,6) by (rule placed_Headers)
  ultimately obtain sts where
    "handler_states h p (newSource req) now =
       (Inr (sts, Map.empty), snd (source_Cookies (hd_env h) (newSource req)))"
    using states_absent [of p h "newSource req" now] assms(4) by auto
  moreover have "HeadersPlaced (newSource req)"
    using assms(5) by (simp add: HeadersPlaced_def source_store_def newSource_def)
  ultimately show ?thesis
    using assms(1,2) hc by (auto simp: inspect_def Let_def)
qed

text \<open>
  A header object that the sender marked as unavailable is not a failure: the headers count as
  placed, every cookie of the profile is taken as absent and the request is answered by the rules
  for absent cookies, although the code answers an error when no header object is announced at all.
\<close>

theorem unavailable_headers_mean_absent:
  assumes "wf_profile u p" and "s_Headers (request_store req) = Some loc"
    and "l_Unavailable loc \<noteq> []" and "en_load (hd_env h) = load_object oc"
  shows "HeadersPlaced (newSource req) \<and>
    (\<exists>sts src'. handler_states h p (newSource req) now = (Inr (sts, Map.empty), src') \<and>
       \<not> sr_Fault src' \<and> (\<forall>c \<in> set (p_Cookies p). sts (c_Name c) = Some StateAbsent))"
proof -
  have "load_object oc loc = no_body\<lparr>bd_Unavailable := l_Unavailable loc\<rparr>"
    using assms(3) by (simp add: load_object_def loader_Load_def)
  then have "\<not> Failed (en_load (hd_env h) loc)" "\<not> Available (en_load (hd_env h) loc)"
    using assms(3,4) by (simp_all add: Failed_def Available_def no_body_def)
  then have hc: "source_Cookies (hd_env h) (newSource req) =
      (([], False), (newSource req)\<lparr>sr_cookiesDone := True, sr_headersDone := True\<rparr>)"
    using unavailable_Headers [OF assms(2)] by blast
  have "distinct (map c_Name (p_Cookies p))" using assms(1) by (simp add: wf_profile_def)
  with states_absent [of p h "newSource req" now] hc obtain sts where
    "handler_states h p (newSource req) now =
       (Inr (sts, Map.empty), if p_Cookies p = [] then newSource req
          else (newSource req)\<lparr>sr_cookiesDone := True, sr_headersDone := True\<rparr>)"
    "\<forall>c \<in> set (p_Cookies p). sts (c_Name c) = Some StateAbsent" by auto
  moreover have "HeadersPlaced (newSource req)"
    using assms(2) by (simp add: HeadersPlaced_def source_store_def newSource_def)
  ultimately show ?thesis by (auto simp: newSource_def)
qed

section \<open>Actions of a reply\<close>

lemma actions_bounded:
  assumes "wf_snapshot u snap" and "inspect h snap req fill now rnds = (r, d, ops)"
    and "a \<in> set (rp_Actions r)"
  shows "\<exists>a0. valid_action a0 \<and> a = a0\<lparr>a_Marker := a_Marker a\<rparr> \<and> length (a_Marker a) \<le> MarkerMax \<and>
    (a_Marker a = [] \<longleftrightarrow> a_Marker a0 = [])"
  using assms(2)
proof (cases rule: inspect_cases)
  case err
  with assms(3) show ?thesis using error_answer_fields [of req r] by simp
next
  case (off p)
  with assms(3) show ?thesis by simp
next
  case (ok p)
  with assms(1) have wf: "\<forall>r \<in> set (p_Rules p). wf_rule p r"
    by (auto simp: wf_snapshot_def wf_profile_def)
  from ok(3) assms(3) obtain t vals where
    "a \<in> set (fst (expand (out_Actions (collect_all h p req fill t)) vals))"
    by (auto simp: ok_answer_def Let_def)
  then obtain k where k: "k \<in> set (out_Actions (collect_all h p req fill t))" "expand_ask vals k = Inr a"
    using expand_Inr by blast
  then have "\<exists>r \<in> set (p_Rules p). k \<in> set (r_Actions r)"
    by (auto simp: collect_all_def Let_def collect_refines collect_spec_def CollectOverload_eq
        overload_fired_def split: if_splits)
  with wf have "valid_action (ask_Action k)" by (auto simp: wf_rule_def wf_ask_def)
  with expand_ask_Inr [OF k(2)] show ?thesis by blast
qed

text \<open>
  C37.  What a running service can ask its proxy for.  Start the store on a directory, let the watcher and
  the applier interleave in any way while the files change, and answer any request with the profiles
  served at that moment: every action of the reply is one that passed the parser, changed in its marker
  at most; the marker is filled, is at most 128 bytes, and is there exactly when the action has one.
\<close>

theorem reply_actions_bounded:
  assumes "NewStore u y fs dir = Inr s0" and "sys_reach u y (idle (OnLoad s0)) s"
    and "inspect h (st_current (sys_store s)) req fill now rnds = (r, d, ops)" and "a \<in> set (rp_Actions r)"
  shows "\<exists>a0. valid_action a0 \<and> a = a0\<lparr>a_Marker := a_Marker a\<rparr> \<and> length (a_Marker a) \<le> MarkerMax \<and>
    (a_Marker a = [] \<longleftrightarrow> a_Marker a0 = [])"
proof -
  have "st_current (sys_store s) \<in> snapshots_of s" by (simp add: snapshots_of_def)
  from served_wf [OF assms(1,2) this] show ?thesis using assms(3,4) by (rule actions_bounded)
qed

section \<open>Witnesses\<close>

definition src_rule :: rule where
  "src_rule = (plain_rule ''landing'' [] ''waf_src'' [])\<lparr>r_On := StateAbsent\<rparr>"

definition src_profile :: profile where
  "src_profile = \<lparr>p_Name = ''shop'', p_Mode = ModeEnforce, p_Cookies = [src_cookie], p_Rules = [src_rule]\<rparr>"

lemma src_profile_wf: "wf_profile ascii_only src_profile"
  using demo_wf
  by (simp add: wf_profile_def src_profile_def wf_rule_def src_rule_def plain_rule_def wf_plain_rule_def
      wf_names_def wf_tags_def wf_listed_def wf_on_def profile_Cookie_def States_def src_cookie_def)

lemma demo_load:
  "load_object (Some demo_client) (placed_at ''h'') =
     \<lparr>bd_Data = ''[]'', bd_Truncated = False, bd_Unavailable = [], bd_Fault = False,
      bd_SHA256 = hex_encode (sha256 ''[]'')\<rparr>"
  by (simp add: load_object_def loader_Load_def bodyLoader_def placed_at_def redis_store_def redis_Get_def
      demo_client_def loader_finish_def check_digest_def want_digest_def Let_def)

lemma demo_load_missing: "load_object (Some demo_client) (placed_at ''q'') = faulty unavailableStoreError"
  by (simp add: load_object_def loader_Load_def bodyLoader_def placed_at_def redis_store_def redis_Get_def
      demo_client_def Let_def)

lemma demo_headers:
  "source_Headers (hd_env (demo_handler hs)) (newSource demo_request) =
     ((hs, True), (newSource demo_request)\<lparr>sr_headersDone := True, sr_headers := hs, sr_headersOK := True\<rparr>)"
  by (simp add: source_Headers_def demo_handler_def newSource_def source_store_def request_store_def
      demo_request_def demo_load Failed_def Available_def)

theorem issued_cookie_recognised_witness:
  "\<exists>sts vals. fst (handler_states (demo_handler [(''Cookie'', ''waf_src='' @ demo_value)]) src_profile
        (newSource demo_request) (1700000000 * Second + Hour)) = Inr (sts, vals) \<and>
      vals ''waf_src'' = Some \<lparr>sn_Raw = demo_value, sn_Value = ''yandex-direct''\<rparr>"
proof -
  let ?h = "demo_handler [(''Cookie'', ''waf_src='' @ demo_value)]"
  have "carries ?h demo_request (c_Name src_cookie) demo_value"
    by (simp add: carries_def demo_headers src_cookie_def)
  moreover have "state_at src_cookie (1700000000 * Second) (1700000000 * Second + Hour) \<noteq> StateInvalid"
    by (simp add: state_at_def src_cookie_def Signed_def unix_of_def time_Sub_def duration_defs)
  moreover have "hd_secret ?h = demo_key" "src_cookie \<in> set (p_Cookies src_profile)"
    by (simp_all add: demo_handler_def src_profile_def)
  ultimately show ?thesis
    using issued_cookie_recognised [OF src_profile_wf, of src_cookie ascii_only view_ops utm_view
        "1700000000 * Second" ?h None demo_value "''yandex-direct''" utm_view demo_request
        "1700000000 * Second + Hour"] demo_issue demo_sane
    by (auto simp: src_cookie_def)
qed

definition headers_at :: "locator \<Rightarrow> request" where
  "headers_at loc = demo_request\<lparr>rq_Store := (rq_Store demo_request)\<lparr>s_Headers := Some loc\<rparr>\<rparr>"

lemma headers_at_simps:
  "s_Headers (request_store (headers_at loc)) = Some loc"
  "rt_Profile (rq_Route (headers_at loc)) = ''shop''"
  by (simp_all add: headers_at_def request_store_def demo_request_def)

theorem header_store_failure_witness:
  "\<exists>d. inspect (demo_handler []) [(''shop'', src_profile)] (headers_at (placed_at ''q'')) 0 0 (\<lambda>_. None) =
     (ErrorReply (headers_at (placed_at ''q'')) codeStoreError, d, [])"
  by (rule header_store_failure [of _ _ src_profile ascii_only "placed_at ''q''"])
    (simp_all add: headers_at_simps src_profile_wf demo_handler_def demo_load_missing Failed_def faulty_def,
     simp_all add: src_profile_def)

theorem unavailable_headers_mean_absent_witness:
  "\<exists>sts src'. handler_states (demo_handler []) src_profile
       (newSource (headers_at ((placed_at [])\<lparr>l_Unavailable := ''too_large''\<rparr>))) 0 = (Inr (sts, Map.empty), src') \<and>
     sts ''waf_src'' = Some StateAbsent"
proof -
  let ?loc = "(placed_at [])\<lparr>l_Unavailable := ''too_large''\<rparr>"
  have "\<exists>sts src'. handler_states (demo_handler []) src_profile (newSource (headers_at ?loc)) 0 =
      (Inr (sts, Map.empty), src') \<and>
      \<not> sr_Fault src' \<and> (\<forall>c \<in> set (p_Cookies src_profile). sts (c_Name c) = Some StateAbsent)"
    using unavailable_headers_mean_absent [OF src_profile_wf, of "headers_at ?loc" ?loc
        "demo_handler []" "Some demo_client" 0]
    by (simp add: headers_at_simps demo_handler_def)
  then show ?thesis by (auto simp: src_profile_def src_cookie_def)
qed

definition seen_action :: action where
  "seen_action = marked\<lparr>a_Marker := ''seen''\<rparr>"

definition tell_profile :: profile where
  "tell_profile = \<lparr>p_Name = ''shop'', p_Mode = ModeEnforce, p_Cookies = [],
     p_Rules = [(plain_rule ''tell'' [] [] [])\<lparr>r_Actions := [\<lparr>ask_Action = seen_action, ask_Cookie = []\<rparr>]\<rparr>]\<rparr>"

text \<open>The file of this profile, in a directory of its own.\<close>

definition tell_action :: file_action where
  "tell_action = mark_action\<lparr>fa_Marker := ''seen''\<rparr>"

definition tell_file :: file_profile where
  "tell_file = (number_file [])\<lparr>fp_Cookies := [], fp_Rules := [(number_rule [])
     \<lparr>fu_Name := ''tell'', fu_Match := \<lparr>fm_PathPrefix = [], fm_Suffixes = [], fm_Static = False, fm_Methods = []\<rparr>,
      fu_On := [], fu_Issue := [], fu_Actions := [tell_action]\<rparr>]\<rparr>"

lemma tell_action_parses: "parseAction u tell_action = Inr seen_action"
  by (simp add: parseAction_def tell_action_def mark_action_def seen_action_def marked_def action_ttl_def
      CheckArchiveWhen_def action_apply_def action_fields_def TrimSpace_all_solid solid_def verbs_def
      checkPhaseAsk_def check_delta_def check_value_def check_mutate_def check_mark_def check_audit_def
      no_objects_def CheckMarker_def MarkerMax_def control_def Let_def)

lemma tell_parses: "policy_Parse ascii_only (\<lambda>_. Some tell_file) ''shop'' raw = Inr tell_profile"
proof -
  have "CheckMarkerSlots ''seen'' [] v p = None" for v p
    by (simp add: CheckMarkerSlots_pieces pieces_def)
  moreover have "fa_List tell_action = []" "a_Marker seen_action = ''seen''"
    by (simp_all add: tell_action_def mark_action_def seen_action_def)
  ultimately show ?thesis
    by (simp add: policy_Parse_def profile_mode_def tell_file_def number_file_def number_rule_def
        parseRule_def rule_start_def TrimSpace_all_solid solid_def parseRuleCookie_def rule_scope_def
        rule_names_def rule_tags_def parseListed_def check_on_def rule_valued_def tell_action_parses
        tell_profile_def plain_rule_def Let_def)
qed

lemma tell_store: "\<exists>s0. NewStore ascii_only (\<lambda>_. Some tell_file) two_dirs [''b''] = Inr s0 \<and>
    st_current s0 = [(''shop'', tell_profile)]"
proof -
  have "static_rules fs dir (p_Rules tell_profile) sets = Inr (p_Rules tell_profile, sets)" for fs dir sets
    by (simp add: tell_profile_def plain_rule_def)
  then have "LoadDir ascii_only (\<lambda>_. Some tell_file) two_dirs [''b''] = Inr [(''shop'', tell_profile)]"
    by (simp add: LoadDir_def two_dirs_def profileName_shop tell_parses loadStatic_def Names_def)
  then show ?thesis by (simp add: NewStore_def)
qed

lemma tell_inspect:
  "\<exists>d. inspect (demo_handler []) [(''shop'', tell_profile)] demo_request 0 0 (\<lambda>_. None) =
     ((plain demo_request codeOK)\<lparr>rp_Actions := [seen_action]\<rparr>, d, [])"
proof -
  have "rp_Cookies (plain demo_request codeOK) = []" by simp
  then have eq: "(plain demo_request codeOK)\<lparr>rp_Cookies := [], rp_Actions := as\<rparr> =
      (plain demo_request codeOK)\<lparr>rp_Actions := as\<rparr>" for as by simp
  have "profile_Collect u tell_profile t =
      empty_outcome\<lparr>out_Actions := [\<lparr>ask_Action = seen_action, ask_Cookie = []\<rparr>], out_Rules := [''tell'']\<rparr>"
    for u t
    by (simp add: profile_Collect_def tell_profile_def collect_step_def rule_passes_def plain_rule_def
        rule_adds_def empty_outcome_def Matches_def Let_def)
  moreover have "CollectOverload tell_profile 0 False = empty_outcome"
    by (simp add: CollectOverload_def tell_profile_def plain_rule_def overload_step_def)
  ultimately show ?thesis
    by (simp add: inspect_def demo_request_def tell_profile_def handler_states_def apply_and_finish_def
        handler_apply_def finish_inspect_def handler_publish_def collect_all_def empty_outcome_def
        expand_ask_def seen_action_def newSource_def Let_def)
qed

theorem reply_actions_bounded_witness:
  "\<exists>a0. valid_action a0 \<and> seen_action = a0\<lparr>a_Marker := ''seen''\<rparr>"
proof -
  obtain s0 where s0: "NewStore ascii_only (\<lambda>_. Some tell_file) two_dirs [''b''] = Inr s0"
    "st_current s0 = [(''shop'', tell_profile)]" using tell_store by blast
  have served: "st_current (sys_store (idle (OnLoad s0))) = [(''shop'', tell_profile)]"
    using s0(2) by (simp add: idle_def OnLoad_def)
  obtain d where "inspect (demo_handler []) (st_current (sys_store (idle (OnLoad s0)))) demo_request 0 0 (\<lambda>_. None) =
     ((plain demo_request codeOK)\<lparr>rp_Actions := [seen_action]\<rparr>, d, [])"
    unfolding served using tell_inspect by blast
  from reply_actions_bounded [OF s0(1) sys_reach.here this, of seen_action] show ?thesis
    by (auto simp: seen_action_def)
qed

section \<open>Where the code falls short of its documentation\<close>

text \<open>The source once the headers were read: it carries no cookie.\<close>

definition src_read :: source where
  "src_read = (newSource demo_request)\<lparr>sr_cookiesDone := True, sr_headersDone := True,
     sr_headersOK := True, sr_cookiesOK := True\<rparr>"

definition src_outcome :: outcome where
  "src_outcome = empty_outcome\<lparr>out_Issue := [src_cookie], out_Rules := [''landing'']\<rparr>"

abbreviation (input) src_now :: int where
  "src_now \<equiv> 1700000000 * Second"

abbreviation (input) src_value :: string where
  "src_value \<equiv> signed_text src_cookie ''direct'' src_now demo_key"

lemma src_states:
  "handler_states (demo_handler []) src_profile (newSource demo_request) now =
     (Inr ([''waf_src'' \<mapsto> StateAbsent], Map.empty), src_read)"
proof -
  have "source_Cookies (hd_env (demo_handler [])) (newSource demo_request) = (([], True), src_read)"
    by (simp add: source_Cookies_def source_Headers_def demo_handler_def newSource_def source_store_def
        request_store_def demo_request_def demo_load Failed_def Available_def cookie_pairs_def src_read_def)
  then show ?thesis
    by (simp add: handler_states_def src_profile_def raw_of_def Let_def) (simp add: src_cookie_def)
qed

lemma src_collected:
  "collect_all (demo_handler []) src_profile demo_request 0
     (request_target (demo_handler []) demo_request [''waf_src'' \<mapsto> StateAbsent] Map.empty) = src_outcome"
proof -
  have "profile_Collect u src_profile t = src_outcome" if "sget (tg_States t) ''waf_src'' = StateAbsent" for u t
    using that
    by (simp add: profile_Collect_def src_profile_def collect_step_def rule_passes_def src_rule_def src_outcome_def
        plain_rule_def rule_adds_def empty_outcome_def Matches_def Let_def profile_Cookie_def src_cookie_def)
  moreover have "CollectOverload src_profile 0 False = empty_outcome"
    by (simp add: CollectOverload_def src_profile_def src_rule_def plain_rule_def overload_step_def)
  ultimately show ?thesis
    by (simp add: collect_all_def request_target_def src_outcome_def empty_outcome_def demo_request_def Let_def)
qed

lemma src_issue:
  "fst (cookie_Issue ascii_only (request_ops (hd_env (demo_handler []))) src_cookie src_read src_now demo_key None) =
     Inr (src_value, ''direct'')"
proof -
  have "fst (issue_raw ascii_only (request_ops (hd_env (demo_handler []))) src_cookie src_read) = ''direct''"
    by (simp add: issue_raw_def src_cookie_def operand_Values_def op_first_def request_ops_def src_read_def
        source_Args_def rawArgs_def newSource_def demo_request_def demo_handler_def source_store_def
        request_store_def demo_load_missing Failed_def faulty_def case_prod_beta)
  moreover have "sanitizeTag ''direct'' 64 = ''direct''"
    by (simp add: sanitizeTag_eq clean_def tag_char_def char_class_defs)
  moreover have "length src_value \<le> 6 + 32"
    using length_signed_text [of src_now src_cookie "''direct''" demo_key] demo_sane by (simp add: sane_time_def)
  moreover have "tagOf ''direct'' = ''direct''" by (rule tagOf_no_tilde) simp
  ultimately show ?thesis
    by (simp add: cookie_Issue_def case_prod_beta issue_value_def Let_def signed_text_def src_cookie_def
        demo_key_def Signed_def cookie_limits)
qed

lemma src_absent_run:
  "\<exists>d. inspect (demo_handler []) [(''shop'', src_profile)] demo_request 0 src_now (\<lambda>_. None) =
     ((plain demo_request codeOK)\<lparr>rp_Cookies := [issued_cookie src_cookie src_value]\<rparr>, d, [])"
proof -
  let ?h = "demo_handler []"
  obtain ap src' where ap: "handler_apply ?h src_outcome Map.empty src_now (\<lambda>_. None) src_read = (Inr ap, src')"
    "ap_cookies ap = [issued_cookie src_cookie src_value]"
    using src_issue
    by (cases "cookie_Issue ascii_only (request_ops (hd_env ?h)) src_cookie src_read src_now demo_key None")
      (simp add: handler_apply_def src_outcome_def empty_outcome_def demo_handler_def)
  then have "\<exists>d. apply_and_finish ?h demo_request src_outcome Map.empty src_now (\<lambda>_. None) src_read en =
      ((plain demo_request codeOK)\<lparr>rp_Cookies := ap_cookies ap\<rparr>, d, [])" for en
    by (simp add: apply_and_finish_def finish_inspect_def handler_publish_def src_outcome_def empty_outcome_def
        Let_def plain_def reply_defs)
  moreover have "rt_Profile (rq_Route demo_request) = ''shop''" "HeadersPlaced (newSource demo_request)"
    "rq_Phase demo_request = PhaseRequest" "\<not> sr_Fault src_read" "p_Mode src_profile \<noteq> ModeOff"
    by (simp_all add: demo_request_def HeadersPlaced_def newSource_def source_store_def request_store_def
        src_profile_def src_read_def)
  ultimately show ?thesis by (simp add: inspect_def src_states src_collected ap(2) Let_def)
qed

text \<open>
  A failure of the store on the arguments of a request is not reported.  The handler looks for a
  failed load before it issues cookies, but the arguments are loaded while a cookie is issued: here
  the object with the arguments cannot be read, and the answer is \<open>COOKIE_OK\<close> with the traffic-source
  cookie signed over its default value.
\<close>

theorem args_store_failure_hidden:
  "Failed (load_object (Some demo_client) (placed_at ''q'')) \<and>
   s_Args (request_store demo_request) = Some (placed_at ''q'') \<and>
   (\<exists>r d. inspect (demo_handler []) [(''shop'', src_profile)] demo_request 0 (1700000000 * Second)
             (\<lambda>_. None) = (r, d, []) \<and>
      rp_Reason r = Some \<lparr>rn_Code = codeOK, rn_Class = []\<rparr> \<and>
      map ck_Value (rp_Cookies r) = [signed_text src_cookie ''direct'' (1700000000 * Second) demo_key])"
proof -
  obtain d where "inspect (demo_handler []) [(''shop'', src_profile)] demo_request 0 (1700000000 * Second)
      (\<lambda>_. None) = ((plain demo_request codeOK)
        \<lparr>rp_Cookies := [issued_cookie src_cookie
            (signed_text src_cookie ''direct'' (1700000000 * Second) demo_key)]\<rparr>, d, [])"
    using src_absent_run by blast
  moreover have "Failed (load_object (Some demo_client) (placed_at ''q''))"
    by (simp add: demo_load_missing Failed_def faulty_def)
  moreover have "s_Args (request_store demo_request) = Some (placed_at ''q'')"
    by (simp add: request_store_def demo_request_def)
  ultimately show ?thesis by (simp add: issued_cookie_def)
qed

text \<open>A marker with one slot, some text, a space and a letter.\<close>

definition long_marker :: "nat \<Rightarrow> string" where
  "long_marker n = ''{uid}'' @ replicate n (CHR ''a'') @ '' z''"

definition long_seen :: "nat \<Rightarrow> seen_map" where
  "long_seen n = [''uid'' \<mapsto> \<lparr>sn_Raw = replicate n (CHR ''b''), sn_Value = replicate n (CHR ''b'')\<rparr>]"

lemma long_fill:
  assumes "0 < n"
  shows "FillMarker (long_marker m) [] (long_seen n) [] =
    (replicate n (CHR ''b'') @ replicate m (CHR ''a'') @ '' z'', True)"
proof -
  have "slot_value [] (long_seen n) ''uid'' = replicate n (CHR ''b'')"
    by (simp add: slot_value_def seen_get_def long_seen_def)
  moreover have "lbrace \<notin> set (replicate m (CHR ''a'') @ '' z'')" by simp
  then have "FillMarker (replicate m (CHR ''a'') @ '' z'') [] (long_seen n) b =
      (b @ replicate m (CHR ''a'') @ '' z'', True)" for b
    by (subst FillMarker.simps) (simp add: IndexByte_def)
  ultimately show ?thesis
    using assms FillMarker_slot [of "[]" "''uid''" "replicate m (CHR ''a'') @ '' z''" "[]" "long_seen n" "[]"]
    by (simp add: long_marker_def)
qed

text \<open>
  A filled marker is cut after it was trimmed, so the marker of a reply can end in a space,
  which the same program refuses in a profile: the template passes both checks of a profile that
  declares the cookie, and the filled marker does not pass the check of markers.
\<close>

theorem filled_marker_can_end_in_space:
  "CheckMarker (long_marker 67) = None \<and>
   CheckMarkerSlots (long_marker 67) [] False number_profile = None \<and>
   (\<exists>a. expand_ask (long_seen 60) \<lparr>ask_Action = marked\<lparr>a_Marker := long_marker 67\<rparr>, ask_Cookie = []\<rparr> = Inr a \<and>
        CheckMarker (a_Marker a) = Some MarkerSpace)"
proof -
  let ?body = "replicate 60 (CHR ''b'') @ replicate 67 (CHR ''a'') :: string"
  let ?f = "?body @ '' z''"
  have "CheckMarker (long_marker 67) = None"
    by (auto simp: CheckMarker_None long_marker_def MarkerMax_def control_def)
  moreover have "CheckMarkerSlots (long_marker 67) [] False number_profile = None"
  proof -
    have "CheckMarkerSlots (replicate 67 (CHR ''a'') @ '' z'') [] False number_profile = None"
      by (subst CheckMarkerSlots.simps) (simp add: IndexByte_def)
    moreover have "slot_ok [] False number_profile ''uid''"
      by (simp add: slot_ok_def ownSlot_def profile_Cookie_def number_profile_def uid_cookie_def)
    ultimately show ?thesis
      using CheckMarkerSlots_slot [of "[]" "''uid''" "replicate 67 (CHR ''a'') @ '' z''" "[]" False number_profile]
      by (simp add: long_marker_def)
  qed
  moreover have "TrimSpace ?f = ?f"
    by (rule TrimSpace_solid) (simp add: solid_def)
  moreover have "take 128 ?f = ?body @ '' ''" "length ?f = 129" by simp_all
  moreover have "CheckMarker (?body @ '' '') = Some MarkerSpace"
  proof -
    have "(?body @ '' '') ! (length (?body @ '' '') - 1) = CHR '' ''" by (simp add: nth_append)
    moreover have "\<not> list_ex control (?body @ '' '')" by (auto simp: list_ex_iff control_def)
    moreover have "length (?body @ '' '') = 128" by simp
    ultimately show ?thesis unfolding CheckMarker_def MarkerMax_def by simp
  qed
  ultimately show ?thesis
    using long_fill [of 60 67]
    by (simp add: expand_ask_def Let_def MarkerMax_def) (simp add: long_marker_def)
qed

end
